(* ===== verification/Prelude.thy ===== *)
theory Prelude
  imports Main "HOL-Library.Word" "HOL-Library.Finite_Map"
begin

text \<open>
  Shared vocabulary of the development: the machine types of the Go code, results that carry
  an error (\<open>Inl\<close>, the Go \<open>error\<close> that is not nil) or a value (\<open>Inr\<close>), the Go standard library's
  big-endian and hexadecimal codecs (\<open>encoding/binary\<close>, \<open>encoding/hex\<close>), \<open>make\<close> followed by \<open>copy\<close>,
  and the generic lemmas every component uses.
\<close>

section \<open>Machine types\<close>

type_synonym u8 = "8 word"
type_synonym u16 = "16 word"
type_synonym u32 = "32 word"
type_synonym u64 = "64 word"
type_synonym bytes = "u8 list"

text \<open>
  A Go \<open>int64\<close> is kept as the same 64 bits as a \<open>uint64\<close> (the conversions \<open>uint64(v)\<close> and
  \<open>int64(v)\<close> do not change them) and is read with \<open>sint\<close>.
\<close>

type_synonym i64 = "64 word"

section \<open>Results\<close>

named_theorems res_simps \<open>rewriting rules for results\<close>

definition res_bind :: "'e + 'a \<Rightarrow> ('a \<Rightarrow> 'e + 'b) \<Rightarrow> 'e + 'b" where
  "res_bind r f = (case r of Inl e \<Rightarrow> Inl e | Inr a \<Rightarrow> f a)"

definition map_err :: "('e \<Rightarrow> 'f) \<Rightarrow> 'e + 'a \<Rightarrow> 'f + 'a" where
  "map_err f r = (case r of Inl e \<Rightarrow> Inl (f e) | Inr a \<Rightarrow> Inr a)"

lemma res_bind_simps [simp, code]:
  "res_bind (Inl e) f = Inl e"
  "res_bind (Inr a) f = f a"
  by (simp_all add: res_bind_def)

lemma map_err_simps [simp, code]:
  "map_err g (Inl e) = Inl (g e)"
  "map_err g (Inr a) = Inr a"
  by (simp_all add: map_err_def)

lemma res_bind_eq_Inr [res_simps]: "res_bind r f = Inr b \<longleftrightarrow> (\<exists>a. r = Inr a \<and> f a = Inr b)"
  by (cases r) auto

lemma res_bind_eq_Inl [res_simps]:
  "res_bind r f = Inl e \<longleftrightarrow> r = Inl e \<or> (\<exists>a. r = Inr a \<and> f a = Inl e)"
  by (cases r) auto

lemma map_err_eq_Inr [res_simps]: "map_err g r = Inr a \<longleftrightarrow> r = Inr a"
  by (cases r) auto

lemma map_err_eq_Inl [res_simps]: "map_err g r = Inl e \<longleftrightarrow> (\<exists>e'. r = Inl e' \<and> e = g e')"
  by (cases r) auto

lemma if_Inl_eq_Inr [res_simps]: "(if c then Inl e else r) = Inr a \<longleftrightarrow> \<not> c \<and> r = Inr a"
  by simp

lemma res_caseE:
  assumes "\<And>e. r = Inl e \<Longrightarrow> P" and "\<And>a. r = Inr a \<Longrightarrow> P"
  shows P
  using assms by (cases r) auto

section \<open>Codecs\<close>

text \<open>
  The contract of the encoders the program uses: what is written for a valid value reads back. Two
  valid values then never share their text.
\<close>

locale codec =
  fixes encode :: "'a \<Rightarrow> 'c"
    and decode :: "'c \<Rightarrow> 'a option"
    and valid :: "'a \<Rightarrow> bool"
  assumes decode_encode: "valid x \<Longrightarrow> decode (encode x) = Some x"
begin

lemma encode_inject: "valid x \<Longrightarrow> valid y \<Longrightarrow> encode x = encode y \<longleftrightarrow> x = y"
  by (metis decode_encode option.inject)

lemma encode_determined: "valid x \<Longrightarrow> encode x = c \<Longrightarrow> decode c = Some x"
  using decode_encode by auto

end

section \<open>Big-endian integers (\<open>encoding/binary\<close>)\<close>

text \<open>The low \<open>k\<close> bytes of a number, most significant first, and the number a byte list reads as.\<close>

primrec nat_be :: "nat \<Rightarrow> nat \<Rightarrow> bytes" where
  "nat_be 0 n = []"
| "nat_be (Suc k) n = nat_be k (n div 256) @ [word_of_nat n]"

definition be_nat :: "bytes \<Rightarrow> nat" where
  "be_nat bs = foldl (\<lambda>a b. a * 256 + unat b) 0 bs"

lemma be_nat_Nil [simp]: "be_nat [] = 0"
  by (simp add: be_nat_def)

lemma be_nat_snoc [simp]: "be_nat (bs @ [b]) = be_nat bs * 256 + unat b"
  by (simp add: be_nat_def)

lemma length_nat_be [simp]: "length (nat_be k n) = k"
  by (induction k arbitrary: n) simp_all

lemma unat_of_nat_u8: "unat (word_of_nat n :: u8) = n mod 256"
  by (simp add: unat_of_nat)

lemma be_nat_nat_be: "be_nat (nat_be k n) = n mod 256 ^ k"
proof (induction k arbitrary: n)
  case 0
  then show ?case by simp
next
  case (Suc k)
  have "be_nat (nat_be (Suc k) n) = (n div 256) mod 256 ^ k * 256 + n mod 256"
    by (simp add: Suc.IH unat_of_nat_u8)
  also have "\<dots> = n mod (256 * 256 ^ k)"
    by (metis add.commute mod_mult2_eq mult.commute)
  finally show ?case by simp
qed

lemma unat_u8_less: "unat (b :: u8) < 256"
  by (rule order_less_le_trans [OF unsigned_less]) simp

lemma unat_u16_less: "unat (v :: u16) < 65536"
  by (rule order_less_le_trans [OF unsigned_less]) simp

lemma unat_u64_less: "unat (v :: u64) < 18446744073709551616"
  by (rule order_less_le_trans [OF unsigned_less]) simp

lemma be_nat_less: "be_nat bs < 256 ^ length bs"
proof (induction bs rule: rev_induct)
  case Nil
  then show ?case by simp
next
  case (snoc b bs)
  have "be_nat bs * 256 + unat b < (be_nat bs + 1) * 256"
    using unat_u8_less [of b] by simp
  also have "\<dots> \<le> 256 ^ length bs * 256"
    using snoc.IH by (intro mult_le_mono1) simp
  finally show ?case by simp
qed

lemma nat_be_be_nat: "nat_be (length bs) (be_nat bs) = bs"
proof (induction bs rule: rev_induct)
  case Nil
  then show ?case by simp
next
  case (snoc b bs)
  have "(be_nat bs * 256 + unat b) div 256 = be_nat bs"
    using unat_u8_less [of b] by simp
  moreover have "(word_of_nat (be_nat bs * 256 + unat b) :: u8) = b"
    using unat_u8_less [of b] by (simp only: word_unat_eq_iff unat_of_nat_u8) simp
  ultimately show ?case
    using snoc.IH by simp
qed

text \<open>\<open>binary.BigEndian.PutUint16\<close>, \<open>Uint16\<close>, \<open>AppendUint64(nil, v)\<close> and \<open>Uint64\<close>.\<close>

definition put_uint16 :: "u16 \<Rightarrow> bytes" where
  "put_uint16 v = nat_be 2 (unat v)"

definition uint16_of :: "bytes \<Rightarrow> u16" where
  "uint16_of bs = word_of_nat (be_nat bs)"

definition append_uint64 :: "u64 \<Rightarrow> bytes" where
  "append_uint64 v = nat_be 8 (unat v)"

definition uint64_of :: "bytes \<Rightarrow> u64" where
  "uint64_of bs = word_of_nat (be_nat bs)"

lemma length_put_uint16 [simp]: "length (put_uint16 v) = 2"
  by (simp add: put_uint16_def)

lemma length_append_uint64 [simp]: "length (append_uint64 v) = 8"
  by (simp add: append_uint64_def)

lemma uint16_put [simp]: "uint16_of (put_uint16 v) = v"
  using unat_u16_less [of v]
  by (simp add: word_unat_eq_iff uint16_of_def put_uint16_def be_nat_nat_be unat_of_nat)

lemma uint64_append [simp]: "uint64_of (append_uint64 v) = v"
  using unat_u64_less [of v]
  by (simp add: word_unat_eq_iff uint64_of_def append_uint64_def be_nat_nat_be unat_of_nat)

lemma append_uint64_of: "length bs = 8 \<Longrightarrow> append_uint64 (uint64_of bs) = bs"
  using be_nat_less [of bs] nat_be_be_nat [of bs]
  by (simp add: append_uint64_def uint64_of_def unat_of_nat)

lemma put_uint16_of: "length bs = 2 \<Longrightarrow> put_uint16 (uint16_of bs) = bs"
  using be_nat_less [of bs] nat_be_be_nat [of bs]
  by (simp add: put_uint16_def uint16_of_def unat_of_nat)

interpretation be16: codec put_uint16 "\<lambda>bs. Some (uint16_of bs)" "\<lambda>_. True"
  by unfold_locales simp

interpretation be64: codec append_uint64 "\<lambda>bs. Some (uint64_of bs)" "\<lambda>_. True"
  by unfold_locales simp

lemma append_uint64_inject [simp]: "append_uint64 v = append_uint64 w \<longleftrightarrow> v = w"
  by (rule be64.encode_inject) simp_all

lemma append_uint64_not_Nil [simp]: "append_uint64 v \<noteq> []"
proof
  assume "append_uint64 v = []"
  then have "length (append_uint64 v) = 0" by (simp only: list.size)
  then show False by simp
qed

text \<open>A non-negative \<open>int64\<close> reads the same as a \<open>uint64\<close>.\<close>

lemma sint_nonneg: "0 \<le> sint (v :: i64) \<Longrightarrow> sint v = uint v"
  using uint_sint [of v] sint_lt [of v] by (simp add: take_bit_int_eq_self)

section \<open>\<open>make\<close> and \<open>copy\<close>\<close>

text \<open>\<open>out := make([]byte, n); copy(out, src)\<close>: what is not written stays zero.\<close>

definition make_copy :: "nat \<Rightarrow> bytes \<Rightarrow> bytes" where
  "make_copy n src = take n (src @ replicate n 0)"

lemma length_make_copy [simp]: "length (make_copy n src) = n"
  by (simp add: make_copy_def)

lemma make_copy_same: "length src = n \<Longrightarrow> make_copy n src = src"
  by (simp add: make_copy_def)

text \<open>\<open>[]byte(s)\<close> for a string, \<open>string(b)\<close> for bytes.\<close>

definition string_bytes :: "string \<Rightarrow> bytes" where
  "string_bytes s = map of_char s"

definition bytes_string :: "bytes \<Rightarrow> string" where
  "bytes_string bs = map (\<lambda>b. char_of (unat b)) bs"

lemma of_char_byte [simp]: "(of_char (char_of (unat b)) :: u8) = b"
proof -
  have "(of_char (char_of (unat b)) :: u8) = of_nat (of_char (char_of (unat b)))"
    by (simp only: of_nat_of_char)
  also have "(of_char (char_of (unat b)) :: nat) = unat b"
    using unat_u8_less [of b] by simp
  finally show ?thesis by simp
qed

lemma string_bytes_string [simp]: "string_bytes (bytes_string bs) = bs"
  by (induction bs) (simp_all add: string_bytes_def bytes_string_def)

section \<open>Hexadecimal text (\<open>encoding/hex\<close>)\<close>

datatype hex_error = HexInvalidByte char | HexOddLength

definition hextable :: string where
  "hextable = ''0123456789abcdef''"

definition hex_encode :: "bytes \<Rightarrow> string" where
  "hex_encode bs =
     concat (map (\<lambda>b. [hextable ! (unat b div 16), hextable ! (unat b mod 16)]) bs)"

text \<open>The value of one digit; both cases are read, only lower case is written.\<close>

definition from_hex_char :: "char \<Rightarrow> nat option" where
  "from_hex_char c =
     (let n = of_char c :: nat in
      if 48 \<le> n \<and> n \<le> 57 then Some (n - 48)
      else if 97 \<le> n \<and> n \<le> 102 then Some (n - 97 + 10)
      else if 65 \<le> n \<and> n \<le> 70 then Some (n - 65 + 10)
      else None)"

fun hex_decode :: "string \<Rightarrow> hex_error + bytes" where
  "hex_decode [] = Inr []"
| "hex_decode [c] =
     (case from_hex_char c of None \<Rightarrow> Inl (HexInvalidByte c) | Some _ \<Rightarrow> Inl HexOddLength)"
| "hex_decode (p # q # cs) =
     (case from_hex_char p of None \<Rightarrow> Inl (HexInvalidByte p) | Some a \<Rightarrow>
     (case from_hex_char q of None \<Rightarrow> Inl (HexInvalidByte q) | Some b \<Rightarrow>
      res_bind (hex_decode cs) (\<lambda>bs. Inr (word_of_nat (a * 16 + b) # bs))))"

lemma hex_encode_Nil [simp]: "hex_encode [] = []"
  by (simp add: hex_encode_def)

lemma hex_encode_Cons [simp]:
  "hex_encode (b # bs) = hextable ! (unat b div 16) # hextable ! (unat b mod 16) # hex_encode bs"
  by (simp add: hex_encode_def)

lemma hex_encode_append [simp]: "hex_encode (xs @ ys) = hex_encode xs @ hex_encode ys"
  by (simp add: hex_encode_def)

lemma length_hex_encode [simp]: "length (hex_encode bs) = 2 * length bs"
  by (induction bs) simp_all

lemma from_hex_hextable: "n < 16 \<Longrightarrow> from_hex_char (hextable ! n) = Some n"
proof -
  have "\<forall>n \<in> set [0..<16]. from_hex_char (hextable ! n) = Some n"
    by code_simp
  then show "n < 16 \<Longrightarrow> from_hex_char (hextable ! n) = Some n"
    by simp
qed

lemma hex_decode_encode [simp]: "hex_decode (hex_encode bs) = Inr bs"
proof (induction bs)
  case Nil
  then show ?case by simp
next
  case (Cons b bs)
  have "unat b div 16 < 16" and "unat b mod 16 < 16"
    using unat_u8_less [of b] by auto
  with Cons.IH show ?case
    by (simp add: from_hex_hextable)
qed

interpretation hex: codec hex_encode "\<lambda>s. case hex_decode s of Inl _ \<Rightarrow> None | Inr bs \<Rightarrow> Some bs" "\<lambda>_. True"
  by unfold_locales simp

lemma hex_encode_inject [simp]: "hex_encode xs = hex_encode ys \<longleftrightarrow> xs = ys"
  by (rule hex.encode_inject) simp_all

lemma hex_decode_length: "hex_decode cs = Inr bs \<Longrightarrow> length cs = 2 * length bs"
  by (induction cs arbitrary: bs rule: hex_decode.induct)
    (auto simp: res_simps split: option.splits)

section \<open>Decimal text of a non-negative integer (\<open>fmt\<close>'s \<open>%d\<close>)\<close>

fun itoa :: "nat \<Rightarrow> string" where
  "itoa n = (if n < 10 then [char_of (48 + n)] else itoa (n div 10) @ [char_of (48 + n mod 10)])"

declare itoa.simps [simp del]

lemma itoa_digit: "n < 10 \<Longrightarrow> itoa n = [char_of (48 + n)]"
  by (subst itoa.simps) simp

section \<open>The first success of a loop\<close>

text \<open>\<open>for ... { if m, ok := f(i); ok { return m, true } }; return nil, false\<close>\<close>

fun first_some :: "('a \<Rightarrow> 'b option) \<Rightarrow> 'a list \<Rightarrow> 'b option" where
  "first_some f [] = None"
| "first_some f (x # xs) = (case f x of Some y \<Rightarrow> Some y | None \<Rightarrow> first_some f xs)"

lemma first_some_append:
  "first_some f (xs @ ys) = (case first_some f xs of Some y \<Rightarrow> Some y | None \<Rightarrow> first_some f ys)"
  by (induction xs) (auto split: option.splits)

lemma first_some_None: "first_some f xs = None \<longleftrightarrow> list_all (\<lambda>x. f x = None) xs"
  by (induction xs) (auto split: option.splits)

lemma first_some_upt:
  "first_some f [0..<n] = Some y \<longleftrightarrow> (\<exists>i<n. f i = Some y \<and> (\<forall>j<i. f j = None))"
proof (induction n)
  case 0
  then show ?case by simp
next
  case (Suc n)
  show ?case
  proof (cases "first_some f [0..<n]")
    case None
    then have "\<forall>j<n. f j = None"
      by (simp add: first_some_None list_all_iff)
    with None show ?thesis
      by (auto simp: first_some_append less_Suc_eq split: option.splits)
  next
    case (Some z)
    then have "\<exists>j<n. f j \<noteq> None"
      using first_some_None [of f "[0..<n]"] by (auto simp: list_all_iff)
    with Some Suc.IH show ?thesis
      by (auto simp: first_some_append less_Suc_eq)
  qed
qed

end
