(* ===== verification/Transition.thy ===== *)
theory Transition
  imports Prelude
begin

text \<open>
  Transition systems, shared by the step relations of the development: reachable states, invariants
  proved once by rule induction, and simulations, along which a reachable state of one system is one
  of another.
\<close>

definition reachable_from :: "('s \<Rightarrow> bool) \<Rightarrow> ('s \<Rightarrow> 's \<Rightarrow> bool) \<Rightarrow> 's \<Rightarrow> bool" where
  "reachable_from init step s \<longleftrightarrow> (\<exists>s0. init s0 \<and> step\<^sup>*\<^sup>* s0 s)"

lemma reachable_init: "init s \<Longrightarrow> reachable_from init step s"
  by (auto simp: reachable_from_def)

lemma reachable_run:
  "reachable_from init step s \<Longrightarrow> step\<^sup>*\<^sup>* s s' \<Longrightarrow> reachable_from init step s'"
  by (auto simp: reachable_from_def intro: rtranclp_trans)

lemma reachable_step:
  "reachable_from init step s \<Longrightarrow> step s s' \<Longrightarrow> reachable_from init step s'"
  by (rule reachable_run) auto

lemma reachable_induct [consumes 1, case_names init step]:
  assumes "reachable_from init step s" and "\<And>s. init s \<Longrightarrow> P s"
    and "\<And>s s'. reachable_from init step s \<Longrightarrow> step s s' \<Longrightarrow> P s \<Longrightarrow> P s'"
  shows "P s"
proof -
  from assms(1) obtain s0 where "init s0" and "step\<^sup>*\<^sup>* s0 s"
    by (auto simp: reachable_from_def)
  from this(2) show ?thesis
  proof (induction rule: rtranclp_induct)
    case base
    show ?case by (rule assms(2)) fact
  next
    case (step s s')
    with \<open>init s0\<close> show ?case
      by (blast intro: assms(3) reachable_run reachable_init)
  qed
qed

text \<open>A property of the initial states that every step keeps.\<close>

locale invariant_system =
  fixes init :: "'s \<Rightarrow> bool"
    and step :: "'s \<Rightarrow> 's \<Rightarrow> bool"
    and inv :: "'s \<Rightarrow> bool"
  assumes init_inv: "init s \<Longrightarrow> inv s"
    and step_inv: "step s s' \<Longrightarrow> inv s \<Longrightarrow> inv s'"
begin

lemma run_keeps: "step\<^sup>*\<^sup>* s s' \<Longrightarrow> inv s \<Longrightarrow> inv s'"
  by (induction rule: rtranclp_induct) (auto intro: step_inv)

lemma reachable_inv: "reachable_from init step s \<Longrightarrow> inv s"
  by (induction rule: reachable_induct) (auto intro: init_inv step_inv)

end

text \<open>A system whose steps are runs of another, given an invariant of its own.\<close>

locale simulation = invariant_system init step inv
  for init :: "'s \<Rightarrow> bool" and step :: "'s \<Rightarrow> 's \<Rightarrow> bool" and inv :: "'s \<Rightarrow> bool" +
  fixes ainit :: "'a \<Rightarrow> bool"
    and astep :: "'a \<Rightarrow> 'a \<Rightarrow> bool"
    and abs :: "'s \<Rightarrow> 'a"
  assumes init_abs: "init s \<Longrightarrow> ainit (abs s)"
    and step_abs: "step s s' \<Longrightarrow> inv s \<Longrightarrow> astep\<^sup>*\<^sup>* (abs s) (abs s')"
begin

lemma reachable_abs: "reachable_from init step s \<Longrightarrow> reachable_from ainit astep (abs s)"
proof (induction rule: reachable_induct)
  case (init s)
  then show ?case by (blast intro: reachable_init init_abs)
next
  case (step s s')
  then show ?case by (blast intro: reachable_run step_abs reachable_inv)
qed

end

end
