(* ===== verification/Executor.thy ===== *)
theory Executor
  imports Transition "HOL-Library.Multiset"
begin

text \<open>
  \<open>pkg/executor/executor.go\<close>: the runtime that drives plugins against transaction streams. Each
  plugin's \<open>consume\<close> loop, the solves it starts and \<open>Run\<close> are goroutines; the model has one step for
  each of their actions, taken in any order. What a call of a plugin depends on beside its
  arguments is a value \<open>w\<close> of a type of worlds, free in every step; a call that panics is the value
  \<open>Panic\<close>. The channel of a stream is a queue, where a nil transaction is \<open>None\<close>.
\<close>

section \<open>Model\<close>

datatype 'a outcome = Return 'a | Panic

record ('w, 'tx, 'i) plugin =
  PFilter :: string
  PMatch :: "'w \<Rightarrow> 'tx \<Rightarrow> 'i option outcome"
  PSolve :: "'w \<Rightarrow> 'i \<Rightarrow> unit outcome"

definition safeMatch :: "('w, 'tx, 'i) plugin \<Rightarrow> 'w \<Rightarrow> 'tx \<Rightarrow> 'i option" where
  "safeMatch p w tx = (case PMatch p w tx of Return r \<Rightarrow> r | Panic \<Rightarrow> None)"

definition safeSolve :: "('w, 'tx, 'i) plugin \<Rightarrow> 'w \<Rightarrow> 'i \<Rightarrow> unit" where
  "safeSolve p w intent = (case PSolve p w intent of Return _ \<Rightarrow> () | Panic \<Rightarrow> ())"

text \<open>
  The runtime itself: its plugins and its logger, where a nil logger is \<open>None\<close>. Panics are recovered with
  or without one; with one they are reported.
\<close>

record ('w, 'tx, 'i) runtime =
  RtPlugins :: "('w, 'tx, 'i) plugin list"
  RtLog :: "nat option"

definition NewExecutor :: "nat \<Rightarrow> ('w, 'tx, 'i) plugin list \<Rightarrow> ('w, 'tx, 'i) runtime" where
  "NewExecutor standardLogger plugins = \<lparr>RtPlugins = plugins, RtLog = Some standardLogger\<rparr>"

definition WithLogger :: "nat option \<Rightarrow> ('w, 'tx, 'i) runtime \<Rightarrow> ('w, 'tx, 'i) runtime" where
  "WithLogger log s = s\<lparr>RtLog := log\<rparr>"

definition logPanic :: "('w, 'tx, 'i) runtime \<Rightarrow> string \<Rightarrow> (nat \<times> string) list" where
  "logPanic s msg = (case RtLog s of None \<Rightarrow> [] | Some log \<Rightarrow> [(log, msg)])"

definition match_reported ::
  "('w, 'tx, 'i) runtime \<Rightarrow> ('w, 'tx, 'i) plugin \<Rightarrow> 'w \<Rightarrow> 'tx \<Rightarrow> 'i option \<times> (nat \<times> string) list" where
  "match_reported s p w tx =
     (case PMatch p w tx of Return r \<Rightarrow> (r, []) | Panic \<Rightarrow> (None, logPanic s ''plugin Match panicked''))"

definition solve_reported ::
  "('w, 'tx, 'i) runtime \<Rightarrow> ('w, 'tx, 'i) plugin \<Rightarrow> 'w \<Rightarrow> 'i \<Rightarrow> unit \<times> (nat \<times> string) list" where
  "solve_reported s p w intent =
     (case PSolve p w intent of Return _ \<Rightarrow> ((), []) | Panic \<Rightarrow> ((), logPanic s ''plugin Solve panicked''))"

text \<open>What is logged never changes what the runtime does, and only a panic is logged, once.\<close>

lemma reported_same:
  "fst (match_reported s p w tx) = safeMatch p w tx"
  "fst (solve_reported s p w intent) = safeSolve p w intent"
  by (simp_all add: match_reported_def safeMatch_def split: outcome.split)

lemma reported_panic:
  "snd (match_reported s p w tx) \<noteq> [] \<longleftrightarrow> RtLog s \<noteq> None \<and> PMatch p w tx = Panic"
  "snd (solve_reported s p w intent) \<noteq> [] \<longleftrightarrow> RtLog s \<noteq> None \<and> PSolve p w intent = Panic"
  "length (snd (match_reported s p w tx)) \<le> 1" "length (snd (solve_reported s p w intent)) \<le> 1"
  by (auto simp: match_reported_def solve_reported_def logPanic_def split: outcome.split option.split)

text \<open>
  A running \<open>consume\<close>: in its loop, past it and waiting for its solves, or returned. The last three
  fields keep what has happened: the transactions taken with what \<open>safeMatch\<close> gave for them, the
  intents whose \<open>safeSolve\<close> has ended, and all the source has put into the channel.
\<close>

datatype consume_phase = Looping | Draining | Finished

definition phase_rank :: "consume_phase \<Rightarrow> nat" where
  "phase_rank p = (case p of Looping \<Rightarrow> 0 | Draining \<Rightarrow> 1 | Finished \<Rightarrow> 2)"

text \<open>The phases are passed through in this order.\<close>

instantiation consume_phase :: linorder
begin

definition less_eq_consume_phase :: "consume_phase \<Rightarrow> consume_phase \<Rightarrow> bool" where
  "p \<le> q \<longleftrightarrow> phase_rank p \<le> phase_rank q"

definition less_consume_phase :: "consume_phase \<Rightarrow> consume_phase \<Rightarrow> bool" where
  "p < q \<longleftrightarrow> phase_rank p < phase_rank q"

instance
proof
  show "p = q" if "p \<le> q" and "q \<le> p" for p q :: consume_phase
    using that by (cases p; cases q) (simp_all add: less_eq_consume_phase_def phase_rank_def)
qed (auto simp: less_eq_consume_phase_def less_consume_phase_def)

end

lemma phase_order [simp]:
  "Looping \<le> p" "p \<le> Finished" "Finished \<le> p \<longleftrightarrow> p = Finished" "p \<le> Looping \<longleftrightarrow> p = Looping"
  by (cases p; simp add: less_eq_consume_phase_def phase_rank_def)+

record ('w, 'tx, 'i) consumer =
  CPlugin :: "('w, 'tx, 'i) plugin"
  CQueue :: "'tx option list"
  CClosed :: bool
  CPhase :: consume_phase
  CInFlight :: "'i multiset"
  CTaken :: "('tx option \<times> 'i option) list"
  CSolved :: "'i multiset"
  CDelivered :: "'tx option list"

definition start_consumer :: "('w, 'tx, 'i) plugin \<Rightarrow> ('w, 'tx, 'i) consumer" where
  "start_consumer p = \<lparr>CPlugin = p, CQueue = [], CClosed = False, CPhase = Looping,
     CInFlight = {#}, CTaken = [], CSolved = {#}, CDelivered = []\<rparr>"

text \<open>One iteration of the loop, for the transaction it has received.\<close>

definition receive :: "'w \<Rightarrow> 'tx option \<Rightarrow> ('w, 'tx, 'i) consumer \<Rightarrow> ('w, 'tx, 'i) consumer" where
  "receive w tx c =
     (case tx of
        None \<Rightarrow> c\<lparr>CTaken := CTaken c @ [(tx, None)]\<rparr>
      | Some t \<Rightarrow>
          (case safeMatch (CPlugin c) w t of
             None \<Rightarrow> c\<lparr>CTaken := CTaken c @ [(tx, None)]\<rparr>
           | Some intent \<Rightarrow> c\<lparr>CTaken := CTaken c @ [(tx, Some intent)],
                 CInFlight := add_mset intent (CInFlight c)\<rparr>))"

text \<open>
  The source's part of a stream, and the steps of \<open>consume\<close> and of its solves. The loop's \<open>select\<close> takes
  either case when both are ready, so a transaction may still be received after the cancellation.
  \<open>W\<close> says which worlds are possible.
\<close>

inductive source_step :: "('w, 'tx, 'i) consumer \<Rightarrow> ('w, 'tx, 'i) consumer \<Rightarrow> bool" where
  deliver: "\<not> CClosed c \<Longrightarrow> source_step c
    (c\<lparr>CQueue := CQueue c @ [tx], CDelivered := CDelivered c @ [tx]\<rparr>)"
| close: "\<not> CClosed c \<Longrightarrow> source_step c (c\<lparr>CClosed := True\<rparr>)"

inductive consume_step ::
  "('w \<Rightarrow> bool) \<Rightarrow> bool \<Rightarrow> ('w, 'tx, 'i) consumer \<Rightarrow> ('w, 'tx, 'i) consumer \<Rightarrow> bool"
  for W :: "'w \<Rightarrow> bool" and cancelled :: bool where
  ctx_done: "CPhase c = Looping \<Longrightarrow> cancelled \<Longrightarrow>
    consume_step W cancelled c (c\<lparr>CPhase := Draining\<rparr>)"
| closed: "CPhase c = Looping \<Longrightarrow> CQueue c = [] \<Longrightarrow> CClosed c \<Longrightarrow>
    consume_step W cancelled c (c\<lparr>CPhase := Draining\<rparr>)"
| take: "CPhase c = Looping \<Longrightarrow> CQueue c = tx # rest \<Longrightarrow> W w \<Longrightarrow>
    consume_step W cancelled c (receive w tx (c\<lparr>CQueue := rest\<rparr>))"
| solved: "intent \<in># CInFlight c \<Longrightarrow> safeSolve (CPlugin c) w intent = () \<Longrightarrow>
    consume_step W cancelled c
      (c\<lparr>CInFlight := CInFlight c - {#intent#}, CSolved := add_mset intent (CSolved c)\<rparr>)"
| wait_done: "CPhase c = Draining \<Longrightarrow> CInFlight c = {#} \<Longrightarrow>
    consume_step W cancelled c (c\<lparr>CPhase := Finished\<rparr>)"

datatype run_error = CtxErr | ErrAllStreamsClosed

datatype run_phase = Selecting | CtxDoneChosen | Returned run_error

text \<open>\<open>XTried\<close> keeps which plugins have been subscribed, and whether that succeeded.\<close>

record ('w, 'tx, 'i) executor =
  XPending :: "('w, 'tx, 'i) plugin list"
  XTried :: "(('w, 'tx, 'i) plugin \<times> bool) list"
  XConsumers :: "('w, 'tx, 'i) consumer list"
  XCancelled :: bool
  XRun :: run_phase

definition run_init :: "('w, 'tx, 'i) plugin list \<Rightarrow> ('w, 'tx, 'i) executor" where
  "run_init plugins =
     \<lparr>XPending = plugins, XTried = [], XConsumers = [], XCancelled = False, XRun = Selecting\<rparr>"

text \<open>One iteration of the loop of \<open>Run\<close>; \<open>ok\<close> is whether \<open>Subscribe\<close> succeeded.\<close>

definition subscribe_plugin ::
  "bool \<Rightarrow> ('w, 'tx, 'i) plugin \<Rightarrow> ('w, 'tx, 'i) executor \<Rightarrow> ('w, 'tx, 'i) executor" where
  "subscribe_plugin ok p s =
     (if \<not> ok then s\<lparr>XTried := XTried s @ [(p, False)]\<rparr>
      else s\<lparr>XTried := XTried s @ [(p, True)], XConsumers := XConsumers s @ [start_consumer p]\<rparr>)"

text \<open>What the second case of the final \<open>select\<close> returns.\<close>

definition done_result :: "bool \<Rightarrow> run_error" where
  "done_result cancelled = (if cancelled then CtxErr else ErrAllStreamsClosed)"

definition all_finished :: "('w, 'tx, 'i) executor \<Rightarrow> bool" where
  "all_finished s \<longleftrightarrow> list_all (\<lambda>c. CPhase c = Finished) (XConsumers s)"

definition returned :: "run_phase \<Rightarrow> bool" where
  "returned r = (case r of Returned _ \<Rightarrow> True | _ \<Rightarrow> False)"

text \<open>
  The executor's own steps, and those of its environment: the cancellation, which is watched until
  \<open>Run\<close> has returned, and the streams.
\<close>

inductive own_step ::
  "('w \<Rightarrow> bool) \<Rightarrow> ('w, 'tx, 'i) executor \<Rightarrow> ('w, 'tx, 'i) executor \<Rightarrow> bool"
  for W :: "'w \<Rightarrow> bool" where
  subscribe: "XPending s = p # ps \<Longrightarrow> own_step W s (subscribe_plugin ok p (s\<lparr>XPending := ps\<rparr>))"
| consume: "i < length (XConsumers s) \<Longrightarrow> consume_step W (XCancelled s) (XConsumers s ! i) c \<Longrightarrow>
    own_step W s (s\<lparr>XConsumers := (XConsumers s)[i := c]\<rparr>)"
| ctx_chosen: "XPending s = [] \<Longrightarrow> XRun s = Selecting \<Longrightarrow> XCancelled s \<Longrightarrow>
    own_step W s (s\<lparr>XRun := CtxDoneChosen\<rparr>)"
| drained: "XRun s = CtxDoneChosen \<Longrightarrow> all_finished s \<Longrightarrow>
    own_step W s (s\<lparr>XRun := Returned CtxErr\<rparr>)"
| done_chosen: "XPending s = [] \<Longrightarrow> XRun s = Selecting \<Longrightarrow> all_finished s \<Longrightarrow>
    own_step W s (s\<lparr>XRun := Returned (done_result (XCancelled s))\<rparr>)"

inductive env_step :: "('w, 'tx, 'i) executor \<Rightarrow> ('w, 'tx, 'i) executor \<Rightarrow> bool" where
  cancel: "\<not> returned (XRun s) \<Longrightarrow> env_step s (s\<lparr>XCancelled := True\<rparr>)"
| source: "i < length (XConsumers s) \<Longrightarrow> source_step (XConsumers s ! i) c \<Longrightarrow>
    env_step s (s\<lparr>XConsumers := (XConsumers s)[i := c]\<rparr>)"

definition run_step ::
  "('w \<Rightarrow> bool) \<Rightarrow> ('w, 'tx, 'i) executor \<Rightarrow> ('w, 'tx, 'i) executor \<Rightarrow> bool" where
  "run_step W s s' \<longleftrightarrow> own_step W s s' \<or> env_step s s'"

abbreviation run_reachable ::
  "('w \<Rightarrow> bool) \<Rightarrow> ('w, 'tx, 'i) plugin list \<Rightarrow> ('w, 'tx, 'i) executor \<Rightarrow> bool" where
  "run_reachable W plugins \<equiv> reachable_from (\<lambda>s. s = run_init plugins) (run_step W)"

section \<open>The invariant\<close>

definition taken_ok ::
  "('w \<Rightarrow> bool) \<Rightarrow> ('w, 'tx, 'i) plugin \<Rightarrow> 'tx option \<times> 'i option \<Rightarrow> bool" where
  "taken_ok W p x =
     (case x of (None, r) \<Rightarrow> r = None | (Some t, r) \<Rightarrow> \<exists>w. W w \<and> r = safeMatch p w t)"

definition intents_of :: "('tx option \<times> 'i option) list \<Rightarrow> 'i list" where
  "intents_of taken = List.map_filter snd taken"

definition consumer_inv ::
  "('w \<Rightarrow> bool) \<Rightarrow> bool \<Rightarrow> ('w, 'tx, 'i) consumer \<Rightarrow> bool" where
  "consumer_inv W cancelled c \<longleftrightarrow>
     list_all (taken_ok W (CPlugin c)) (CTaken c) \<and>
     mset (intents_of (CTaken c)) = CInFlight c + CSolved c \<and>
     CDelivered c = map fst (CTaken c) @ CQueue c \<and>
     (CPhase c = Finished \<longrightarrow> CInFlight c = {#}) \<and>
     (CPhase c \<noteq> Looping \<longrightarrow> cancelled \<or> CQueue c = [] \<and> CClosed c)"

definition run_inv :: "('w \<Rightarrow> bool) \<Rightarrow> ('w, 'tx, 'i) plugin list \<Rightarrow> ('w, 'tx, 'i) executor \<Rightarrow> bool" where
  "run_inv W plugins s \<longleftrightarrow>
     list_all (consumer_inv W (XCancelled s)) (XConsumers s) \<and>
     map fst (XTried s) @ XPending s = plugins \<and>
     map CPlugin (XConsumers s) = map fst (filter snd (XTried s)) \<and>
     (case XRun s of Selecting \<Rightarrow> True
      | CtxDoneChosen \<Rightarrow> XPending s = [] \<and> XCancelled s
      | Returned e \<Rightarrow> XPending s = [] \<and> all_finished s \<and> e = done_result (XCancelled s))"

lemma intents_of_simps [simp]:
  "intents_of [] = []"
  "intents_of (taken @ [(tx, None)]) = intents_of taken"
  "intents_of (taken @ [(tx, Some i)]) = intents_of taken @ [i]"
  by (simp_all add: intents_of_def List.map_filter_def)

lemma set_intents_of: "i \<in> set (intents_of taken) \<longleftrightarrow> (\<exists>tx. (tx, Some i) \<in> set taken)"
  by (force simp: intents_of_def List.map_filter_def)

inductive_cases consume_stepE: "consume_step W cancelled c c'"
inductive_cases source_stepE: "source_step c c'"
inductive_cases own_stepE: "own_step W s s'"
inductive_cases env_stepE: "env_step s s'"

lemma receive_inv:
  assumes "consumer_inv W cancelled c" and "CPhase c = Looping" and "W w" and "CQueue c = tx # rest"
  shows "consumer_inv W cancelled (receive w tx (c\<lparr>CQueue := rest\<rparr>))"
  using assms
  by (auto simp: receive_def consumer_inv_def taken_ok_def split: option.split)

lemma consume_step_inv:
  assumes "consume_step W cancelled c c'" and "consumer_inv W cancelled c"
  shows "consumer_inv W cancelled c'"
  using assms
  by (cases rule: consume_step.cases) (auto simp: receive_inv, auto simp: consumer_inv_def)

lemma source_step_inv:
  "source_step c c' \<Longrightarrow> consumer_inv W cancelled c \<Longrightarrow> consumer_inv W cancelled c'"
  by (erule source_stepE) (auto simp: consumer_inv_def)

lemma step_plugin:
  "consume_step W cancelled c c' \<Longrightarrow> CPlugin c' = CPlugin c"
  "source_step c c' \<Longrightarrow> CPlugin c' = CPlugin c"
  by (auto elim!: consume_stepE source_stepE simp: receive_def split: option.split)

text \<open>A consumer's phase never goes back.\<close>

lemma step_phase:
  "consume_step W cancelled c c' \<Longrightarrow> CPhase c \<le> CPhase c'"
  "source_step c c' \<Longrightarrow> CPhase c \<le> CPhase c'"
  by (auto elim!: consume_stepE source_stepE simp: receive_def split: option.split)

lemma consumer_inv_cancel: "consumer_inv W cancelled c \<Longrightarrow> consumer_inv W True c"
  by (simp add: consumer_inv_def)

lemma start_consumer_inv [simp]: "consumer_inv W cancelled (start_consumer p)"
  by (simp add: consumer_inv_def start_consumer_def)

lemma start_consumer_plugin [simp]: "CPlugin (start_consumer p) = p"
  by (simp add: start_consumer_def)

lemma list_all_update: "list_all P xs \<Longrightarrow> P x \<Longrightarrow> list_all P (xs[i := x])"
  using set_update_subset_insert by (fastforce simp: list_all_iff)

lemma list_all_nthD: "list_all P xs \<Longrightarrow> i < length xs \<Longrightarrow> P (xs ! i)"
  by (simp add: list_all_length)

lemma map_update_same: "i < length xs \<Longrightarrow> f x = f (xs ! i) \<Longrightarrow> map f (xs[i := x]) = map f xs"
  by (metis list_update_id map_update)

text \<open>A consumer replaced by one its own or its source's step leads to.\<close>

lemma replace_consumer_inv:
  assumes "run_inv W plugins s" and "i < length (XConsumers s)"
    and "consumer_inv W (XCancelled s) c" and "CPlugin c = CPlugin (XConsumers s ! i)"
    and "CPhase (XConsumers s ! i) \<le> CPhase c"
  shows "run_inv W plugins (s\<lparr>XConsumers := (XConsumers s)[i := c]\<rparr>)"
proof -
  have "all_finished s \<Longrightarrow> all_finished (s\<lparr>XConsumers := (XConsumers s)[i := c]\<rparr>)"
    using assms(2,5) by (auto simp: all_finished_def dest: list_all_nthD intro!: list_all_update)
  then show ?thesis
    using assms(1-4) by (auto simp: run_inv_def list_all_update map_update_same split: run_phase.splits)
qed

lemma own_step_inv:
  assumes "own_step W s s'" and "run_inv W plugins s"
  shows "run_inv W plugins s'"
  using assms(1)
proof (cases rule: own_step.cases)
  case (consume i c)
  have "consumer_inv W (XCancelled s) (XConsumers s ! i)"
    using assms(2) consume(2) by (simp add: run_inv_def list_all_nthD)
  with consume show ?thesis
    using replace_consumer_inv [OF assms(2) consume(2)] consume_step_inv [OF consume(3)]
      step_plugin(1) [OF consume(3)] step_phase(1) [OF consume(3)] by simp
next
  case (subscribe p ps ok)
  then show ?thesis
    using assms(2) by (auto simp: run_inv_def subscribe_plugin_def start_consumer_plugin
        split: run_phase.splits)
qed (use assms(2) in \<open>auto simp: run_inv_def done_result_def all_finished_def\<close>)

lemma env_step_inv:
  assumes "env_step s s'" and "run_inv W plugins s"
  shows "run_inv W plugins s'"
  using assms(1)
proof (cases rule: env_step.cases)
  case cancel
  then show ?thesis
    using assms(2) consumer_inv_cancel
    by (auto simp: run_inv_def returned_def all_finished_def elim!: list.pred_mono_strong
        split: run_phase.splits)
next
  case (source i c)
  have "consumer_inv W (XCancelled s) (XConsumers s ! i)"
    using assms(2) source(2) by (simp add: run_inv_def list_all_nthD)
  with source show ?thesis
    using replace_consumer_inv [OF assms(2) source(2)] source_step_inv [OF source(3)]
      step_plugin(2) [OF source(3)] step_phase(2) [OF source(3)] by simp
qed

interpretation run: invariant_system "\<lambda>s. s = run_init plugins" "run_step W" "run_inv W plugins"
  for W plugins
proof unfold_locales
  show "run_inv W plugins s" if "s = run_init plugins" for s
    using that by (simp add: run_inv_def run_init_def)
  show "run_inv W plugins s'" if "run_step W s s'" and "run_inv W plugins s" for s s'
    using that own_step_inv env_step_inv by (auto simp: run_step_def)
qed

lemmas run_reachable_inv = run.reachable_inv

section \<open>Termination\<close>

definition consumer_measure :: "('w, 'tx, 'i) consumer \<Rightarrow> nat" where
  "consumer_measure c =
     (case CPhase c of Looping \<Rightarrow> 2 | Draining \<Rightarrow> 1 | Finished \<Rightarrow> 0) +
     2 * length (CQueue c) + size (CInFlight c)"

definition run_measure :: "('w, 'tx, 'i) executor \<Rightarrow> nat" where
  "run_measure s =
     3 * length (XPending s) + sum_list (map consumer_measure (XConsumers s)) +
     (case XRun s of Selecting \<Rightarrow> 2 | CtxDoneChosen \<Rightarrow> 1 | Returned _ \<Rightarrow> 0)"

lemma consume_step_measure:
  assumes "consume_step W cancelled c c'"
  shows "consumer_measure c' < consumer_measure c"
  using assms
  by (cases rule: consume_step.cases)
    (auto simp: consumer_measure_def receive_def size_Diff_singleton
      dest!: multi_member_split split: option.split)

lemma sum_list_update_less:
  "i < length xs \<Longrightarrow> f x < f (xs ! i) \<Longrightarrow>
     sum_list (map f (xs[i := x])) < sum_list (map f xs :: nat list)"
  by (induction xs arbitrary: i) (auto split: nat.splits)

lemma own_step_measure:
  assumes "own_step W s s'"
  shows "run_measure s' < run_measure s"
  using assms
proof (cases rule: own_step.cases)
  case (consume i c)
  then show ?thesis
    using sum_list_update_less [OF consume(2) consume_step_measure [OF consume(3)]]
    by (simp add: run_measure_def)
next
  case (subscribe p ps ok)
  then show ?thesis
    by (simp add: run_measure_def subscribe_plugin_def consumer_measure_def start_consumer_def)
qed (simp_all add: run_measure_def)

lemma own_steps_bounded: "(own_step W ^^ k) s s' \<Longrightarrow> k + run_measure s' \<le> run_measure s"
  by (induction k arbitrary: s') (fastforce dest: own_step_measure)+

text \<open>
  The executor is asked to stop when the context is cancelled, or when every plugin has been tried,
  every stream is closed and \<open>Match\<close> still answers.
\<close>

definition stopping :: "('w \<Rightarrow> bool) \<Rightarrow> ('w, 'tx, 'i) executor \<Rightarrow> bool" where
  "stopping W s \<longleftrightarrow>
     XCancelled s \<or> XPending s = [] \<and> list_all CClosed (XConsumers s) \<and> (\<exists>w. W w)"

lemma consumer_progress:
  assumes "CPhase c \<noteq> Finished" and "cancelled \<or> CClosed c \<and> W w"
  shows "\<exists>c'. consume_step W cancelled c c'"
proof (cases "CPhase c")
  case Looping
  then show ?thesis
    using assms(2) by (cases "CQueue c") (auto intro: consume_step.intros)
next
  case Draining
  then show ?thesis
    using solved [of _ c _ W cancelled] wait_done [of c W cancelled]
    by (metis multiset_nonemptyE unit_eq)
qed (use assms(1) in simp)

lemma own_step_progress:
  assumes "run_inv W plugins s" and "stopping W s" and "\<not> returned (XRun s)"
  shows "\<exists>s'. own_step W s s'"
proof (cases "XPending s")
  case (Cons p ps)
  then show ?thesis
    using own_step.subscribe by blast
next
  case Nil
  show ?thesis
  proof (cases "all_finished s")
    case True
    then show ?thesis
      using Nil assms(3) own_step.drained own_step.done_chosen
      by (cases "XRun s") (blast | simp add: returned_def)+
  next
    case False
    then obtain i where "i < length (XConsumers s)" "CPhase (XConsumers s ! i) \<noteq> Finished"
      by (auto simp: all_finished_def list_all_length)
    with assms(2) obtain c where "consume_step W (XCancelled s) (XConsumers s ! i) c"
      using consumer_progress by (metis list_all_nthD stopping_def)
    then show ?thesis
      using own_step.consume \<open>i < length (XConsumers s)\<close> by blast
  qed
qed

lemma consume_step_closed: "consume_step W cancelled c c' \<Longrightarrow> CClosed c' = CClosed c"
  by (erule consume_stepE) (auto simp: receive_def split: option.split)

lemma own_step_stopping:
  assumes "own_step W s s'" and "stopping W s"
  shows "stopping W s' \<and> XCancelled s' = XCancelled s"
  using assms(1)
proof (cases rule: own_step.cases)
  case (consume i c)
  then show ?thesis
    using assms(2) consume_step_closed [OF consume(3)]
    by (auto simp: stopping_def dest: list_all_nthD intro!: list_all_update)
qed (use assms(2) in \<open>auto simp: stopping_def subscribe_plugin_def\<close>)

definition stopping_inv ::
  "('w \<Rightarrow> bool) \<Rightarrow> ('w, 'tx, 'i) plugin list \<Rightarrow> bool \<Rightarrow> ('w, 'tx, 'i) executor \<Rightarrow> bool" where
  "stopping_inv W plugins x s \<longleftrightarrow> run_inv W plugins s \<and> stopping W s \<and> XCancelled s = x"

interpretation stop: invariant_system "stopping_inv W plugins x" "own_step W" "stopping_inv W plugins x"
  for W plugins x
  by unfold_locales (auto simp: stopping_inv_def own_step_inv own_step_stopping)

section \<open>A run for the witnesses\<close>

text \<open>A plugin that matches even numbers, panics on 7 and panics in every \<open>Solve\<close>.\<close>

definition even_plugin :: "(unit, nat, nat) plugin" where
  "even_plugin = \<lparr>PFilter = ''even'',
     PMatch = (\<lambda>_ n. if n = 7 then Panic else Return (if even n then Some n else None)),
     PSolve = (\<lambda>_ _. Panic)\<rparr>"

definition sample_exec ::
  "(unit, nat, nat) consumer \<Rightarrow> bool \<Rightarrow> run_phase \<Rightarrow> (unit, nat, nat) executor" where
  "sample_exec c x r = \<lparr>XPending = [], XTried = [(even_plugin, False), (even_plugin, True)],
     XConsumers = [c], XCancelled = x, XRun = r\<rparr>"

definition sample_consumer ::
  "nat option list \<Rightarrow> bool \<Rightarrow> consume_phase \<Rightarrow> nat multiset \<Rightarrow> (nat option \<times> nat option) list \<Rightarrow>
   nat multiset \<Rightarrow> (unit, nat, nat) consumer" where
  "sample_consumer q cl ph fl tk sv = \<lparr>CPlugin = even_plugin, CQueue = q, CClosed = cl, CPhase = ph,
     CInFlight = fl, CTaken = tk, CSolved = sv, CDelivered = map fst tk @ q\<rparr>"

abbreviation sample_reachable :: "(unit, nat, nat) executor \<Rightarrow> bool" where
  "sample_reachable \<equiv> run_reachable (\<lambda>_. True) [even_plugin, even_plugin]"

lemma sample_started: "sample_reachable (sample_exec (sample_consumer [] False Looping {#} [] {#}) False Selecting)"
proof -
  let ?s1 = "(run_init [even_plugin])\<lparr>XTried := [(even_plugin, False)]\<rparr>"
  have "run_step (\<lambda>_. True) (run_init [even_plugin, even_plugin]) ?s1"
    using own_step.subscribe [of "run_init [even_plugin, even_plugin]" even_plugin "[even_plugin]"
        "\<lambda>_. True" False]
    by (simp add: run_step_def run_init_def subscribe_plugin_def)
  moreover have "run_step (\<lambda>_. True) ?s1
      (sample_exec (sample_consumer [] False Looping {#} [] {#}) False Selecting)"
    using own_step.subscribe [of ?s1 even_plugin "[]" "\<lambda>_. True" True]
    by (simp add: run_step_def run_init_def subscribe_plugin_def sample_exec_def sample_consumer_def
        start_consumer_def)
  ultimately show ?thesis
    by (blast intro: reachable_init reachable_step)
qed

lemma sample_lift:
  "consume_step (\<lambda>_. True) x c c' \<or> source_step c c' \<Longrightarrow> sample_reachable (sample_exec c x r) \<Longrightarrow>
     sample_reachable (sample_exec c' x r)"
  using own_step.consume [of 0 "sample_exec c x r" "\<lambda>_. True" c']
    env_step.source [of 0 "sample_exec c x r" c']
  by (intro reachable_step [of _ _ "sample_exec c x r" "sample_exec c' x r"])
    (auto simp: run_step_def sample_exec_def)

lemma sample_delivered:
  "sample_reachable (sample_exec (sample_consumer [Some 7, Some 2] True Looping {#} [] {#}) False Selecting)"
proof -
  have s1: "source_step (sample_consumer [] False Looping {#} [] {#})
      (sample_consumer [Some 7] False Looping {#} [] {#})"
    using source_step.deliver [of "sample_consumer [] False Looping {#} [] {#}" "Some 7"]
    by (simp add: sample_consumer_def)
  have s2: "source_step (sample_consumer [Some 7] False Looping {#} [] {#})
      (sample_consumer [Some 7, Some 2] False Looping {#} [] {#})"
    using source_step.deliver [of "sample_consumer [Some 7] False Looping {#} [] {#}" "Some 2"]
    by (simp add: sample_consumer_def)
  have s3: "source_step (sample_consumer [Some 7, Some 2] False Looping {#} [] {#})
      (sample_consumer [Some 7, Some 2] True Looping {#} [] {#})"
    using source_step.close [of "sample_consumer [Some 7, Some 2] False Looping {#} [] {#}"]
    by (simp add: sample_consumer_def)
  show ?thesis
    by (rule sample_lift [OF disjI2 [OF s3] sample_lift [OF disjI2 [OF s2] sample_lift [OF disjI2 [OF s1] sample_started]]])
qed

lemma take_to:
  "CPhase c = Looping \<Longrightarrow> CQueue c = tx # rest \<Longrightarrow> receive w tx (c\<lparr>CQueue := rest\<rparr>) = c' \<Longrightarrow>
     consume_step (\<lambda>_. True) x c c'"
  using consume_step.take [of c tx rest "\<lambda>_. True" w x] by simp

lemma sample_taken:
  "sample_reachable (sample_exec
     (sample_consumer [] True Looping {#2#} [(Some 7, None), (Some 2, Some 2)] {#}) False Selecting)"
proof -
  have s1: "consume_step (\<lambda>_. True) False (sample_consumer [Some 7, Some 2] True Looping {#} [] {#})
      (sample_consumer [Some 2] True Looping {#} [(Some 7, None)] {#})"
    by (rule take_to [where w = "()" and tx = "Some 7" and rest = "[Some 2]"])
      (simp_all add: sample_consumer_def receive_def safeMatch_def even_plugin_def)
  have s2: "consume_step (\<lambda>_. True) False
      (sample_consumer [Some 2] True Looping {#} [(Some 7, None)] {#})
      (sample_consumer [] True Looping {#2#} [(Some 7, None), (Some 2, Some 2)] {#})"
    by (rule take_to [where w = "()" and tx = "Some 2" and rest = "[]"])
      (simp_all add: sample_consumer_def receive_def safeMatch_def even_plugin_def)
  show ?thesis
    by (rule sample_lift [OF disjI1 [OF s2] sample_lift [OF disjI1 [OF s1] sample_delivered]])
qed

lemma sample_finished:
  "sample_reachable (sample_exec
     (sample_consumer [] True Finished {#} [(Some 7, None), (Some 2, Some 2)] {#2#}) False Selecting)"
proof -
  let ?c = "\<lambda>ph fl sv. sample_consumer [] True ph fl [(Some 7, None), (Some 2, Some 2)] sv"
  have s1: "consume_step (\<lambda>_. True) False (?c Looping {#2#} {#}) (?c Looping {#} {#2#})"
    using consume_step.solved [of 2 "?c Looping {#2#} {#}"] by (simp add: sample_consumer_def)
  have s2: "consume_step (\<lambda>_. True) False (?c Looping {#} {#2#}) (?c Draining {#} {#2#})"
    using consume_step.closed [of "?c Looping {#} {#2#}"] by (simp add: sample_consumer_def)
  have s3: "consume_step (\<lambda>_. True) False (?c Draining {#} {#2#}) (?c Finished {#} {#2#})"
    using consume_step.wait_done [of "?c Draining {#} {#2#}"] by (simp add: sample_consumer_def)
  show ?thesis
    by (rule sample_lift [OF disjI1 [OF s3] sample_lift [OF disjI1 [OF s2] sample_lift [OF disjI1 [OF s1] sample_taken]]])
qed

lemma sample_returned:
  "sample_reachable (sample_exec
     (sample_consumer [] True Finished {#} [(Some 7, None), (Some 2, Some 2)] {#2#}) False
     (Returned ErrAllStreamsClosed))" (is "sample_reachable (?s (Returned ErrAllStreamsClosed))")
proof -
  have "run_step (\<lambda>_. True) (?s Selecting) (?s (Returned ErrAllStreamsClosed))"
    using own_step.done_chosen [of "?s Selecting" "\<lambda>_. True"]
    by (simp add: run_step_def sample_exec_def sample_consumer_def all_finished_def done_result_def)
  then show ?thesis
    by (rule reachable_step [OF sample_finished])
qed

lemma sample_cancelled:
  "sample_reachable (sample_exec (sample_consumer [] False Looping {#} [] {#}) True Selecting)"
    (is "sample_reachable (?s True)")
proof -
  have "run_step (\<lambda>_. True) (?s False) (?s True)"
    using env_step.cancel [of "?s False"] by (simp add: run_step_def sample_exec_def returned_def)
  then show ?thesis
    by (rule reachable_step [OF sample_started])
qed

section \<open>Properties\<close>

text \<open>
  C8: when \<open>Run\<close> returns, no solve is in flight: every intent that was matched has been solved exactly
  once. It returns the context's error exactly when the context has been cancelled; otherwise every
  stream is closed and everything the source delivered has been looked at.
\<close>

theorem run_returns_clean:
  assumes "run_reachable W plugins s" and "XRun s = Returned e"
  shows "(e = CtxErr \<longleftrightarrow> XCancelled s) \<and>
    list_all (\<lambda>c. CPhase c = Finished \<and> CInFlight c = {#} \<and> CSolved c = mset (intents_of (CTaken c)))
      (XConsumers s) \<and>
    (e = ErrAllStreamsClosed \<longrightarrow>
      list_all (\<lambda>c. CClosed c \<and> map fst (CTaken c) = CDelivered c) (XConsumers s))"
proof -
  have i: "list_all (consumer_inv W (XCancelled s)) (XConsumers s)" "all_finished s"
      "e = done_result (XCancelled s)"
    using run_reachable_inv [OF assms(1)] assms(2) by (simp_all add: run_inv_def)
  then show ?thesis
    by (auto simp: done_result_def all_finished_def consumer_inv_def list_all_iff)
qed

theorem run_returns_clean_witness:
  "CSolved (sample_consumer [] True Finished {#} [(Some 7, None), (Some 2, Some 2)] {#2#}) = {#2#}"
  using run_returns_clean [OF sample_returned] by (simp add: sample_exec_def sample_consumer_def)

text \<open>
  C33: each consumer takes the transactions of its stream in the order the source delivers them, drops
  none, never matches a nil one, takes a panic of \<open>Match\<close> for no match, and starts one solve for
  every match: what it has matched is, with multiplicity, what is in flight and what is solved.
\<close>

theorem every_tx_is_matched:
  assumes "run_reachable W plugins s" and "i < length (XConsumers s)"
  shows "CDelivered (XConsumers s ! i) =
      map fst (CTaken (XConsumers s ! i)) @ CQueue (XConsumers s ! i) \<and>
    list_all (taken_ok W (CPlugin (XConsumers s ! i))) (CTaken (XConsumers s ! i)) \<and>
    mset (intents_of (CTaken (XConsumers s ! i))) =
      CInFlight (XConsumers s ! i) + CSolved (XConsumers s ! i)"
  using list_all_nthD [OF _ assms(2), of "consumer_inv W (XCancelled s)"] run_reachable_inv [OF assms(1)]
  by (simp add: run_inv_def consumer_inv_def)

theorem every_tx_is_matched_witness:
  "list_all (taken_ok (\<lambda>_. True) even_plugin) [(Some 7, None), (Some 2, Some 2)] \<and>
   mset (intents_of [(Some (7 :: nat), None), (Some 2, Some (2 :: nat))]) = {#2#} + {#}"
  using every_tx_is_matched [OF sample_taken, of 0] by (simp add: sample_exec_def sample_consumer_def)

text \<open>
  Every plugin is subscribed once, in order, and a failed subscription skips that plugin alone: the
  consumers are those of the plugins whose subscription has succeeded.
\<close>

theorem failed_subscription_skips_one:
  assumes "run_reachable W plugins s"
  shows "map fst (XTried s) @ XPending s = plugins \<and>
    map CPlugin (XConsumers s) = map fst (filter snd (XTried s))"
  using run_reachable_inv [OF assms] by (simp add: run_inv_def)

theorem failed_subscription_skips_one_witness:
  "map CPlugin [sample_consumer [] False Looping {#} [] {#}] =
     map fst (filter snd [(even_plugin, False), (even_plugin, True)])"
  using failed_subscription_skips_one [OF sample_started] by (simp add: sample_exec_def)

text \<open>
  C9: \<open>Run\<close> returns. Once the context is cancelled, or all streams are closed, the executor takes only
  finitely many more steps of its own, whatever their order, and cannot stop before \<open>Run\<close> has
  returned the matching error.
\<close>

theorem run_returns:
  assumes "run_reachable W plugins s" and "stopping W s"
  shows "(\<forall>k s'. (own_step W ^^ k) s s' \<longrightarrow> k \<le> run_measure s) \<and>
    (\<forall>s'. (own_step W)\<^sup>*\<^sup>* s s' \<longrightarrow> (\<nexists>s''. own_step W s' s'') \<longrightarrow>
       XRun s' = Returned (done_result (XCancelled s)))"
proof (intro conjI allI impI)
  show "k \<le> run_measure s" if "(own_step W ^^ k) s s'" for k s'
    using own_steps_bounded [OF that] by simp
  show "XRun s' = Returned (done_result (XCancelled s))"
    if "(own_step W)\<^sup>*\<^sup>* s s'" and stuck: "\<nexists>s''. own_step W s' s''" for s'
  proof -
    have "stopping_inv W plugins (XCancelled s) s'"
      by (rule stop.run_keeps [OF that(1)])
        (use run_reachable_inv [OF assms(1)] assms(2) in \<open>simp add: stopping_inv_def\<close>)
    then have k: "run_inv W plugins s'" "stopping W s'" "XCancelled s' = XCancelled s"
      by (simp_all add: stopping_inv_def)
    with stuck own_step_progress [OF k(1,2)] show ?thesis
      by (auto simp: run_inv_def returned_def split: run_phase.splits)
  qed
qed

theorem run_returns_witness:
  "2 \<le> run_measure (sample_exec (sample_consumer [] False Looping {#} [] {#}) True Selecting) \<and>
   XRun (sample_exec (sample_consumer [] False Finished {#} [] {#}) True (Returned CtxErr)) =
     Returned (done_result True)"
proof -
  let ?c = "\<lambda>ph. sample_consumer [] False ph {#} [] {#}"
  let ?s = "\<lambda>ph r. sample_exec (?c ph) True r" and ?step = "own_step (\<lambda>_. True)"
  have "stopping (\<lambda>_. True) (?s Looping Selecting)"
    by (simp add: stopping_def sample_exec_def)
  note r = run_returns [OF sample_cancelled this]
  have "consume_step (\<lambda>_. True) True (?c Looping) (?c Draining)"
    using consume_step.ctx_done [of "?c Looping" True] by (simp add: sample_consumer_def)
  then have s1: "?step (?s Looping Selecting) (?s Draining Selecting)"
    using own_step.consume [of 0 "?s Looping Selecting"] by (simp add: sample_exec_def)
  have "consume_step (\<lambda>_. True) True (?c Draining) (?c Finished)"
    using consume_step.wait_done [of "?c Draining"] by (simp add: sample_consumer_def)
  then have s2: "?step (?s Draining Selecting) (?s Finished Selecting)"
    using own_step.consume [of 0 "?s Draining Selecting"] by (simp add: sample_exec_def)
  have s3: "?step (?s Finished Selecting) (?s Finished (Returned CtxErr))"
    using own_step.done_chosen [of "?s Finished Selecting" "\<lambda>_. True"]
    by (simp add: sample_exec_def sample_consumer_def all_finished_def done_result_def)
  have "(?step ^^ 2) (?s Looping Selecting) (?s Finished Selecting)"
    using s1 s2 by (auto simp: numeral_2_eq_2)
  with r have "2 \<le> run_measure (?s Looping Selecting)" by blast
  moreover have "\<nexists>s'. ?step (?s Finished (Returned CtxErr)) s'"
    by (auto elim!: own_stepE consume_stepE simp: sample_exec_def sample_consumer_def)
  moreover have "?step\<^sup>*\<^sup>* (?s Looping Selecting) (?s Finished (Returned CtxErr))"
    using s1 s2 s3 by (meson converse_rtranclp_into_rtranclp r_into_rtranclp)
  moreover have "XCancelled (?s Looping Selecting)"
    by (simp add: sample_exec_def)
  ultimately show ?thesis
    using r by simp
qed

end
