(* ===== verification/Externals.thy ===== *)
theory Externals
  imports Prelude
begin

text \<open>
  What the program takes from code that is not part of the repository: btcd (keys, scripts, transactions,
  PSBTs), ark-lib (closures, taptrees, extensions, offchain transactions), the emulator's
  arkade package, x/crypto's HKDF, and the AES-GCM primitive. None of it is defined here. The structs
  the program reads or fills are records and datatypes with the fields it touches, everything else
  in them is an opaque byte string, and every function it calls is a field of the record \<open>ext\<close>,
  which the definitions of the development take as an argument \<open>L\<close>. What the program relies on is
  stated as the named predicates at the end; a theorem assumes one only where it needs it.
\<close>

section \<open>Structs of the libraries\<close>

text \<open>\<open>wire.TxOut\<close>, \<open>wire.MsgTx\<close>, \<open>wire.OutPoint\<close>: version, inputs and lock time stay opaque.\<close>

record txout =
  TxValue :: i64
  TxPkScript :: bytes

record msgtx =
  TxOuts :: "txout list"
  MsgRest :: bytes

record outpoint =
  OutHash :: bytes
  OutIndex :: u32

text \<open>\<open>psbt.Packet\<close>, with the only output field the program reads; \<open>None\<close> is a nil pointer.\<close>

record poutput =
  TaprootTapTree :: bytes

record psbt =
  UnsignedTx :: "msgtx option"
  POutputs :: "poutput list"
  PsbtRest :: bytes

text \<open>
  \<open>extension.Packet\<close> is an interface; the program tells the concrete type \<open>UnknownPacket\<close> from the
  others. An extension is a slice of packets.
\<close>

datatype ext_packet =
    UnknownPacket u8 bytes
  | KnownPacket u8 string

fun packet_type :: "ext_packet \<Rightarrow> u8" where
  "packet_type (UnknownPacket t _) = t"
| "packet_type (KnownPacket t _) = t"

type_synonym extension = "ext_packet list"

datatype extension_error = ExtensionNotFound | ExtensionError string

text \<open>\<open>script.Closure\<close>: the program tells \<open>*ConditionMultisigClosure\<close> from the other concrete types.\<close>

datatype 'pub closure =
    ConditionMultisigClosure "'pub list" bytes
  | OtherClosure string

text \<open>The calls of one \<open>txscript.ScriptBuilder\<close> chain.\<close>

datatype script_item = AddOp u8 | AddData bytes | AddInt64 int

record tx_opcodes =
  OP_1 :: u8
  OP_DATA_32 :: u8
  OP_SIZE :: u8
  OP_EQUALVERIFY :: u8
  OP_HASH160 :: u8
  OP_EQUAL :: u8

record arkade_opcodes =
  ARK_PUSHCURRENTINPUTINDEX :: u8
  ARK_DUP :: u8
  ARK_INSPECTOUTPUTSCRIPTPUBKEY :: u8
  ARK_1 :: u8
  ARK_EQUALVERIFY :: u8
  ARK_INSPECTOUTPUTVALUE :: u8
  ARK_INSPECTINPUTVALUE :: u8
  ARK_GREATERTHANOREQUAL :: u8

text \<open>\<open>offchain.VtxoInput\<close> with its \<open>waddrmgr.Tapscript\<close>.\<close>

record vtxo_input =
  InOutpoint :: outpoint
  InAmount :: i64
  InControlBlock :: bytes
  InRevealedScript :: bytes
  InRevealedTapscripts :: "string list"

text \<open>The status codes of gRPC.\<close>

datatype code =
    OK | Canceled | Unknown | InvalidArgument | DeadlineExceeded | NotFound | AlreadyExists
  | PermissionDenied | ResourceExhausted | FailedPrecondition | Aborted | OutOfRange | Unimplemented
  | Internal | Unavailable | DataLoss | Unauthenticated

section \<open>The functions the program calls\<close>

record ('priv, 'pub) ext =
  \<comment> \<open>btcec and schnorr\<close>
  pub_key :: "'priv \<Rightarrow> 'pub"
  serialize_compressed :: "'pub \<Rightarrow> bytes"
  serialize_schnorr :: "'pub \<Rightarrow> bytes"
  parse_pub_key :: "bytes \<Rightarrow> string + 'pub"
  scalar_mult_x :: "'priv \<Rightarrow> 'pub \<Rightarrow> bytes"
  \<comment> \<open>HKDF over SHA-256 (secret, salt, info, length) and AES-GCM (key, nonce, text, additional data)\<close>
  hkdf_sha256 :: "bytes \<Rightarrow> bytes \<Rightarrow> bytes \<Rightarrow> nat \<Rightarrow> bytes"
  gcm_seal :: "bytes \<Rightarrow> bytes \<Rightarrow> bytes \<Rightarrow> bytes \<Rightarrow> bytes"
  gcm_open :: "bytes \<Rightarrow> bytes \<Rightarrow> bytes \<Rightarrow> bytes \<Rightarrow> bytes option"
  \<comment> \<open>txscript, address and arkade\<close>
  txop :: tx_opcodes
  arkop :: arkade_opcodes
  build_script :: "script_item list \<Rightarrow> string + bytes"
  tokenize :: "bytes \<Rightarrow> (u8 \<times> bytes) list \<times> string option"
  hash160 :: "bytes \<Rightarrow> bytes"
  arkade_script_hash :: "bytes \<Rightarrow> bytes"
  arkade_script_pub_key :: "'pub \<Rightarrow> bytes \<Rightarrow> 'pub"
  \<comment> \<open>ark-lib: extensions, taptrees, closures\<close>
  get_packet_by_type :: "extension \<Rightarrow> u8 \<Rightarrow> ext_packet option"
  new_extension_from_tx :: "msgtx \<Rightarrow> extension_error + extension"
  decode_tap_tree :: "bytes \<Rightarrow> string + string list"
  vtxo_script_decode :: "string list \<Rightarrow> string + 'pub closure list"
  tap_tree :: "'pub closure list \<Rightarrow> string + ('pub \<times> bytes)"
  p2tr_script :: "'pub \<Rightarrow> string + bytes"
  closure_script :: "'pub closure \<Rightarrow> string + bytes"
  tap_leaf_hash :: "bytes \<Rightarrow> bytes"
  merkle_proof :: "bytes \<Rightarrow> bytes \<Rightarrow> string + bytes"
  parse_control_block :: "bytes \<Rightarrow> string + bytes"
  new_emulator_packet :: "nat \<Rightarrow> bytes \<Rightarrow> bytes list \<Rightarrow> string + ext_packet"
  new_extension_from_packets :: "ext_packet list \<Rightarrow> string + extension"
  extension_tx_out :: "extension \<Rightarrow> string + txout"
  build_txs :: "vtxo_input list \<Rightarrow> txout list \<Rightarrow> bytes \<Rightarrow> string + (psbt \<times> psbt list)"
  set_prev_ark_tx :: "psbt \<Rightarrow> nat \<Rightarrow> msgtx \<Rightarrow> string + psbt"
  set_condition_witness :: "psbt \<Rightarrow> nat \<Rightarrow> bytes list \<Rightarrow> string + psbt"
  \<comment> \<open>wire and psbt\<close>
  tx_hash :: "msgtx \<Rightarrow> bytes"
  b64_encode :: "psbt \<Rightarrow> string + string"
  psbt_from_raw :: "string \<Rightarrow> string + psbt"
  \<comment> \<open>ark-lib addresses: an address is kept as its opaque bytes\<close>
  decode_address_v0 :: "string \<Rightarrow> string + bytes"
  address_pk_script :: "bytes \<Rightarrow> string + bytes"

section \<open>What the program relies on\<close>

text \<open>
  Keys and the authenticated cipher: a compressed key has 33 bytes and parses back, Diffie-Hellman
  agrees on both sides, and what is sealed opens under the same key, nonce and additional data, 16
  bytes of tag longer than the text.
\<close>

definition ecies_laws :: "('priv, 'pub) ext \<Rightarrow> bool" where
  "ecies_laws L \<longleftrightarrow>
     (\<forall>p. length (serialize_compressed L p) = 33) \<and>
     (\<forall>p. parse_pub_key L (serialize_compressed L p) = Inr p) \<and>
     (\<forall>a b. scalar_mult_x L a (pub_key L b) = scalar_mult_x L b (pub_key L a)) \<and>
     (\<forall>k n pt aad. gcm_open L k n (gcm_seal L k n pt aad) aad = Some pt) \<and>
     (\<forall>k n pt aad. length (gcm_seal L k n pt aad) = length pt + 16)"

text \<open>
  Scripts: opcodes 1 to 78 are pushes (32 is \<open>OP_DATA_32\<close>), and a script built from single opcodes
  above 78 and 32-byte pushes tokenizes back into them. The empty script has no token. A builder
  never returns more than 10000 bytes.
\<close>

fun plain_item :: "script_item \<Rightarrow> bool" where
  "plain_item (AddOp op) \<longleftrightarrow> 78 < op"
| "plain_item (AddData d) \<longleftrightarrow> length d = 32"
| "plain_item (AddInt64 _) \<longleftrightarrow> False"

fun item_token :: "script_item \<Rightarrow> u8 \<times> bytes" where
  "item_token (AddOp op) = (op, [])"
| "item_token (AddData d) = (32, d)"
| "item_token (AddInt64 _) = (0, [])"

definition arkade_ops :: "arkade_opcodes \<Rightarrow> u8 list" where
  "arkade_ops r =
     [ARK_PUSHCURRENTINPUTINDEX r, ARK_DUP r, ARK_INSPECTOUTPUTSCRIPTPUBKEY r, ARK_1 r,
      ARK_EQUALVERIFY r, ARK_INSPECTOUTPUTVALUE r, ARK_INSPECTINPUTVALUE r,
      ARK_GREATERTHANOREQUAL r]"

definition script_laws :: "('priv, 'pub) ext \<Rightarrow> bool" where
  "script_laws L \<longleftrightarrow>
     OP_DATA_32 (txop L) = 32 \<and> list_all (\<lambda>op. 78 < op) (arkade_ops (arkop L)) \<and>
     tokenize L [] = ([], None) \<and>
     (\<forall>items s. build_script L items = Inr s \<longrightarrow> length s \<le> 10000) \<and>
     (\<forall>items s. list_all plain_item items \<longrightarrow> build_script L items = Inr s \<longrightarrow>
        tokenize L s = (map item_token items, None))"

text \<open>An extension hands out its first packet of the type asked for.\<close>

definition extension_laws :: "('priv, 'pub) ext \<Rightarrow> bool" where
  "extension_laws L \<longleftrightarrow>
     (\<forall>ext t. get_packet_by_type L ext t = find (\<lambda>p. packet_type p = t) ext)"

lemma ecies_lawsD:
  assumes "ecies_laws L"
  shows "length (serialize_compressed L p) = 33"
    and "parse_pub_key L (serialize_compressed L p) = Inr p"
    and "scalar_mult_x L a (pub_key L b) = scalar_mult_x L b (pub_key L a)"
    and "gcm_open L k n (gcm_seal L k n pt aad) aad = Some pt"
    and "length (gcm_seal L k n pt aad) = length pt + 16"
  using assms unfolding ecies_laws_def by blast+

lemma script_lawsD:
  assumes "script_laws L"
  shows "OP_DATA_32 (txop L) = 32"
    and "list_all (\<lambda>op. 78 < op) (arkade_ops (arkop L))"
    and "tokenize L [] = ([], None)"
    and "list_all plain_item items \<Longrightarrow> build_script L items = Inr s \<Longrightarrow>
      tokenize L s = (map item_token items, None)"
    and "build_script L items' = Inr s \<Longrightarrow> length s \<le> 10000"
  using assms unfolding script_laws_def by blast+

end
