(* ===== verification/Instance.thy ===== *)
theory Instance
  imports Externals
begin

text \<open>
  One concrete value of the parameter record \<open>ext\<close>, used by the witnesses: a toy group (bytes under
  multiplication), a one-byte checksum for the authentication tag, scripts in Bitcoin's push
  encoding, a taptree whose leaves are closures written as strings, and an extension in the output
  whose script starts with \<open>OP_RETURN\<close>. It satisfies the laws of \<open>Externals\<close>, which shows that they
  can hold together. No theorem about the program depends on it.
\<close>

section \<open>The functions\<close>

definition toy_serialize :: "u8 \<Rightarrow> bytes" where
  "toy_serialize p = p # replicate 32 0"

definition toy_parse :: "bytes \<Rightarrow> string + u8" where
  "toy_parse bs =
     (case bs of [] \<Rightarrow> Inl ''empty key''
      | b # _ \<Rightarrow> if bs = toy_serialize b then Inr b else Inl ''not a point'')"

definition toy_tag :: "bytes \<Rightarrow> bytes \<Rightarrow> bytes \<Rightarrow> bytes \<Rightarrow> bytes" where
  "toy_tag k n pt aad = (sum_list k + sum_list n + sum_list pt + sum_list aad) # replicate 15 0"

definition toy_seal :: "bytes \<Rightarrow> bytes \<Rightarrow> bytes \<Rightarrow> bytes \<Rightarrow> bytes" where
  "toy_seal k n pt aad = pt @ toy_tag k n pt aad"

definition toy_open :: "bytes \<Rightarrow> bytes \<Rightarrow> bytes \<Rightarrow> bytes \<Rightarrow> bytes option" where
  "toy_open k n ct aad =
     (let pt = take (length ct - 16) ct in
      if 16 \<le> length ct \<and> ct = toy_seal k n pt aad then Some pt else None)"

fun toy_item :: "script_item \<Rightarrow> bytes" where
  "toy_item (AddOp op) = [op]"
| "toy_item (AddData d) = word_of_nat (length d) # d"
| "toy_item (AddInt64 n) = [1, word_of_int n]"

definition toy_build :: "script_item list \<Rightarrow> string + bytes" where
  "toy_build items =
     (let s = concat (map toy_item items) in
      if length s > 10000 then Inl ''script too long'' else Inr s)"

function toy_tokenize :: "bytes \<Rightarrow> (u8 \<times> bytes) list \<times> string option" where
  "toy_tokenize [] = ([], None)"
| "toy_tokenize (op # bs) =
     (let n = (if op \<le> 75 then unat op else 0) in
      if n > length bs then ([], Some ''truncated push'')
      else let (tokens, err) = toy_tokenize (drop n bs) in ((op, take n bs) # tokens, err))"
  by pat_completeness auto
termination
  by (relation "measure length") auto

text \<open>A tree of one leaf is the leaf; a tree of two leaves of the same length has a zero before them.\<close>

definition toy_leaves :: "bytes \<Rightarrow> string list" where
  "toy_leaves bs =
     (case bs of
        [] \<Rightarrow> []
      | b # rest \<Rightarrow>
          let n = length rest div 2 in
          if b = 0 then [bytes_string (take n rest), bytes_string (drop n rest)] else [bytes_string bs])"

fun toy_closures :: "string list \<Rightarrow> string + u8 closure list" where
  "toy_closures [] = Inr []"
| "toy_closures (leaf # leaves) =
     (case leaf of
        a # b # condition \<Rightarrow>
          res_bind (toy_closures leaves) (\<lambda>cs.
          Inr (ConditionMultisigClosure [of_char a, of_char b] (string_bytes condition) # cs))
      | _ \<Rightarrow> Inl ''unknown leaf'')"

fun toy_closure_key :: "u8 closure \<Rightarrow> u8" where
  "toy_closure_key (ConditionMultisigClosure ks c) = sum_list ks + sum_list c"
| "toy_closure_key (OtherClosure _) = 0"

fun toy_closure_script :: "u8 closure \<Rightarrow> string + bytes" where
  "toy_closure_script (ConditionMultisigClosure ks c) = Inr (c @ ks)"
| "toy_closure_script (OtherClosure _) = Inl ''no script''"

definition toy_extension :: "msgtx \<Rightarrow> extension_error + extension" where
  "toy_extension tx =
     (case find (\<lambda>out. take 1 (TxPkScript out) = [0x6a]) (TxOuts tx) of
        None \<Rightarrow> Inl ExtensionNotFound
      | Some out \<Rightarrow> Inr [UnknownPacket 4 (drop 1 (TxPkScript out))])"

definition toy_psbt :: "txout list \<Rightarrow> psbt" where
  "toy_psbt outs =
     \<lparr>UnsignedTx = Some \<lparr>TxOuts = outs, MsgRest = []\<rparr>, POutputs = [], PsbtRest = []\<rparr>"

definition toy_tx :: tx_opcodes where
  "toy_tx = \<lparr>OP_1 = 0x51, OP_DATA_32 = 0x20, OP_SIZE = 0x82, OP_EQUALVERIFY = 0x88,
             OP_HASH160 = 0xa9, OP_EQUAL = 0x87\<rparr>"

text \<open>The opcode bytes of the repository's own fixture (\<open>testdata/serialization_fixtures.json\<close>).\<close>

definition toy_ark :: arkade_opcodes where
  "toy_ark =
     \<lparr>ARK_PUSHCURRENTINPUTINDEX = 0xcd, ARK_DUP = 0x76, ARK_INSPECTOUTPUTSCRIPTPUBKEY = 0xd1,
      ARK_1 = 0x51, ARK_EQUALVERIFY = 0x88, ARK_INSPECTOUTPUTVALUE = 0xcf,
      ARK_INSPECTINPUTVALUE = 0xc9, ARK_GREATERTHANOREQUAL = 0xa2\<rparr>"

definition toy :: "(u8, u8) ext" where
  "toy =
     \<lparr>pub_key = (\<lambda>k. k),
      serialize_compressed = toy_serialize,
      serialize_schnorr = (\<lambda>p. p # replicate 31 0),
      parse_pub_key = toy_parse,
      scalar_mult_x = (\<lambda>k p. (k * p) # replicate 31 0),
      hkdf_sha256 = (\<lambda>secret salt info n. secret),
      gcm_seal = toy_seal,
      gcm_open = toy_open,
      txop = toy_tx,
      arkop = toy_ark,
      build_script = toy_build,
      tokenize = toy_tokenize,
      hash160 = make_copy 20,
      arkade_script_hash = make_copy 32,
      arkade_script_pub_key = (\<lambda>p h. p + sum_list h),
      get_packet_by_type = (\<lambda>ext t. find (\<lambda>p. packet_type p = t) ext),
      new_extension_from_tx = toy_extension,
      decode_tap_tree = (\<lambda>bs. Inr (toy_leaves bs)),
      vtxo_script_decode = toy_closures,
      tap_tree = (\<lambda>cs. Inr (sum_list (map toy_closure_key cs), [])),
      p2tr_script = (\<lambda>p. Inr ([0x51, 0x20, p] @ replicate 31 0)),
      closure_script = toy_closure_script,
      tap_leaf_hash = (\<lambda>s. s),
      merkle_proof = (\<lambda>tree leaf. Inr leaf),
      parse_control_block = Inr,
      new_emulator_packet = (\<lambda>vin s w. Inr (UnknownPacket 1 s)),
      new_extension_from_packets = Inr,
      extension_tx_out = (\<lambda>ext. Inr \<lparr>TxValue = 0, TxPkScript = [0x6a]\<rparr>),
      build_txs = (\<lambda>ins outs cp. Inr (toy_psbt outs, [toy_psbt []])),
      set_prev_ark_tx = (\<lambda>p i tx. Inr p),
      set_condition_witness = (\<lambda>p i w. Inr (p\<lparr>PsbtRest := PsbtRest p @ concat w\<rparr>)),
      tx_hash = MsgRest,
      b64_encode = (\<lambda>p. Inr (bytes_string (PsbtRest p))),
      psbt_from_raw = (\<lambda>s. if s = [] then Inl ''not base64''
        else Inr (toy_psbt [\<lparr>TxValue = 50000, TxPkScript = string_bytes s\<rparr>])),
      decode_address_v0 = (\<lambda>s. Inr (string_bytes s)),
      address_pk_script = Inr\<rparr>"

section \<open>It satisfies the laws\<close>

lemma length_toy_serialize [simp]: "length (toy_serialize p) = 33"
  by (simp add: toy_serialize_def)

lemma toy_open_seal: "toy_open k n (toy_seal k n pt aad) aad = Some pt"
  by (simp add: toy_open_def toy_seal_def toy_tag_def)

lemma toy_ecies_laws: "ecies_laws toy"
  by (simp add: ecies_laws_def toy_def toy_serialize_def toy_parse_def toy_open_seal mult.commute)
    (simp add: toy_seal_def toy_tag_def)

lemma toy_closures_leaf:
  "toy_closures (bytes_string (a # b # condition) # leaves) =
     res_bind (toy_closures leaves) (\<lambda>cs. Inr (ConditionMultisigClosure [a, b] condition # cs))"
  using string_bytes_string [of condition]
  by (simp add: bytes_string_def del: string_bytes_string)

lemma toy_leaves_one: "b \<noteq> 0 \<Longrightarrow> toy_leaves (b # bs) = [bytes_string (b # bs)]"
  by (simp add: toy_leaves_def Let_def)

lemma toy_leaves_two:
  "length xs = length ys \<Longrightarrow> toy_leaves (0 # xs @ ys) = [bytes_string xs, bytes_string ys]"
  by (simp add: toy_leaves_def Let_def)

lemma toy_tokenize_item:
  assumes "plain_item it"
  shows "toy_tokenize (toy_item it @ bs) =
    (let (tokens, err) = toy_tokenize bs in (item_token it # tokens, err))"
proof (cases it)
  case (AddOp op)
  with assms have "\<not> op \<le> 75"
    by (auto simp: not_le intro: order_less_trans [of 75 78])
  with AddOp show ?thesis by simp
qed (use assms in auto)

lemma toy_tokenize_items:
  "list_all plain_item items \<Longrightarrow>
     toy_tokenize (concat (map toy_item items)) = (map item_token items, None)"
  by (induction items) (simp_all add: toy_tokenize_item del: toy_tokenize.simps(2))

lemma toy_script_laws: "script_laws toy"
  by (auto simp: script_laws_def toy_def toy_tx_def toy_ark_def arkade_ops_def toy_build_def Let_def
      toy_tokenize_items split: if_splits)

lemma toy_extension_laws: "extension_laws toy"
  by (simp add: extension_laws_def toy_def)

lemmas toy_laws = toy_ecies_laws toy_script_laws toy_extension_laws

end
