(* ===== verification/Ecies.thy ===== *)
theory Ecies
  imports Instance
begin

text \<open>
  \<open>pkg/preimage/crypto.go\<close>: ECIES over secp256k1. The sealed blob is the ephemeral public key (33
  bytes), the nonce (12 bytes) and the AES-GCM output; the key is derived by HKDF from the shared
  x coordinate, salted with the ephemeral key, and the additional data is the ephemeral key followed by
  the caller's extra data. The two random draws of \<open>EncryptWithAAD\<close> are arguments.
\<close>

section \<open>Model\<close>

definition eciesPubLen :: nat where "eciesPubLen = 33"
definition eciesNonceLen :: nat where "eciesNonceLen = 12"
definition eciesTagLen :: nat where "eciesTagLen = 16"
definition eciesHeader :: nat where "eciesHeader = eciesPubLen + eciesNonceLen"
definition eciesOverhead :: nat where "eciesOverhead = eciesHeader + eciesTagLen"
definition eciesHkdfInfo :: string where "eciesHkdfInfo = ''covclaimd/preimage/v1''"

lemmas ecies_lens =
  eciesPubLen_def eciesNonceLen_def eciesTagLen_def eciesHeader_def eciesOverhead_def

datatype ecies_error =
    NilRecipient
  | EphemeralKeyError string
  | KeySizeError nat
  | NonceError string
  | NilPriv
  | BlobTooShort nat nat
  | ParseEphemeralError string
  | AeadOpenError

definition ecdhX :: "('priv, 'pub) ext \<Rightarrow> 'priv \<Rightarrow> 'pub \<Rightarrow> bytes" where
  "ecdhX L priv peer = make_copy 32 (scalar_mult_x L priv peer)"

definition deriveSymKey :: "('priv, 'pub) ext \<Rightarrow> 'priv \<Rightarrow> 'pub \<Rightarrow> bytes \<Rightarrow> bytes" where
  "deriveSymKey L priv peer salt =
     (let shared = ecdhX L priv peer
      in make_copy 32 (hkdf_sha256 L shared salt (string_bytes eciesHkdfInfo) 32))"

text \<open>\<open>aes.NewCipher\<close> accepts the three AES key sizes; the AEAD is represented by its key.\<close>

definition newAEAD :: "bytes \<Rightarrow> ecies_error + bytes" where
  "newAEAD key = (if length key \<in> {16, 24, 32} then Inr key else Inl (KeySizeError (length key)))"

definition EncryptWithAAD ::
  "('priv, 'pub) ext \<Rightarrow> string + 'priv \<Rightarrow> string + bytes \<Rightarrow> 'pub option \<Rightarrow> bytes \<Rightarrow> bytes \<Rightarrow>
   ecies_error + bytes" where
  "EncryptWithAAD L newPrivateKey randNonce recipient plaintext extraAAD =
     (case recipient of None \<Rightarrow> Inl NilRecipient | Some peer \<Rightarrow>
      res_bind (map_err EphemeralKeyError newPrivateKey) (\<lambda>ephPriv.
      let ephPub = serialize_compressed L (pub_key L ephPriv);
          symKey = deriveSymKey L ephPriv peer ephPub
      in res_bind (newAEAD symKey) (\<lambda>aead.
         res_bind (map_err NonceError randNonce) (\<lambda>drawn.
         let nonce = make_copy eciesNonceLen drawn;
             ct = gcm_seal L aead nonce plaintext (ephPub @ extraAAD)
         in Inr (ephPub @ nonce @ ct)))))"

definition Encrypt ::
  "('priv, 'pub) ext \<Rightarrow> string + 'priv \<Rightarrow> string + bytes \<Rightarrow> 'pub option \<Rightarrow> bytes \<Rightarrow>
   ecies_error + bytes" where
  "Encrypt L newPrivateKey randNonce recipient plaintext =
     EncryptWithAAD L newPrivateKey randNonce recipient plaintext []"

definition DecryptWithAAD ::
  "('priv, 'pub) ext \<Rightarrow> 'priv option \<Rightarrow> bytes \<Rightarrow> bytes \<Rightarrow> ecies_error + bytes" where
  "DecryptWithAAD L priv blob extraAAD =
     (case priv of None \<Rightarrow> Inl NilPriv | Some sk \<Rightarrow>
      if length blob < eciesOverhead then Inl (BlobTooShort (length blob) eciesOverhead)
      else
        let ephPubBytes = take eciesPubLen blob;
            nonce = take eciesNonceLen (drop eciesPubLen blob);
            ct = drop (eciesPubLen + eciesNonceLen) blob
        in res_bind (map_err ParseEphemeralError (parse_pub_key L ephPubBytes)) (\<lambda>ephPub.
           let symKey = deriveSymKey L sk ephPub ephPubBytes
           in res_bind (newAEAD symKey) (\<lambda>aead.
              case gcm_open L aead nonce ct (ephPubBytes @ extraAAD) of
                None \<Rightarrow> Inl AeadOpenError
              | Some pt \<Rightarrow> Inr pt)))"

definition Decrypt :: "('priv, 'pub) ext \<Rightarrow> 'priv option \<Rightarrow> bytes \<Rightarrow> ecies_error + bytes" where
  "Decrypt L priv blob = DecryptWithAAD L priv blob []"

section \<open>Lemmas\<close>

lemma length_deriveSymKey [simp]: "length (deriveSymKey L priv peer salt) = 32"
  by (simp add: deriveSymKey_def Let_def)

lemma newAEAD_derived [simp]: "newAEAD (deriveSymKey L priv peer salt) = Inr (deriveSymKey L priv peer salt)"
  by (simp add: newAEAD_def)

lemma deriveSymKey_agree:
  assumes "ecies_laws L"
  shows "deriveSymKey L a (pub_key L b) salt = deriveSymKey L b (pub_key L a) salt"
  using ecies_lawsD(3) [OF assms, of a b] by (simp add: deriveSymKey_def ecdhX_def)

text \<open>A blob opens exactly when it is long enough, its key parses and the AEAD accepts.\<close>

lemma DecryptWithAAD_Inr:
  "DecryptWithAAD L priv blob aad = Inr pt \<longleftrightarrow>
     (\<exists>sk ephPub. priv = Some sk \<and> 61 \<le> length blob \<and>
        parse_pub_key L (take 33 blob) = Inr ephPub \<and>
        gcm_open L (deriveSymKey L sk ephPub (take 33 blob)) (take 12 (drop 33 blob)) (drop 45 blob)
          (take 33 blob @ aad) = Some pt)"
  by (auto simp: DecryptWithAAD_def Let_def ecies_lens res_simps not_less
      split: option.splits)

lemma EncryptWithAAD_ok:
  "EncryptWithAAD L (Inr eph) (Inr drawn) (Some peer) pt aad =
     Inr (serialize_compressed L (pub_key L eph) @ make_copy 12 drawn @
       gcm_seal L (deriveSymKey L eph peer (serialize_compressed L (pub_key L eph)))
         (make_copy 12 drawn) pt (serialize_compressed L (pub_key L eph) @ aad))"
  by (simp add: EncryptWithAAD_def Let_def ecies_lens)

lemma EncryptWithAAD_succeeds:
  obtains blob where "EncryptWithAAD L (Inr eph) (Inr drawn) (Some peer) pt aad = Inr blob"
  by (simp add: EncryptWithAAD_ok)

lemma EncryptWithAAD_opens:
  assumes laws: "ecies_laws L"
    and enc: "EncryptWithAAD L newPrivateKey randNonce (Some (pub_key L sk)) pt aad = Inr blob"
  shows "DecryptWithAAD L (Some sk) blob aad = Inr pt" and "length blob = length pt + 61"
proof -
  from enc obtain eph drawn where "newPrivateKey = Inr eph" and "randNonce = Inr drawn"
    by (auto simp: EncryptWithAAD_def Let_def res_simps)
  with enc have blob: "blob = serialize_compressed L (pub_key L eph) @ make_copy 12 drawn @
       gcm_seal L (deriveSymKey L eph (pub_key L sk) (serialize_compressed L (pub_key L eph)))
         (make_copy 12 drawn) pt (serialize_compressed L (pub_key L eph) @ aad)"
    by (simp add: EncryptWithAAD_ok)
  note L = ecies_lawsD [OF laws]
  from blob show "length blob = length pt + 61"
    by (simp add: L)
  show "DecryptWithAAD L (Some sk) blob aad = Inr pt"
    unfolding DecryptWithAAD_Inr blob
    by (simp add: L deriveSymKey_agree [OF laws, of eph sk])
qed

section \<open>Properties\<close>

text \<open>
  C27: whatever the two random draws, encrypting to the public key of \<open>sk\<close> succeeds, the blob is 61
  bytes longer than the text, and it opens under \<open>sk\<close> and the same extra data to the same text.
\<close>

theorem ecies_roundtrip:
  assumes "ecies_laws L"
  shows "\<exists>blob. EncryptWithAAD L (Inr eph) (Inr drawn) (Some (pub_key L sk)) pt aad = Inr blob \<and>
    length blob = length pt + 61 \<and> DecryptWithAAD L (Some sk) blob aad = Inr pt"
proof -
  obtain blob where "EncryptWithAAD L (Inr eph) (Inr drawn) (Some (pub_key L sk)) pt aad = Inr blob"
    by (rule EncryptWithAAD_succeeds)
  with EncryptWithAAD_opens [OF assms this] show ?thesis
    by blast
qed

theorem ecies_roundtrip_witness:
  "\<exists>blob. EncryptWithAAD toy (Inr 3) (Inr [1, 2]) (Some (pub_key toy 5)) [7, 8] [9] = Inr blob \<and>
    length blob = length [7 :: u8, 8] + 61 \<and> DecryptWithAAD toy (Some 5) blob [9] = Inr [7, 8]"
  by (rule ecies_roundtrip [OF toy_ecies_laws])

end
