(* ===== verification/Contract.thy ===== *)
theory Contract
  imports Instance
begin

text \<open>
  \<open>pkg/preimage/contract.go\<close>: the covenant script \<open>EnforcePayTo\<close>, its validation, the hash-lock
  condition, the claim closure a maker puts in the taptree and the emulator's key tweak. A nil
  public key is \<open>None\<close>.
\<close>

section \<open>Model\<close>

definition preimageSize :: nat where "preimageSize = 32"

datatype p2tr_error = P2TRBadLength nat | NotP2TR u8 u8

datatype contract_error =
    InvalidReceiver p2tr_error
  | NilServerPubKey
  | NilEmulatorPubKey
  | BadHashLength nat
  | EmptyArkadeScript
  | TokenizeError string
  | NoWitnessPush
  | ManyWitnessPushes nat
  | UnsupportedShape
  | ScriptBuilderError string

definition p2trWitnessProgram :: "('priv, 'pub) ext \<Rightarrow> bytes \<Rightarrow> p2tr_error + bytes" where
  "p2trWitnessProgram L pkScript =
     (if length pkScript \<noteq> 34 then Inl (P2TRBadLength (length pkScript))
      else if pkScript ! 0 \<noteq> OP_1 (txop L) \<or> pkScript ! 1 \<noteq> OP_DATA_32 (txop L)
      then Inl (NotP2TR (pkScript ! 0) (pkScript ! 1))
      else Inr (drop 2 pkScript))"

definition enforce_items :: "('priv, 'pub) ext \<Rightarrow> bytes \<Rightarrow> script_item list" where
  "enforce_items L witnessProgram =
     [AddOp (ARK_PUSHCURRENTINPUTINDEX (arkop L)),
      AddOp (ARK_DUP (arkop L)),
      AddOp (ARK_INSPECTOUTPUTSCRIPTPUBKEY (arkop L)),
      AddOp (ARK_1 (arkop L)),
      AddOp (ARK_EQUALVERIFY (arkop L)),
      AddData witnessProgram,
      AddOp (ARK_EQUALVERIFY (arkop L)),
      AddOp (ARK_INSPECTOUTPUTVALUE (arkop L)),
      AddOp (ARK_PUSHCURRENTINPUTINDEX (arkop L)),
      AddOp (ARK_INSPECTINPUTVALUE (arkop L)),
      AddOp (ARK_GREATERTHANOREQUAL (arkop L))]"

definition EnforcePayTo :: "('priv, 'pub) ext \<Rightarrow> bytes \<Rightarrow> contract_error + bytes" where
  "EnforcePayTo L receiverPkScript =
     res_bind (map_err InvalidReceiver (p2trWitnessProgram L receiverPkScript)) (\<lambda>witnessProgram.
     map_err ScriptBuilderError (build_script L (enforce_items L witnessProgram)))"

definition preimageCondition :: "('priv, 'pub) ext \<Rightarrow> bytes \<Rightarrow> contract_error + bytes" where
  "preimageCondition L preimageHash =
     (if length preimageHash \<noteq> 20 then Inl (BadHashLength (length preimageHash))
      else map_err ScriptBuilderError (build_script L
        [AddOp (OP_SIZE (txop L)),
         AddInt64 (int preimageSize),
         AddOp (OP_EQUALVERIFY (txop L)),
         AddOp (OP_HASH160 (txop L)),
         AddData preimageHash,
         AddOp (OP_EQUAL (txop L))]))"

definition emulatorTweakedKey :: "('priv, 'pub) ext \<Rightarrow> bytes \<Rightarrow> 'pub \<Rightarrow> 'pub" where
  "emulatorTweakedKey L arkadeScript emulatorPubKey =
     arkade_script_pub_key L emulatorPubKey (arkade_script_hash L arkadeScript)"

definition CovenantClaimClosure ::
  "('priv, 'pub) ext \<Rightarrow> bytes \<Rightarrow> bytes \<Rightarrow> 'pub option \<Rightarrow> 'pub option \<Rightarrow>
   contract_error + 'pub closure" where
  "CovenantClaimClosure L preimageHash receiverPkScript serverPubKey emulatorPubKey =
     (case serverPubKey of None \<Rightarrow> Inl NilServerPubKey | Some server \<Rightarrow>
     (case emulatorPubKey of None \<Rightarrow> Inl NilEmulatorPubKey | Some emulator \<Rightarrow>
      res_bind (EnforcePayTo L receiverPkScript) (\<lambda>enforcement.
      res_bind (preimageCondition L preimageHash) (\<lambda>condition.
      Inr (ConditionMultisigClosure [server, emulatorTweakedKey L enforcement emulator]
             condition)))))"

text \<open>The tokenizer loop keeps the data of every \<open>OP_DATA_32\<close> it meets, then looks at the error.\<close>

definition parseReceiverFromArkadeScript :: "('priv, 'pub) ext \<Rightarrow> bytes \<Rightarrow> contract_error + bytes" where
  "parseReceiverFromArkadeScript L arkadeScript =
     (if arkadeScript = [] then Inl EmptyArkadeScript
      else
        let (tokens, err) = tokenize L arkadeScript;
            witnessPrograms = [d. (op, d) \<leftarrow> tokens, op = OP_DATA_32 (txop L)]
        in case err of
             Some e \<Rightarrow> Inl (TokenizeError e)
           | None \<Rightarrow>
               if length witnessPrograms = 0 then Inl NoWitnessPush
               else if length witnessPrograms > 1
               then Inl (ManyWitnessPushes (length witnessPrograms))
               else Inr ([OP_1 (txop L), OP_DATA_32 (txop L)] @ witnessPrograms ! 0))"

definition ValidateArkadeScript :: "('priv, 'pub) ext \<Rightarrow> bytes \<Rightarrow> contract_error + bytes" where
  "ValidateArkadeScript L arkadeScript =
     res_bind (parseReceiverFromArkadeScript L arkadeScript) (\<lambda>receiver.
     res_bind (EnforcePayTo L receiver) (\<lambda>expected.
     if arkadeScript \<noteq> expected then Inl UnsupportedShape else Inr receiver))"

section \<open>Lemmas\<close>

lemma p2trWitnessProgram_Inr:
  "p2trWitnessProgram L pk = Inr w \<longleftrightarrow>
     length w = 32 \<and> pk = OP_1 (txop L) # OP_DATA_32 (txop L) # w"
  by (cases pk; cases "tl pk") (auto simp: p2trWitnessProgram_def)

lemma EnforcePayTo_Inr:
  "EnforcePayTo L r = Inr s \<longleftrightarrow>
     (\<exists>w. length w = 32 \<and> r = OP_1 (txop L) # OP_DATA_32 (txop L) # w \<and>
          build_script L (enforce_items L w) = Inr s)"
  by (auto simp: EnforcePayTo_def res_simps p2trWitnessProgram_Inr)

text \<open>Whatever validates is the covenant script of the receiver it names.\<close>

lemma ValidateArkadeScript_enforces:
  "ValidateArkadeScript L s = Inr r \<Longrightarrow> EnforcePayTo L r = Inr s"
  by (auto simp: ValidateArkadeScript_def res_simps split: if_splits)

lemma ValidateArkadeScript_receiver:
  "ValidateArkadeScript L s = Inr r \<Longrightarrow> length r = 34"
  by (auto dest!: ValidateArkadeScript_enforces simp: EnforcePayTo_Inr)

text \<open>Conversely a covenant script parses back to its receiver: its only 32-byte push is the key.\<close>

lemma enforce_items_plain:
  "script_laws L \<Longrightarrow> length w = 32 \<Longrightarrow> list_all plain_item (enforce_items L w)"
  by (drule script_lawsD(2)) (simp add: enforce_items_def arkade_ops_def)

lemma enforce_items_pushes:
  assumes laws: "script_laws L"
  shows "[d. (op, d) \<leftarrow> map item_token (enforce_items L w), op = OP_DATA_32 (txop L)] = [w]"
proof -
  have "op \<noteq> 32" if "78 < op" for op :: u8
    using that by auto
  with script_lawsD(1,2) [OF laws] show ?thesis
    by (simp add: enforce_items_def arkade_ops_def)
qed

lemma parseReceiver_EnforcePayTo:
  assumes laws: "script_laws L" and e: "EnforcePayTo L r = Inr s"
  shows "parseReceiverFromArkadeScript L s = Inr r"
proof -
  from e obtain w where w: "length w = 32" "r = OP_1 (txop L) # OP_DATA_32 (txop L) # w"
    and b: "build_script L (enforce_items L w) = Inr s"
    by (auto simp: EnforcePayTo_Inr)
  have tok: "tokenize L s = (map item_token (enforce_items L w), None)"
    by (rule script_lawsD(4) [OF laws enforce_items_plain [OF laws w(1)] b])
  have "s \<noteq> []"
    using tok script_lawsD(3) [OF laws] by (auto simp: enforce_items_def)
  then show ?thesis
    by (simp add: parseReceiverFromArkadeScript_def tok enforce_items_pushes [OF laws, unfolded] w(2)
        del: map_map list.map)
qed

lemma ValidateArkadeScript_complete:
  "script_laws L \<Longrightarrow> EnforcePayTo L r = Inr s \<Longrightarrow> ValidateArkadeScript L s = Inr r"
  by (simp add: ValidateArkadeScript_def parseReceiver_EnforcePayTo)

section \<open>Sample data for the witnesses\<close>

definition sample_receiver :: bytes where
  "sample_receiver = [0x51, 0x20] @ replicate 32 9"

text \<open>The covenant script for it, byte for byte as in the repository's fixture but for the key.\<close>

definition sample_script :: bytes where
  "sample_script = [0xcd, 0x76, 0xd1, 0x51, 0x88, 0x20] @ replicate 32 9 @
     [0x88, 0xcf, 0xcd, 0xc9, 0xa2]"

lemma EnforcePayTo_sample: "EnforcePayTo toy sample_receiver = Inr sample_script"
  by (simp add: EnforcePayTo_Inr sample_receiver_def sample_script_def toy_def toy_tx_def toy_ark_def
      enforce_items_def toy_build_def)

lemma ValidateArkadeScript_sample: "ValidateArkadeScript toy sample_script = Inr sample_receiver"
  by (rule ValidateArkadeScript_complete [OF toy_script_laws EnforcePayTo_sample])

section \<open>Properties\<close>

text \<open>
  C24: an arkade script is accepted, with receiver \<open>r\<close>, exactly when it is the script \<open>EnforcePayTo\<close> builds
  for \<open>r\<close>: nothing else validates, and no covenant script is refused.
\<close>

theorem validate_iff_enforce:
  assumes "script_laws L"
  shows "ValidateArkadeScript L s = Inr r \<longleftrightarrow> EnforcePayTo L r = Inr s"
  using ValidateArkadeScript_enforces ValidateArkadeScript_complete [OF assms] by blast

theorem validate_iff_enforce_witness:
  "ValidateArkadeScript toy sample_script = Inr sample_receiver"
  using validate_iff_enforce [OF toy_script_laws] EnforcePayTo_sample by blast

end
