(* ===== verification/Packet.thy ===== *)
theory Packet
  imports Ecies Contract Instance "HOL-Library.Multiset"
begin

text \<open>
  \<open>pkg/preimage/packet.go\<close>: the claim packet, its TLV codec, the addressing predicates and the
  decryption of the preimage. A nil slice is the empty list (the code only asks for lengths), a nil
  \<open>*uint64\<close> is \<open>None\<close>. The decoder is the source's loop over an offset; the reference it is compared with
  reads the body as a list of type-value pairs.
\<close>

section \<open>Model\<close>

definition PacketType :: u8 where "PacketType = 4"
definition tlvCiphertext :: u8 where "tlvCiphertext = 1"
definition tlvArkadeScript :: u8 where "tlvArkadeScript = 2"
definition tlvCovclaimdPubKey :: u8 where "tlvCovclaimdPubKey = 3"
definition tlvMinAmount :: u8 where "tlvMinAmount = 4"
definition compressedPubKeyLen :: nat where "compressedPubKeyLen = 33"
definition minAmountLen :: nat where "minAmountLen = 8"

lemmas packet_consts =
  tlvCiphertext_def tlvArkadeScript_def tlvCovclaimdPubKey_def tlvMinAmount_def
  compressedPubKeyLen_def minAmountLen_def

record claim_packet =
  Ciphertext :: bytes
  ArkadeScript :: bytes
  CovclaimdPubKey :: bytes
  MinAmount :: "u64 option"

definition empty_packet :: claim_packet where
  "empty_packet = \<lparr>Ciphertext = [], ArkadeScript = [], CovclaimdPubKey = [], MinAmount = None\<rparr>"

datatype packet_error =
    CiphertextEmpty
  | ArkadeScriptEmpty
  | PubKeyLength nat
  | TruncatedHeader
  | TruncatedValue u8 nat nat
  | PubKeyTLVLength nat
  | MinAmountTLVLength nat
  | MissingCiphertext
  | MissingArkadeScript
  | UnexpectedPacketType string

text \<open>\<open>value < 0 || uint64(value) < *p.MinAmount\<close> on the 64 bits of the output's value.\<close>

definition Underfunds :: "claim_packet \<Rightarrow> i64 \<Rightarrow> bool" where
  "Underfunds p value =
     (case MinAmount p of None \<Rightarrow> False | Some m \<Rightarrow> sint value < 0 \<or> value < m)"

definition minAmountBytes :: "claim_packet \<Rightarrow> bytes" where
  "minAmountBytes p = (case MinAmount p of None \<Rightarrow> [] | Some m \<Rightarrow> append_uint64 m)"

definition AddressedTo :: "claim_packet \<Rightarrow> bytes \<Rightarrow> bool" where
  "AddressedTo p pub \<longleftrightarrow> length pub = compressedPubKeyLen \<and> CovclaimdPubKey p = pub"

definition SealedToAnother :: "claim_packet \<Rightarrow> bytes \<Rightarrow> bool" where
  "SealedToAnother p pub \<longleftrightarrow> length (CovclaimdPubKey p) > 0 \<and> \<not> AddressedTo p pub"

datatype decrypt_error =
    InvalidArkadeScript contract_error
  | DecryptPreimage ecies_error
  | WrongPreimageLength nat

definition packet_Decrypt ::
  "('priv, 'pub) ext \<Rightarrow> 'priv option \<Rightarrow> claim_packet \<Rightarrow> decrypt_error + bytes" where
  "packet_Decrypt L secretKey p =
     res_bind (map_err InvalidArkadeScript (ValidateArkadeScript L (ArkadeScript p))) (\<lambda>_.
     res_bind (map_err DecryptPreimage
       (DecryptWithAAD L secretKey (Ciphertext p) (minAmountBytes p))) (\<lambda>preimg.
     if length preimg \<noteq> preimageSize then Inl (WrongPreimageLength (length preimg))
     else Inr preimg))"

text \<open>\<open>uint16(len(value))\<close> keeps the low 16 bits of the length.\<close>

definition encodeTLV :: "u8 \<Rightarrow> bytes \<Rightarrow> bytes" where
  "encodeTLV tlvType value = tlvType # put_uint16 (word_of_nat (length value)) @ value"

definition Serialize :: "claim_packet \<Rightarrow> packet_error + bytes" where
  "Serialize p =
     (if length (Ciphertext p) = 0 then Inl CiphertextEmpty
      else if length (ArkadeScript p) = 0 then Inl ArkadeScriptEmpty
      else if length (CovclaimdPubKey p) \<noteq> compressedPubKeyLen
      then Inl (PubKeyLength (length (CovclaimdPubKey p)))
      else Inr (encodeTLV tlvCiphertext (Ciphertext p) @
                encodeTLV tlvArkadeScript (ArkadeScript p) @
                encodeTLV tlvCovclaimdPubKey (CovclaimdPubKey p) @
                (if MinAmount p \<noteq> None then encodeTLV tlvMinAmount (minAmountBytes p) else [])))"

definition ToPacket :: "claim_packet \<Rightarrow> packet_error + ext_packet" where
  "ToPacket p = res_bind (Serialize p) (\<lambda>body. Inr (UnknownPacket PacketType body))"

text \<open>The state of the decoding loop: the packet so far, \<open>hasCiphertext\<close>, \<open>hasArkadeScript\<close>.\<close>

type_synonym tlv_state = "claim_packet \<times> bool \<times> bool"

definition switchTLV :: "u8 \<Rightarrow> bytes \<Rightarrow> tlv_state \<Rightarrow> packet_error + tlv_state" where
  "switchTLV tlvType val st =
     (case st of (out, hasCiphertext, hasArkadeScript) \<Rightarrow>
      if tlvType = tlvCiphertext then Inr (out\<lparr>Ciphertext := val\<rparr>, True, hasArkadeScript)
      else if tlvType = tlvArkadeScript then Inr (out\<lparr>ArkadeScript := val\<rparr>, hasCiphertext, True)
      else if tlvType = tlvCovclaimdPubKey then
        (if length val \<noteq> compressedPubKeyLen then Inl (PubKeyTLVLength (length val))
         else Inr (out\<lparr>CovclaimdPubKey := val\<rparr>, hasCiphertext, hasArkadeScript))
      else if tlvType = tlvMinAmount then
        (if length val \<noteq> minAmountLen then Inl (MinAmountTLVLength (length val))
         else Inr (out\<lparr>MinAmount := Some (uint64_of val)\<rparr>, hasCiphertext, hasArkadeScript))
      else Inr st)"

function deserialize_loop :: "bytes \<Rightarrow> nat \<Rightarrow> tlv_state \<Rightarrow> packet_error + tlv_state" where
  "deserialize_loop data offset st =
     (if offset < length data then
        (if offset + 3 > length data then Inl TruncatedHeader
         else
           let tlvType = data ! offset;
               tlvLen = unat (uint16_of (take 2 (drop (offset + 1) data)));
               offset1 = offset + 3
           in if offset1 + tlvLen > length data
              then Inl (TruncatedValue tlvType tlvLen (length data - offset1))
              else
                let val = make_copy tlvLen (take tlvLen (drop offset1 data));
                    offset2 = offset1 + tlvLen
                in case switchTLV tlvType val st of
                     Inl e \<Rightarrow> Inl e
                   | Inr st' \<Rightarrow> deserialize_loop data offset2 st')
      else Inr st)"
  by pat_completeness auto
termination
  by (relation "measure (\<lambda>(data, offset, st). length data - offset)") auto

declare deserialize_loop.simps [simp del]

definition finish_claim :: "tlv_state \<Rightarrow> packet_error + claim_packet" where
  "finish_claim st =
     (case st of (out, hasCiphertext, hasArkadeScript) \<Rightarrow>
      if \<not> hasCiphertext then Inl MissingCiphertext
      else if \<not> hasArkadeScript then Inl MissingArkadeScript
      else Inr out)"

definition DeserializeClaim :: "bytes \<Rightarrow> packet_error + claim_packet" where
  "DeserializeClaim data =
     res_bind (deserialize_loop data 0 (empty_packet, False, False)) finish_claim"

text \<open>\<open>Inr None\<close> is the result \<open>nil, nil\<close>: the extension carries no claim packet.\<close>

definition FindClaim :: "('priv, 'pub) ext \<Rightarrow> extension \<Rightarrow> packet_error + claim_packet option" where
  "FindClaim L ext =
     (case get_packet_by_type L ext PacketType of
        None \<Rightarrow> Inr None
      | Some (KnownPacket _ concrete) \<Rightarrow> Inl (UnexpectedPacketType concrete)
      | Some (UnknownPacket _ body) \<Rightarrow> map_err id (res_bind (DeserializeClaim body) (\<lambda>p. Inr (Some p))))"

section \<open>The reference decoder\<close>

text \<open>
  A body read as a list of type-value pairs, with the error that stops the reading, if any; the
  pairs are then applied one after the other.
\<close>

function parse_tlvs :: "bytes \<Rightarrow> (u8 \<times> bytes) list \<times> packet_error option" where
  "parse_tlvs bs =
     (case bs of
        t # l1 # l2 # rest \<Rightarrow>
          let n = unat (uint16_of [l1, l2]) in
          if n > length rest then ([], Some (TruncatedValue t n (length rest)))
          else let (tlvs, err) = parse_tlvs (drop n rest) in ((t, take n rest) # tlvs, err)
      | [] \<Rightarrow> ([], None)
      | _ \<Rightarrow> ([], Some TruncatedHeader))"
  by pat_completeness auto
termination
  by (relation "measure length") auto

declare parse_tlvs.simps [simp del]

fun apply_tlvs :: "(u8 \<times> bytes) list \<Rightarrow> tlv_state \<Rightarrow> packet_error + tlv_state" where
  "apply_tlvs [] st = Inr st"
| "apply_tlvs ((t, v) # tlvs) st = res_bind (switchTLV t v st) (apply_tlvs tlvs)"

definition reference_loop :: "bytes \<Rightarrow> tlv_state \<Rightarrow> packet_error + tlv_state" where
  "reference_loop bs st =
     (let (tlvs, err) = parse_tlvs bs in
      res_bind (apply_tlvs tlvs st)
        (\<lambda>st'. case err of None \<Rightarrow> Inr st' | Some e \<Rightarrow> Inl e))"

lemma parse_tlvs_simps [simp]:
  "parse_tlvs [] = ([], None)"
  "parse_tlvs [a] = ([], Some TruncatedHeader)"
  "parse_tlvs [a, b] = ([], Some TruncatedHeader)"
  "parse_tlvs (t # l1 # l2 # rest) =
     (let n = unat (uint16_of [l1, l2]) in
      if n > length rest then ([], Some (TruncatedValue t n (length rest)))
      else let (tlvs, err) = parse_tlvs (drop n rest) in ((t, take n rest) # tlvs, err))"
  by (simp_all add: parse_tlvs.simps [of "[]"] parse_tlvs.simps [of "[a]"]
      parse_tlvs.simps [of "[a, b]"] parse_tlvs.simps [of "t # l1 # l2 # rest"])

lemma reference_loop_step:
  "reference_loop (t # l1 # l2 # rest) st =
     (let n = unat (uint16_of [l1, l2]) in
      if n > length rest then Inl (TruncatedValue t n (length rest))
      else case switchTLV t (take n rest) st of
             Inl e \<Rightarrow> Inl e
           | Inr st' \<Rightarrow> reference_loop (drop n rest) st')"
  by (auto simp: reference_loop_def Let_def split: prod.splits sum.splits)

lemma deserialize_loop_append:
  "deserialize_loop (pre @ bs) (length pre) st = reference_loop bs st"
proof (induction "length bs" arbitrary: pre bs st rule: less_induct)
  case less
  note step = deserialize_loop.simps [of "pre @ bs" "length pre" st]
  consider "bs = []" | a where "bs = [a]" | a b where "bs = [a, b]"
    | t l1 l2 rest where "bs = t # l1 # l2 # rest"
    by (metis list.exhaust)
  then show ?case
  proof cases
    case 4
    define n where "n = unat (uint16_of [l1, l2])"
    have again: "deserialize_loop (pre @ bs) (Suc (Suc (Suc (length pre + n)))) st' =
        reference_loop (drop n rest) st'" if "n \<le> length rest" for st'
      using less [of "drop n rest" "pre @ t # l1 # l2 # take n rest" st'] that 4
      by simp
    show ?thesis
      unfolding step unfolding 4 reference_loop_step
      by (auto simp: Let_def again [unfolded 4] n_def [symmetric] make_copy_same add.assoc
          eval_nat_numeral split: sum.splits)
  qed (unfold step, simp_all add: reference_loop_def)
qed

lemma DeserializeClaim_reference:
  "DeserializeClaim data = res_bind (reference_loop data (empty_packet, False, False)) finish_claim"
  using deserialize_loop_append [of "[]" data] by (simp add: DeserializeClaim_def)

section \<open>The wire format\<close>

text \<open>
  The bodies the decoder accepts are the concatenations of well-formed TLVs that carry a ciphertext
  and a script, and what it returns is the last value of each type.
\<close>

definition encode_tlvs :: "(u8 \<times> bytes) list \<Rightarrow> bytes" where
  "encode_tlvs tlvs = concat (map (\<lambda>(t, v). encodeTLV t v) tlvs)"

definition short_tlv :: "u8 \<times> bytes \<Rightarrow> bool" where
  "short_tlv tlv \<longleftrightarrow> length (snd tlv) < 65536"

definition sized_tlv :: "u8 \<times> bytes \<Rightarrow> bool" where
  "sized_tlv tlv \<longleftrightarrow>
     (if fst tlv = tlvCovclaimdPubKey then length (snd tlv) = compressedPubKeyLen
      else if fst tlv = tlvMinAmount then length (snd tlv) = minAmountLen else True)"

definition value_or :: "bytes \<Rightarrow> bytes option \<Rightarrow> bytes" where
  "value_or d v = (case v of None \<Rightarrow> d | Some x \<Rightarrow> x)"

definition packet_of :: "(u8 \<Rightarrow> bytes option) \<Rightarrow> claim_packet \<Rightarrow> claim_packet" where
  "packet_of m d =
     \<lparr>Ciphertext = value_or (Ciphertext d) (m tlvCiphertext),
      ArkadeScript = value_or (ArkadeScript d) (m tlvArkadeScript),
      CovclaimdPubKey = value_or (CovclaimdPubKey d) (m tlvCovclaimdPubKey),
      MinAmount = (case m tlvMinAmount of None \<Rightarrow> MinAmount d | Some v \<Rightarrow> Some (uint64_of v))\<rparr>"

lemma value_or_simps [simp]: "value_or d None = d" "value_or d (Some v) = v"
  by (simp_all add: value_or_def)

lemma encode_tlvs_simps [simp]:
  "encode_tlvs [] = []"
  "encode_tlvs ((t, v) # tlvs) = encodeTLV t v @ encode_tlvs tlvs"
  by (simp_all add: encode_tlvs_def)

lemma length_uint16: "length v < 65536 \<Longrightarrow> unat (word_of_nat (length v) :: u16) = length v"
  by (simp add: unat_of_nat)

lemma encodeTLV_shape:
  obtains l1 l2 where "encodeTLV t v = t # l1 # l2 # v"
    and "length v < 65536 \<longrightarrow> unat (uint16_of [l1, l2]) = length v"
proof -
  let ?n = "word_of_nat (length v) :: u16"
  obtain l1 l2 where l: "put_uint16 ?n = [l1, l2]"
    using length_put_uint16 [of ?n] by (simp only: numeral_2_eq_2 length_Suc_conv length_0_conv) blast
  then have "uint16_of [l1, l2] = ?n"
    using uint16_put [of ?n] by simp
  with l that show thesis
    by (simp add: encodeTLV_def length_uint16)
qed

lemma parse_tlvs_encodeTLV:
  "length v < 65536 \<Longrightarrow>
     parse_tlvs (encodeTLV t v @ rest) = (let (tlvs, err) = parse_tlvs rest in ((t, v) # tlvs, err))"
  by (rule encodeTLV_shape [of t v]) (simp split: prod.splits)

lemma parse_tlvs_encode:
  "list_all short_tlv tlvs \<Longrightarrow> parse_tlvs (encode_tlvs tlvs) = (tlvs, None)"
  by (induction tlvs) (auto simp: parse_tlvs_encodeTLV short_tlv_def)

lemma encodeTLV_take:
  assumes "unat (uint16_of [l1, l2]) = length v"
  shows "encodeTLV t v = t # l1 # l2 # v"
proof -
  have "word_of_nat (length v) = uint16_of [l1, l2]"
    by (simp flip: assms)
  then show ?thesis
    by (simp add: encodeTLV_def put_uint16_of)
qed

lemma parse_tlvs_complete:
  "parse_tlvs bs = (tlvs, None) \<Longrightarrow> bs = encode_tlvs tlvs \<and> list_all short_tlv tlvs"
proof (induction bs arbitrary: tlvs rule: parse_tlvs.induct)
  case (1 bs)
  consider "bs = []" | a where "bs = [a]" | a b where "bs = [a, b]"
    | t l1 l2 rest where "bs = t # l1 # l2 # rest"
    by (metis list.exhaust)
  then show ?case
  proof cases
    case 4
    define n where "n = unat (uint16_of [l1, l2])"
    from 1(2) 4 obtain tlvs' where n: "n \<le> length rest"
      and p: "parse_tlvs (drop n rest) = (tlvs', None)" and tlvs: "tlvs = (t, take n rest) # tlvs'"
      by (auto simp: Let_def n_def split: if_splits prod.splits)
    have IH: "drop n rest = encode_tlvs tlvs' \<and> list_all short_tlv tlvs'"
      using 1(1) [OF 4 refl refl n_def _ p] n by simp
    have "encodeTLV t (take n rest) = t # l1 # l2 # take n rest"
      using n by (intro encodeTLV_take) (simp add: n_def)
    then have "encode_tlvs tlvs = t # l1 # l2 # take n rest @ drop n rest"
      using IH tlvs by simp
    moreover have "n < 65536"
      unfolding n_def by (rule unat_u16_less)
    ultimately show ?thesis
      using IH [THEN conjunct2] n 4 tlvs by (simp add: short_tlv_def [of "(t, take n rest)"])
  qed (use 1(2) in auto)
qed

lemma apply_tlvs_Inr:
  "apply_tlvs tlvs (out, c, s) = Inr st' \<longleftrightarrow>
     list_all sized_tlv tlvs \<and>
     st' = (packet_of (map_of (rev tlvs)) out,
            c \<or> tlvCiphertext \<in> fst ` set tlvs, s \<or> tlvArkadeScript \<in> fst ` set tlvs)"
proof (induction tlvs arbitrary: out c s)
  case Nil
  then show ?case by (auto simp: packet_of_def)
next
  case (Cons tlv tlvs)
  then show ?case
    by (cases tlv)
      (auto simp: switchTLV_def sized_tlv_def packet_of_def packet_consts map_of_append
        map_add_def res_simps split: if_splits option.splits)
qed

text \<open>The decoder, characterised.\<close>

lemma DeserializeClaim_Inr:
  "DeserializeClaim data = Inr p \<longleftrightarrow>
     (\<exists>tlvs. data = encode_tlvs tlvs \<and> list_all short_tlv tlvs \<and> list_all sized_tlv tlvs \<and>
        tlvCiphertext \<in> fst ` set tlvs \<and> tlvArkadeScript \<in> fst ` set tlvs \<and>
        p = packet_of (map_of (rev tlvs)) empty_packet)" (is "_ \<longleftrightarrow> (\<exists>tlvs. ?accepts tlvs)")
proof
  assume "DeserializeClaim data = Inr p"
  then obtain tlvs where "parse_tlvs data = (tlvs, None)"
    and "res_bind (apply_tlvs tlvs (empty_packet, False, False)) finish_claim = Inr p"
    by (auto simp: DeserializeClaim_reference reference_loop_def res_simps
        split: prod.splits option.splits)
  then show "\<exists>tlvs. ?accepts tlvs"
    by (intro exI [of _ tlvs])
      (auto dest: parse_tlvs_complete simp: apply_tlvs_Inr res_simps finish_claim_def
        split: if_splits)
next
  assume "\<exists>tlvs. ?accepts tlvs"
  then obtain tlvs where "?accepts tlvs" by blast
  then show "DeserializeClaim data = Inr p"
    by (auto simp: DeserializeClaim_reference reference_loop_def parse_tlvs_encode
        apply_tlvs_Inr res_simps finish_claim_def)
qed

lemma DeserializeClaim_lengths:
  assumes "DeserializeClaim data = Inr p"
  shows "length (Ciphertext p) < 65536" and "length (ArkadeScript p) < 65536"
    and "CovclaimdPubKey p = [] \<or> length (CovclaimdPubKey p) = 33"
proof -
  from assms obtain tlvs where s: "list_all short_tlv tlvs" "list_all sized_tlv tlvs"
    and p: "p = packet_of (map_of (rev tlvs)) empty_packet"
    by (auto simp: DeserializeClaim_Inr)
  have "length v < 65536" and "t = tlvCovclaimdPubKey \<longrightarrow> length v = 33"
    if "map_of (rev tlvs) t = Some v" for t v
    using map_of_SomeD [OF that] s
    by (auto simp: list_all_iff short_tlv_def sized_tlv_def packet_consts split: if_splits)
  then show "length (Ciphertext p) < 65536" and "length (ArkadeScript p) < 65536"
    and "CovclaimdPubKey p = [] \<or> length (CovclaimdPubKey p) = 33"
    unfolding p packet_of_def value_or_def
    by (auto simp: empty_packet_def split: option.splits)
qed

text \<open>The encoder writes one TLV per field, in a fixed order.\<close>

definition packet_tlvs :: "claim_packet \<Rightarrow> (u8 \<times> bytes) list" where
  "packet_tlvs p =
     [(tlvCiphertext, Ciphertext p), (tlvArkadeScript, ArkadeScript p),
      (tlvCovclaimdPubKey, CovclaimdPubKey p)] @
     (case MinAmount p of None \<Rightarrow> [] | Some m \<Rightarrow> [(tlvMinAmount, append_uint64 m)])"

lemma Serialize_Inr:
  "Serialize p = Inr bs \<longleftrightarrow>
     Ciphertext p \<noteq> [] \<and> ArkadeScript p \<noteq> [] \<and> length (CovclaimdPubKey p) = 33 \<and>
     bs = encode_tlvs (packet_tlvs p)"
  by (auto simp: Serialize_def packet_tlvs_def minAmountBytes_def compressedPubKeyLen_def
      split: option.splits)

lemma packet_of_packet_tlvs [simp]: "packet_of (map_of (rev (packet_tlvs p))) empty_packet = p"
  by (cases p) (auto simp: packet_of_def packet_tlvs_def packet_consts empty_packet_def
      split: option.splits)

lemma DeserializeClaim_Serialize:
  assumes "Serialize p = Inr bs" and "length (Ciphertext p) < 65536" "length (ArkadeScript p) < 65536"
  shows "DeserializeClaim bs = Inr p"
  unfolding DeserializeClaim_Inr
proof (intro exI [of _ "packet_tlvs p"] conjI)
  show "bs = encode_tlvs (packet_tlvs p)"
    using assms by (simp add: Serialize_Inr)
  show "list_all short_tlv (packet_tlvs p)" and "list_all sized_tlv (packet_tlvs p)"
    using assms
    by (auto simp: Serialize_Inr packet_tlvs_def short_tlv_def sized_tlv_def packet_consts
        split: option.splits)
  show "p = packet_of (map_of (rev (packet_tlvs p))) empty_packet"
    by simp
qed (simp_all add: packet_tlvs_def)

section \<open>Decryption\<close>

lemma packet_Decrypt_Inr:
  "packet_Decrypt L sk p = Inr x \<longleftrightarrow>
     (\<exists>r. ValidateArkadeScript L (ArkadeScript p) = Inr r) \<and>
     DecryptWithAAD L sk (Ciphertext p) (minAmountBytes p) = Inr x \<and> length x = 32"
  by (auto simp: packet_Decrypt_def res_simps preimageSize_def)

lemma minAmountBytes_inject: "minAmountBytes p = minAmountBytes q \<longleftrightarrow> MinAmount p = MinAmount q"
  by (auto simp: minAmountBytes_def eq_commute [of "[]"] split: option.splits)

lemma Underfunds_sint: "Underfunds p v \<longleftrightarrow> (\<exists>m. MinAmount p = Some m \<and> sint v < uint m)"
proof -
  have "sint v < 0 \<or> v < m \<longleftrightarrow> sint v < uint m" for m :: u64
  proof (cases "sint v < 0")
    case True
    moreover have "0 \<le> uint m" by simp
    ultimately show ?thesis by linarith
  next
    case False
    then show ?thesis
      by (simp add: sint_nonneg word_less_def)
  qed
  then show ?thesis
    by (simp add: Underfunds_def split: option.splits)
qed

text \<open>Packets that travel: the encoder takes them, and their values fit the length field.\<close>

definition sendable :: "claim_packet \<Rightarrow> bool" where
  "sendable p \<longleftrightarrow>
     Ciphertext p \<noteq> [] \<and> ArkadeScript p \<noteq> [] \<and> length (CovclaimdPubKey p) = 33 \<and>
     length (Ciphertext p) < 65536 \<and> length (ArkadeScript p) < 65536"

definition packet_body :: "claim_packet \<Rightarrow> bytes" where
  "packet_body p = encode_tlvs (packet_tlvs p)"

lemma sendable_Serialize: "sendable p \<Longrightarrow> Serialize p = Inr (packet_body p)"
  by (simp add: Serialize_Inr sendable_def packet_body_def)

interpretation packet: codec packet_body
  "\<lambda>bs. case DeserializeClaim bs of Inl _ \<Rightarrow> None | Inr p \<Rightarrow> Some p" sendable
proof unfold_locales
  fix p
  assume p: "sendable p"
  then have "DeserializeClaim (packet_body p) = Inr p"
    using DeserializeClaim_Serialize [OF sendable_Serialize [OF p]] by (simp add: sendable_def)
  then show "(case DeserializeClaim (packet_body p) of Inl _ \<Rightarrow> None | Inr p \<Rightarrow> Some p) = Some p"
    by simp
qed

text \<open>Each TLV of a decoded packet stands in the body it was decoded from, which is at least as long.\<close>

lemma length_encode_tlvs:
  "length (encode_tlvs tlvs) = sum_list (map (\<lambda>(t, v). 3 + length v) tlvs)"
  by (induction tlvs) (auto simp: encodeTLV_def)

lemma sum_list_distinct_le:
  fixes f :: "'a \<Rightarrow> nat"
  assumes "distinct xs" and "set xs \<subseteq> set ys"
  shows "sum_list (map f xs) \<le> sum_list (map f ys)"
proof -
  have "sum_list (map f xs) = sum f (set xs)"
    using assms(1) by (simp add: sum_list_distinct_conv_sum_set)
  also have "\<dots> \<le> sum f (set ys)"
    using assms(2) by (intro sum_mono2) auto
  also have "\<dots> \<le> sum_list (map f ys)"
  proof (induction ys)
    case (Cons y ys)
    then show ?case
      by (cases "y \<in> set ys") (simp_all add: insert_absorb)
  qed simp
  finally show ?thesis .
qed

lemma packet_tlvs_of_decoded:
  assumes "DeserializeClaim (encode_tlvs tlvs) = Inr p" and "list_all short_tlv tlvs"
    and "CovclaimdPubKey p \<noteq> []"
  shows "set (packet_tlvs p) \<subseteq> set tlvs"
proof -
  have parsed: "parse_tlvs (encode_tlvs tlvs) = (tlvs, None)"
    using assms(2) by (rule parse_tlvs_encode)
  with assms(1) have sized: "list_all sized_tlv tlvs"
    and given: "tlvCiphertext \<in> fst ` set tlvs" "tlvArkadeScript \<in> fst ` set tlvs"
    and p: "p = packet_of (map_of (rev tlvs)) empty_packet"
    by (auto simp: DeserializeClaim_reference reference_loop_def apply_tlvs_Inr res_simps
        finish_claim_def split: if_splits)
  have at: "(t, v) \<in> set tlvs" if "map_of (rev tlvs) t = Some v" for t v
    using map_of_SomeD [OF that] by simp
  have bound: "\<exists>v. map_of (rev tlvs) t = Some v" if "t \<in> fst ` set tlvs" for t
    using that by (metis domIff dom_map_of_conv_image_fst option.exhaust set_rev)
  obtain ct script where "map_of (rev tlvs) tlvCiphertext = Some ct"
      "map_of (rev tlvs) tlvArkadeScript = Some script"
    using bound given by blast
  moreover obtain key where "map_of (rev tlvs) tlvCovclaimdPubKey = Some key"
    using assms(3) by (cases "map_of (rev tlvs) tlvCovclaimdPubKey")
      (auto simp: p packet_of_def empty_packet_def)
  moreover have "append_uint64 (uint64_of v) = v" if "map_of (rev tlvs) tlvMinAmount = Some v" for v
    using at [OF that] sized
    by (intro append_uint64_of) (auto simp: list_all_iff sized_tlv_def packet_consts)
  ultimately show ?thesis
    using at by (auto simp: p packet_tlvs_def packet_of_def empty_packet_def split: option.splits)
qed

lemma distinct_packet_tlvs: "distinct (packet_tlvs p)"
  by (simp add: packet_tlvs_def packet_consts split: option.split)

section \<open>Properties\<close>

definition sample_packet :: claim_packet where
  "sample_packet =
     \<lparr>Ciphertext = [0xaa], ArkadeScript = [0x51], CovclaimdPubKey = replicate 33 2,
      MinAmount = Some 50000\<rparr>"

definition long_packet :: claim_packet where
  "long_packet = sample_packet\<lparr>Ciphertext := replicate 65536 0\<rparr>"

text \<open>
  C19: what \<open>Serialize\<close> writes, \<open>DeserializeClaim\<close> reads back unchanged exactly when the ciphertext and
  the script are shorter than 2^16 bytes. \<open>Serialize\<close> itself accepts longer ones and writes a length
  that has wrapped around, so such a packet is lost without an error on the sending side.
\<close>

theorem claim_packet_roundtrip:
  assumes "Serialize p = Inr bs"
  shows "DeserializeClaim bs = Inr p \<longleftrightarrow>
    length (Ciphertext p) < 65536 \<and> length (ArkadeScript p) < 65536"
  using DeserializeClaim_Serialize [OF assms] DeserializeClaim_lengths by blast

theorem claim_packet_roundtrip_witness:
  "(\<exists>bs. Serialize sample_packet = Inr bs \<and> DeserializeClaim bs = Inr sample_packet) \<and>
   (\<exists>bs. Serialize long_packet = Inr bs \<and> DeserializeClaim bs \<noteq> Inr long_packet)"
proof -
  have s: "Serialize sample_packet = Inr (encode_tlvs (packet_tlvs sample_packet))"
    and l: "Serialize long_packet = Inr (encode_tlvs (packet_tlvs long_packet))"
    by (simp_all add: Serialize_Inr sample_packet_def long_packet_def)
  show ?thesis
    using s l claim_packet_roundtrip [OF s] claim_packet_roundtrip [OF l]
    by (simp add: sample_packet_def long_packet_def)
qed

text \<open>
  C20: the decoder's offset loop, on every input and with the same error on every malformed one,
  computes what the reference does: read the body as type-value pairs, apply them in order,
  report the first problem, then ask for the two required fields.
\<close>

theorem deserialize_is_reference:
  "DeserializeClaim data = res_bind (reference_loop data (empty_packet, False, False)) finish_claim"
  by (rule DeserializeClaim_reference)

text \<open>
  C21: the bodies \<open>DeserializeClaim\<close> accepts are exactly the concatenations of TLVs with 16-bit lengths
  that contain a ciphertext and a script, whose key TLVs have 33 bytes and whose amount TLVs have
  8; unknown types are skipped and the last value of a type wins.
\<close>

theorem deserialize_accepts:
  "DeserializeClaim data = Inr p \<longleftrightarrow>
     (\<exists>tlvs. data = encode_tlvs tlvs \<and> list_all short_tlv tlvs \<and> list_all sized_tlv tlvs \<and>
        tlvCiphertext \<in> fst ` set tlvs \<and> tlvArkadeScript \<in> fst ` set tlvs \<and>
        p = packet_of (map_of (rev tlvs)) empty_packet)"
  by (rule DeserializeClaim_Inr)

text \<open>
  The decoder does not depend on the order in which the TLVs of a body arrive, as long as no type is
  repeated.
\<close>

theorem deserialize_order_independent:
  assumes "DeserializeClaim (encode_tlvs tlvs) = Inr p" and "list_all short_tlv tlvs"
    and "distinct (map fst tlvs)" and "mset tlvs' = mset tlvs"
  shows "DeserializeClaim (encode_tlvs tlvs') = Inr p"
proof -
  have set: "set tlvs' = set tlvs"
    using assms(4) by (rule mset_eq_setD)
  have "distinct (map fst tlvs')"
    using assms(3,4) by (metis mset_eq_imp_distinct_iff mset_map)
  with assms(3) set have map: "map_of (rev tlvs') = map_of (rev tlvs)"
    by (intro map_of_inject_set [THEN iffD2]) (simp_all add: rev_map [symmetric])
  obtain tlvs0 where "encode_tlvs tlvs = encode_tlvs tlvs0" and s: "list_all short_tlv tlvs0"
    and rest: "list_all sized_tlv tlvs0" "tlvCiphertext \<in> fst ` set tlvs0"
      "tlvArkadeScript \<in> fst ` set tlvs0" "p = packet_of (map_of (rev tlvs0)) empty_packet"
    using assms(1) by (auto simp: DeserializeClaim_Inr)
  then have "tlvs0 = tlvs"
    using parse_tlvs_encode [OF s] parse_tlvs_encode [OF assms(2)] by simp
  with s rest set map show ?thesis
    by (auto simp: DeserializeClaim_Inr list_all_iff intro!: exI [of _ tlvs'])
qed

theorem deserialize_order_independent_witness:
  "DeserializeClaim (encode_tlvs [(2, [0x51]), (1, [0xaa])]) =
     Inr (empty_packet\<lparr>Ciphertext := [0xaa], ArkadeScript := [0x51]\<rparr>)"
proof -
  have "DeserializeClaim (encode_tlvs [(1, [0xaa]), (2, [0x51])]) =
     Inr (empty_packet\<lparr>Ciphertext := [0xaa], ArkadeScript := [0x51]\<rparr>)"
    by code_simp
  then show ?thesis
    by (rule deserialize_order_independent) (simp_all add: short_tlv_def)
qed

text \<open>
  An output is below a packet's minimum exactly when its signed value, read as an integer, is below
  the unsigned minimum; without a minimum no output is.
\<close>

theorem underfunds_iff_below:
  "Underfunds p value \<longleftrightarrow> (\<exists>m. MinAmount p = Some m \<and> sint value < uint m)"
  by (rule Underfunds_sint)

text \<open>
  C23: the minimum amount is bound to the ciphertext. If a packet opens under its own amount and still
  opens after the amount has been changed or stripped, then the packet's AES-GCM ciphertext is accepted
  under its key and nonce with two different additional data: the attacker has forged a tag.
\<close>

theorem amount_change_is_a_forgery:
  assumes "packet_Decrypt L sk p = Inr x" and "packet_Decrypt L sk (p\<lparr>MinAmount := m\<rparr>) = Inr y"
    and "m \<noteq> MinAmount p"
  shows "\<exists>s e. sk = Some s \<and> parse_pub_key L (take 33 (Ciphertext p)) = Inr e \<and>
    (let eph = take 33 (Ciphertext p); nonce = take 12 (drop 33 (Ciphertext p));
         sealed = drop 45 (Ciphertext p); key = deriveSymKey L s e eph;
         aad = eph @ minAmountBytes p; aad' = eph @ minAmountBytes (p\<lparr>MinAmount := m\<rparr>)
     in aad \<noteq> aad' \<and> gcm_open L key nonce sealed aad = Some x \<and> gcm_open L key nonce sealed aad' = Some y)"
proof -
  let ?q = "p\<lparr>MinAmount := m\<rparr>" and ?eph = "take 33 (Ciphertext p)"
  have "minAmountBytes ?q \<noteq> minAmountBytes p"
    using assms(3) by (simp add: minAmountBytes_inject)
  then have differ: "?eph @ minAmountBytes p \<noteq> ?eph @ minAmountBytes ?q"
    by simp
  from assms(1) obtain s e where se: "sk = Some s" "parse_pub_key L ?eph = Inr e"
    and x: "gcm_open L (deriveSymKey L s e ?eph) (take 12 (drop 33 (Ciphertext p)))
      (drop 45 (Ciphertext p)) (?eph @ minAmountBytes p) = Some x"
    by (auto simp: packet_Decrypt_Inr DecryptWithAAD_Inr)
  from assms(2) se have "gcm_open L (deriveSymKey L s e ?eph) (take 12 (drop 33 (Ciphertext p)))
      (drop 45 (Ciphertext p)) (?eph @ minAmountBytes ?q) = Some y"
    by (auto simp: packet_Decrypt_Inr DecryptWithAAD_Inr)
  with x differ se show ?thesis
    by (simp add: Let_def)
qed

text \<open>The hypotheses can hold for a cipher that ignores its additional data.\<close>

definition careless :: "(u8, u8) ext" where
  "careless = toy\<lparr>gcm_open := (\<lambda>k n ct aad. Some (replicate 32 7))\<rparr>"

definition sealed_packet :: claim_packet where
  "sealed_packet =
     \<lparr>Ciphertext = toy_serialize 3 @ replicate 60 0, ArkadeScript = sample_script,
      CovclaimdPubKey = toy_serialize 5, MinAmount = Some 50000\<rparr>"

theorem amount_change_is_a_forgery_witness:
  "\<exists>s e. Some (5 :: u8) = Some s \<and> parse_pub_key careless (take 33 (Ciphertext sealed_packet)) = Inr e \<and>
    (let eph = take 33 (Ciphertext sealed_packet); nonce = take 12 (drop 33 (Ciphertext sealed_packet));
         sealed = drop 45 (Ciphertext sealed_packet); key = deriveSymKey careless s e eph;
         aad = eph @ minAmountBytes sealed_packet;
         aad' = eph @ minAmountBytes (sealed_packet\<lparr>MinAmount := None\<rparr>)
     in aad \<noteq> aad' \<and> gcm_open careless key nonce sealed aad = Some (replicate 32 7) \<and>
        gcm_open careless key nonce sealed aad' = Some (replicate 32 7))"
proof (rule amount_change_is_a_forgery)
  have e: "EnforcePayTo careless = EnforcePayTo toy"
    and pr: "parseReceiverFromArkadeScript careless = parseReceiverFromArkadeScript toy"
    by (simp_all add: fun_eq_iff EnforcePayTo_def p2trWitnessProgram_def enforce_items_def
        parseReceiverFromArkadeScript_def careless_def Let_def cong: if_cong)
  then have v: "ValidateArkadeScript careless sample_script = Inr sample_receiver"
    using ValidateArkadeScript_sample by (simp add: ValidateArkadeScript_def)
  have k: "parse_pub_key careless (toy_serialize 3) = Inr 3"
    by (simp add: careless_def toy_def toy_parse_def toy_serialize_def)
  have opens: "gcm_open careless k n ct aad = Some (replicate 32 7)" for k n ct aad
    by (simp add: careless_def)
  show "packet_Decrypt careless (Some 5) sealed_packet = Inr (replicate 32 7)"
    and "packet_Decrypt careless (Some 5) (sealed_packet\<lparr>MinAmount := None\<rparr>) =
      Inr (replicate 32 7)"
    unfolding packet_Decrypt_Inr DecryptWithAAD_Inr
    by (simp_all add: sealed_packet_def v opens k)
qed (simp add: sealed_packet_def)

text \<open>
  C22: a decoded packet is well formed: its ciphertext and script fit the length field and its key has
  33 bytes, if it has one. When it names a key and neither is empty it can be written again; the new
  body decodes to the same packet, and no body that decodes to the packet is shorter.
\<close>

theorem decoded_packet_is_well_formed:
  assumes "DeserializeClaim body = Inr p"
  shows "length (Ciphertext p) < 65536 \<and> length (ArkadeScript p) < 65536 \<and>
    (CovclaimdPubKey p = [] \<or> length (CovclaimdPubKey p) = 33) \<and>
    (Ciphertext p \<noteq> [] \<longrightarrow> ArkadeScript p \<noteq> [] \<longrightarrow> CovclaimdPubKey p \<noteq> [] \<longrightarrow>
      (\<exists>body'. Serialize p = Inr body' \<and> DeserializeClaim body' = Inr p \<and> length body' \<le> length body))"
proof -
  note wf = DeserializeClaim_lengths [OF assms]
  obtain tlvs where tlvs: "body = encode_tlvs tlvs" "list_all short_tlv tlvs"
    using assms by (auto simp: DeserializeClaim_Inr)
  have "Serialize p = Inr (packet_body p) \<and> DeserializeClaim (packet_body p) = Inr p \<and>
      length (packet_body p) \<le> length body"
    if "Ciphertext p \<noteq> []" "ArkadeScript p \<noteq> []" "CovclaimdPubKey p \<noteq> []"
  proof -
    have "sendable p"
      using wf that by (auto simp: sendable_def)
    moreover have "length (packet_body p) \<le> length body"
      using sum_list_distinct_le [OF distinct_packet_tlvs packet_tlvs_of_decoded] assms tlvs that(3)
      by (simp add: packet_body_def length_encode_tlvs)
    ultimately show ?thesis
      using sendable_Serialize DeserializeClaim_Serialize by (auto simp: sendable_def)
  qed
  then show ?thesis
    using wf by blast
qed

theorem decoded_packet_is_well_formed_witness:
  "\<exists>body. Serialize sample_packet = Inr body \<and> DeserializeClaim body = Inr sample_packet \<and>
     length body \<le> length (packet_body sample_packet)"
proof -
  have s: "sendable sample_packet"
    by (simp add: sendable_def sample_packet_def)
  then have "DeserializeClaim (packet_body sample_packet) = Inr sample_packet"
    using DeserializeClaim_Serialize [OF sendable_Serialize [OF s]] by (simp add: sendable_def)
  from decoded_packet_is_well_formed [OF this] s show ?thesis
    by (auto simp: sendable_def)
qed

end
