(* ===== verification/Registry.thy ===== *)
theory Registry
  imports Packet
begin

text \<open>
  The registration map of \<open>pkg/preimage/reveal_plugin.go\<close>: \<open>register\<close> with its purge of expired
  entries and its capacity, and the deletion \<open>Solve\<close> makes. The map is a finite map from the hex of
  an output script; times are integers, in nanoseconds. The locale \<open>claim_store\<close> is what the plugin
  relies on; the model of the code interprets it.
\<close>

section \<open>Model\<close>

definition maxRegistrations :: nat where "maxRegistrations = 10000"
definition registrationTTL :: int where "registrationTTL = 15 * 60 * 1000000000"

record registration =
  RegPacket :: claim_packet
  RegTaptree :: "string list"
  RegExpireAt :: int

type_synonym registry = "(string, registration) fmap"

datatype registry_error = RegistryFull

text \<open>\<open>now.After(r.expireAt)\<close> is strict.\<close>

definition expired :: "int \<Rightarrow> registration \<Rightarrow> bool" where
  "expired now r \<longleftrightarrow> now > RegExpireAt r"

definition purge :: "int \<Rightarrow> registry \<Rightarrow> registry" where
  "purge now packets =
     fmfilter (\<lambda>k. case fmlookup packets k of None \<Rightarrow> False | Some r \<Rightarrow> \<not> expired now r) packets"

definition register ::
  "int \<Rightarrow> string \<Rightarrow> claim_packet \<Rightarrow> string list \<Rightarrow> registry \<Rightarrow> (registry_error + unit) \<times> registry" where
  "register now key pkt taptree packets =
     (let packets1 = purge now packets in
      if fmlookup packets1 key = None \<and> fcard (fmdom packets1) \<ge> maxRegistrations
      then (Inl RegistryFull, packets1)
      else (Inr (), fmupd key
             \<lparr>RegPacket = pkt, RegTaptree = taptree, RegExpireAt = now + registrationTTL\<rparr> packets1))"

definition unregister :: "string \<Rightarrow> registry \<Rightarrow> registry" where
  "unregister key packets = fmdrop key packets"

section \<open>The interface\<close>

text \<open>
  A store of entries with a capacity. Storing first drops what is no longer live; it refuses only
  a key that has no live entry, and only when the live entries fill the capacity.
\<close>

locale claim_store =
  fixes find_entry :: "'s \<Rightarrow> 'k \<Rightarrow> 'w option"
    and store :: "'t \<Rightarrow> 'k \<Rightarrow> 'v \<Rightarrow> 's \<Rightarrow> ('e + unit) \<times> 's"
    and remove :: "'k \<Rightarrow> 's \<Rightarrow> 's"
    and entry :: "'t \<Rightarrow> 'v \<Rightarrow> 'w"
    and live :: "'t \<Rightarrow> 'w \<Rightarrow> bool"
    and size_of :: "'s \<Rightarrow> nat"
    and capacity :: nat
  assumes store_other: "k' \<noteq> k \<Longrightarrow> find_entry (snd (store t k v s)) k' =
      (case find_entry s k' of None \<Rightarrow> None | Some w \<Rightarrow> if live t w then Some w else None)"
    and store_done: "fst (store t k v s) = Inr () \<Longrightarrow>
      find_entry (snd (store t k v s)) k = Some (entry t v)"
    and store_refused: "fst (store t k v s) = Inl e \<Longrightarrow>
      find_entry (snd (store t k v s)) k = None \<and> capacity \<le> size_of (snd (store t k v s)) \<and>
      (\<nexists>w. find_entry s k = Some w \<and> live t w)"
    and store_size: "size_of s \<le> capacity \<Longrightarrow> size_of (snd (store t k v s)) \<le> capacity"
    and remove_entry: "find_entry (remove k s) k' = (if k' = k then None else find_entry s k')"
    and remove_size: "size_of (remove k s) \<le> size_of s"
begin

text \<open>A property of entries is kept by every operation, given it holds for what is stored.\<close>

lemma store_keeps:
  assumes "\<And>j w. find_entry s j = Some w \<Longrightarrow> P j w" and "P k (entry t v)"
    and "find_entry (snd (store t k v s)) j = Some w"
  shows "P j w"
proof (cases "j = k")
  case True
  then show ?thesis
    using assms(2,3) store_done [of t k v s] store_refused [of t k v s]
    by (cases "fst (store t k v s)") auto
next
  case False
  then show ?thesis
    using assms(1,3) store_other [OF False, of t v s] by (auto split: option.splits if_splits)
qed

lemma remove_keeps:
  "(\<And>j w. find_entry s j = Some w \<Longrightarrow> P j w) \<Longrightarrow> find_entry (remove k s) j = Some w \<Longrightarrow> P j w"
  by (auto simp: remove_entry split: if_splits)

text \<open>A key with a live entry can always be stored again.\<close>

lemma store_replaces:
  "find_entry s k = Some w \<Longrightarrow> live t w \<Longrightarrow> fst (store t k v s) = Inr ()"
  using store_refused [of t k v s] by (cases "fst (store t k v s)") auto

text \<open>The entries of other keys outlive any operation while they are live.\<close>

lemma store_frame:
  "k' \<noteq> k \<Longrightarrow> find_entry s k' = Some w \<Longrightarrow> live t w \<Longrightarrow>
     find_entry (snd (store t k v s)) k' = Some w"
  by (simp add: store_other)

lemma store_drops_dead:
  "find_entry (snd (store t k v s)) k' = Some w \<Longrightarrow> k' \<noteq> k \<Longrightarrow> live t w"
  by (auto simp: store_other split: option.splits if_splits)

lemma remove_within: "size_of s \<le> capacity \<Longrightarrow> size_of (remove k s) \<le> capacity"
  using remove_size le_trans by blast

end

section \<open>The code's registry is a claim store\<close>

lemma fmlookup_purge:
  "fmlookup (purge now m) k =
     (case fmlookup m k of None \<Rightarrow> None | Some r \<Rightarrow> if expired now r then None else Some r)"
  by (auto simp: purge_def split: option.splits)

lemma fcard_purge: "fcard (fmdom (purge now m)) \<le> fcard (fmdom m)"
  unfolding purge_def by (rule fcard_mono) auto

lemma register_size:
  assumes "fcard (fmdom m) \<le> maxRegistrations"
  shows "fcard (fmdom (snd (register now k pkt tt m))) \<le> maxRegistrations"
  using le_trans [OF fcard_purge assms]
  by (auto simp: register_def Let_def fcard_finsert_if fmlookup_dom_iff)

interpretation reg: claim_store fmlookup
  "\<lambda>now key (pkt, taptree). register now key pkt taptree" unregister
  "\<lambda>now (pkt, taptree). \<lparr>RegPacket = pkt, RegTaptree = taptree, RegExpireAt = now + registrationTTL\<rparr>"
  "\<lambda>now r. \<not> expired now r" "\<lambda>m. fcard (fmdom m)" maxRegistrations
proof (unfold_locales, goal_cases)
  case (4 s t k v)
  then show ?case
    by (cases v) (simp add: register_size)
next
  case (6 k s)
  show ?case
    unfolding unregister_def by (rule fcard_mono) auto
qed (auto simp: register_def Let_def fmlookup_purge unregister_def
    split: prod.splits option.splits if_splits)

text \<open>The facts of the interpretation over \<open>register\<close> itself.\<close>

lemmas register_other = reg.store_other [where v = "(pkt, taptree)" for pkt taptree, simplified]
lemmas register_done = reg.store_done [where v = "(pkt, taptree)" for pkt taptree, simplified]
lemmas register_refused = reg.store_refused [where v = "(pkt, taptree)" for pkt taptree, simplified]
lemmas register_keeps = reg.store_keeps [where v = "(pkt, taptree)" for pkt taptree, simplified]
lemmas register_replaces = reg.store_replaces [where v = "(pkt, taptree)" for pkt taptree, simplified]
lemmas register_drops_dead = reg.store_drops_dead [where v = "(pkt, taptree)" for pkt taptree, simplified]

section \<open>Properties\<close>

text \<open>
  C40: a registration never displaces a live one. Submitting first drops exactly the expired entries;
  it is refused only for a key without a live entry while 10000 live entries remain, it always
  succeeds for a key that has one, and a registry within its capacity stays within it.
\<close>

theorem register_contract:
  assumes "fcard (fmdom m) \<le> maxRegistrations" and "register now key pkt taptree m = (res, m')"
  shows "fcard (fmdom m') \<le> maxRegistrations \<and>
    (res = Inl RegistryFull \<longleftrightarrow>
       (\<nexists>r. fmlookup m key = Some r \<and> \<not> expired now r) \<and>
       maxRegistrations \<le> fcard (fmdom (purge now m))) \<and>
    (res = Inr () \<longrightarrow> fmlookup m' key =
       Some \<lparr>RegPacket = pkt, RegTaptree = taptree, RegExpireAt = now + registrationTTL\<rparr>) \<and>
    (\<forall>k r. k \<noteq> key \<longrightarrow> (fmlookup m' k = Some r \<longleftrightarrow> fmlookup m k = Some r \<and> \<not> expired now r))"
proof -
  have m': "m' = snd (register now key pkt taptree m)" and res: "res = fst (register now key pkt taptree m)"
    using assms(2) by simp_all
  have "res = Inl RegistryFull \<longleftrightarrow>
       (\<nexists>r. fmlookup m key = Some r \<and> \<not> expired now r) \<and>
       maxRegistrations \<le> fcard (fmdom (purge now m))"
    unfolding res by (auto simp: register_def Let_def fmlookup_purge split: option.splits)
  then show ?thesis
    using register_size [OF assms(1)] register_done register_other unfolding m' res
    by (auto split: option.splits if_splits)
qed

theorem register_contract_witness:
  "fcard (fmdom (snd (register 0 ''aa'' sample_packet [''t''] fmempty))) \<le> maxRegistrations \<and>
   fmlookup (snd (register 0 ''aa'' sample_packet [''t''] fmempty)) ''aa'' =
     Some \<lparr>RegPacket = sample_packet, RegTaptree = [''t''], RegExpireAt = registrationTTL\<rparr>"
proof -
  obtain res m' where r: "register 0 ''aa'' sample_packet [''t''] fmempty = (res, m')"
    by fastforce
  have e: "fcard (fmdom (fmempty :: registry)) \<le> maxRegistrations"
    by (simp add: fcard_fempty)
  have "res = Inr ()"
    using r by (simp add: register_def Let_def purge_def maxRegistrations_def fcard_fempty)
  with register_contract [OF e r] r show ?thesis
    by simp
qed

end
