(* ===== verification/Maker.thy ===== *)
theory Maker
  imports Packet
begin

text \<open>
  \<open>pkg/preimage/maker.go\<close>: the funder's side. \<open>BuildPacket\<close> seals a preimage to a covclaimd key and
  wraps it with the covenant script into an extension packet. The random draws of the encryption are
  arguments.
\<close>

section \<open>Model\<close>

datatype maker_error =
    MakerPreimageLength nat
  | MakerNilPubKey
  | MakerArkadeScript contract_error
  | MakerEncrypt ecies_error
  | MakerSerialize packet_error

definition BuildPacket ::
  "('priv, 'pub) ext \<Rightarrow> string + 'priv \<Rightarrow> string + bytes \<Rightarrow> bytes \<Rightarrow> 'pub option \<Rightarrow> bytes \<Rightarrow>
   maker_error + ext_packet" where
  "BuildPacket L newPrivateKey randNonce preimage covclaimdPubKey receiverPkScript =
     (if length preimage \<noteq> preimageSize then Inl (MakerPreimageLength (length preimage))
      else case covclaimdPubKey of None \<Rightarrow> Inl MakerNilPubKey | Some pub \<Rightarrow>
      res_bind (map_err MakerArkadeScript (EnforcePayTo L receiverPkScript)) (\<lambda>arkadeScript.
      res_bind (map_err MakerEncrypt (Encrypt L newPrivateKey randNonce (Some pub) preimage))
        (\<lambda>ciphertext.
      map_err MakerSerialize (ToPacket
        \<lparr>Ciphertext = ciphertext, ArkadeScript = arkadeScript,
         CovclaimdPubKey = serialize_compressed L pub, MinAmount = None\<rparr>))))"

section \<open>Lemmas\<close>

lemma BuildPacket_Inr:
  "BuildPacket L newPrivateKey randNonce preimage (Some pub) receiver = Inr pkt \<longleftrightarrow>
     length preimage = 32 \<and>
     (\<exists>s ct body. EnforcePayTo L receiver = Inr s \<and>
        EncryptWithAAD L newPrivateKey randNonce (Some pub) preimage [] = Inr ct \<and>
        Serialize \<lparr>Ciphertext = ct, ArkadeScript = s,
          CovclaimdPubKey = serialize_compressed L pub, MinAmount = None\<rparr> = Inr body \<and>
        pkt = UnknownPacket PacketType body)"
  by (auto simp: BuildPacket_def Encrypt_def ToPacket_def preimageSize_def res_simps)

lemma FindClaim_first:
  assumes "extension_laws L" and "find (\<lambda>p. packet_type p = PacketType) ext = Some (UnknownPacket t body)"
    and "DeserializeClaim body = Inr p"
  shows "FindClaim L ext = Inr (Some p)"
  using assms by (simp add: FindClaim_def extension_laws_def)

lemma EnforcePayTo_length: "script_laws L \<Longrightarrow> EnforcePayTo L r = Inr s \<Longrightarrow> length s \<le> 10000"
  by (auto simp: EnforcePayTo_Inr dest: script_lawsD(5))

text \<open>What the daemon finds of a packet built for its key.\<close>

lemma BuildPacket_opens:
  assumes "ecies_laws L" and "script_laws L" and "extension_laws L"
    and built: "BuildPacket L newPrivateKey randNonce preimage (Some (pub_key L sk)) receiver = Inr pkt"
    and first: "find (\<lambda>p. packet_type p = PacketType) ext = Some pkt"
  shows "\<exists>p. FindClaim L ext = Inr (Some p) \<and>
    packet_Decrypt L (Some sk) p = Inr preimage \<and>
    EnforcePayTo L receiver = Inr (ArkadeScript p) \<and> MinAmount p = None \<and>
    (\<forall>pub. SealedToAnother p pub \<longleftrightarrow> pub \<noteq> serialize_compressed L (pub_key L sk))"
proof -
  from built obtain s ct body where l: "length preimage = 32" and e: "EnforcePayTo L receiver = Inr s"
    and c: "EncryptWithAAD L newPrivateKey randNonce (Some (pub_key L sk)) preimage [] = Inr ct"
    and b: "Serialize \<lparr>Ciphertext = ct, ArkadeScript = s,
      CovclaimdPubKey = serialize_compressed L (pub_key L sk), MinAmount = None\<rparr> = Inr body"
      (is "Serialize ?p = _")
    and pkt: "pkt = UnknownPacket PacketType body"
    by (auto simp: BuildPacket_Inr)
  note ct = EncryptWithAAD_opens [OF assms(1) c]
  have "DeserializeClaim body = Inr ?p"
    using b by (rule DeserializeClaim_Serialize)
      (use ct l EnforcePayTo_length [OF assms(2) e] in simp_all)
  then have "FindClaim L ext = Inr (Some ?p)"
    using first pkt by (intro FindClaim_first [OF assms(3)]) simp_all
  moreover have "ValidateArkadeScript L s = Inr receiver"
    by (rule ValidateArkadeScript_complete [OF assms(2) e])
  ultimately show ?thesis
    using ct l e ecies_lawsD(1) [OF assms(1), of "pub_key L sk"]
    by (auto simp: packet_Decrypt_Inr minAmountBytes_def SealedToAnother_def AddressedTo_def
        compressedPubKeyLen_def)
qed

text \<open>A packet on the sample instance, for any preimage of the right length.\<close>

lemma BuildPacket_sample:
  assumes "length preimage = 32"
  shows "\<exists>pkt. BuildPacket toy (Inr 3) (Inr [1]) preimage (Some (pub_key toy 5)) sample_receiver = Inr pkt"
proof -
  obtain ct where ct: "EncryptWithAAD toy (Inr 3) (Inr [1]) (Some (pub_key toy 5)) preimage [] = Inr ct"
    by (rule EncryptWithAAD_succeeds)
  then have l: "length ct = 93"
    using assms by (auto dest: EncryptWithAAD_opens(2) [OF toy_ecies_laws])
  let ?p = "\<lparr>Ciphertext = ct, ArkadeScript = sample_script,
      CovclaimdPubKey = serialize_compressed toy (pub_key toy 5), MinAmount = None\<rparr>"
  have "Serialize ?p = Inr (encode_tlvs (packet_tlvs ?p))"
    using l ecies_lawsD(1) [OF toy_ecies_laws] by (auto simp: Serialize_Inr sample_script_def)
  with ct EnforcePayTo_sample assms show ?thesis
    by (auto simp: BuildPacket_Inr)
qed

section \<open>Properties\<close>

text \<open>
  A packet built for the key of \<open>sk\<close> and found in an extension is opened by the covclaimd that
  holds \<open>sk\<close>, and by the addressing rule declined by every other one: the decoded packet names
  exactly that key, decrypts to the maker's preimage and pays the maker's receiver.
\<close>

theorem maker_packet_is_opened:
  assumes "ecies_laws L" and "script_laws L" and "extension_laws L"
    and "BuildPacket L newPrivateKey randNonce preimage (Some (pub_key L sk)) receiver = Inr pkt"
    and "find (\<lambda>p. packet_type p = PacketType) ext = Some pkt"
  shows "\<exists>p. FindClaim L ext = Inr (Some p) \<and>
    packet_Decrypt L (Some sk) p = Inr preimage \<and>
    ValidateArkadeScript L (ArkadeScript p) = Inr receiver \<and>
    (\<forall>pub. SealedToAnother p pub \<longleftrightarrow> pub \<noteq> serialize_compressed L (pub_key L sk))"
  using BuildPacket_opens [OF assms] ValidateArkadeScript_complete [OF assms(2)] by blast

theorem maker_packet_is_opened_witness:
  "\<exists>pkt p. BuildPacket toy (Inr 3) (Inr [1]) (replicate 32 7) (Some (pub_key toy 5)) sample_receiver
      = Inr pkt \<and>
    FindClaim toy [KnownPacket 1 ''x'', pkt] = Inr (Some p) \<and>
    packet_Decrypt toy (Some 5) p = Inr (replicate 32 7)"
proof -
  obtain pkt where b: "BuildPacket toy (Inr 3) (Inr [1]) (replicate 32 7) (Some (pub_key toy 5)) sample_receiver
      = Inr pkt"
    using BuildPacket_sample [of "replicate 32 7"] by auto
  then have "find (\<lambda>p. packet_type p = PacketType) [KnownPacket 1 ''x'', pkt] = Some pkt"
    by (auto simp: BuildPacket_Inr PacketType_def)
  from maker_packet_is_opened [OF toy_laws b this] b show ?thesis
    by blast
qed

end
