(* ===== verification/Claim.thy ===== *)
theory Claim
  imports Contract
begin

text \<open>
  \<open>pkg/preimage/claim.go\<close>: the credentials of a matched claim, the search for the claim closure in a
  taptree, and the construction of the unsigned spending transactions. \<open>SetArkPsbtField\<close> writes into
  its PSBT; here it returns the PSBT it has written.
\<close>

section \<open>Model\<close>

record claim_credentials =
  CredPreimage :: bytes
  CredArkadeScript :: bytes
  CredTaptree :: "string list"
  CredPkScript :: bytes

record matched_claim =
  MOutpoint :: outpoint
  MAmount :: u64
  MSourceTx :: "msgtx option"
  MCredentials :: claim_credentials

datatype find_error =
    FindCondition contract_error
  | NoConditionClosure nat
  | NoConditionMatch nat
  | NoKeyMatch nat bytes bytes

datatype claim_error =
    MatchedNil
  | NoSourceTx
  | ClaimPreimageLength nat
  | Revalidate contract_error
  | DecodeTaptree string
  | FindClosure find_error
  | EncodeClosure string
  | ComputeTaptree string
  | MerkleProofError string
  | ControlBlockError string
  | EmulatorPacketError string
  | BuildExtension string
  | ExtensionTxOutError string
  | BuildOffchainTxs string
  | SetPrevArkTx string
  | SetConditionWitness string
  | SetCheckpointWitness nat string
  | B64EncodeError string
  | SubmitTxError string

definition hasExactlyTwoKeys :: "('priv, 'pub) ext \<Rightarrow> 'pub list \<Rightarrow> 'pub \<Rightarrow> 'pub \<Rightarrow> bool" where
  "hasExactlyTwoKeys L pubKeys a b =
     (if length pubKeys \<noteq> 2 then False
      else
        let wantA = serialize_schnorr L a;
            wantB = serialize_schnorr L b;
            k0 = serialize_schnorr L (pubKeys ! 0);
            k1 = serialize_schnorr L (pubKeys ! 1)
        in (k0 = wantA \<and> k1 = wantB) \<or> (k0 = wantB \<and> k1 = wantA))"

text \<open>The loop of \<open>findClaimClosure\<close> with its two counters; \<open>Inl\<close> is falling out of the loop.\<close>

fun find_closure_loop ::
  "('priv, 'pub) ext \<Rightarrow> bytes \<Rightarrow> 'pub \<Rightarrow> 'pub \<Rightarrow> nat \<Rightarrow> nat \<Rightarrow> 'pub closure list \<Rightarrow>
   (nat \<times> nat) + 'pub closure" where
  "find_closure_loop L expectedCondition serverPubKey expectedTweaked
     conditionClosures conditionMatches [] = Inl (conditionClosures, conditionMatches)"
| "find_closure_loop L expectedCondition serverPubKey expectedTweaked
     conditionClosures conditionMatches (c # cs) =
     (case c of
        OtherClosure _ \<Rightarrow>
          find_closure_loop L expectedCondition serverPubKey expectedTweaked
            conditionClosures conditionMatches cs
      | ConditionMultisigClosure keys condition \<Rightarrow>
          if condition \<noteq> expectedCondition then
            find_closure_loop L expectedCondition serverPubKey expectedTweaked
              (conditionClosures + 1) conditionMatches cs
          else if hasExactlyTwoKeys L keys serverPubKey expectedTweaked then Inr c
          else
            find_closure_loop L expectedCondition serverPubKey expectedTweaked
              (conditionClosures + 1) (conditionMatches + 1) cs)"

definition findClaimClosure ::
  "('priv, 'pub) ext \<Rightarrow> 'pub closure list \<Rightarrow> 'pub \<Rightarrow> 'pub \<Rightarrow> bytes \<Rightarrow>
   find_error + 'pub closure" where
  "findClaimClosure L closures serverPubKey expectedTweaked preimage =
     res_bind (map_err FindCondition (preimageCondition L (hash160 L preimage)))
       (\<lambda>expectedCondition.
     case find_closure_loop L expectedCondition serverPubKey expectedTweaked 0 0 closures of
       Inr cmc \<Rightarrow> Inr cmc
     | Inl (conditionClosures, conditionMatches) \<Rightarrow>
         if conditionClosures = 0 then Inl (NoConditionClosure (length closures))
         else if conditionMatches = 0 then Inl (NoConditionMatch conditionClosures)
         else Inl (NoKeyMatch conditionMatches (serialize_schnorr L serverPubKey)
                (serialize_schnorr L expectedTweaked)))"

text \<open>The last loop of \<open>BuildClaim\<close>: the condition witness on every checkpoint, from number \<open>i\<close> on.\<close>

fun set_checkpoint_witnesses ::
  "('priv, 'pub) ext \<Rightarrow> bytes list \<Rightarrow> nat \<Rightarrow> psbt list \<Rightarrow> claim_error + psbt list" where
  "set_checkpoint_witnesses L witness i [] = Inr []"
| "set_checkpoint_witnesses L witness i (cp # cps) =
     res_bind (map_err (SetCheckpointWitness i) (set_condition_witness L cp 0 witness)) (\<lambda>cp'.
     res_bind (set_checkpoint_witnesses L witness (i + 1) cps) (\<lambda>cps'. Inr (cp' # cps')))"

definition BuildClaim ::
  "('priv, 'pub) ext \<Rightarrow> matched_claim option \<Rightarrow> bytes \<Rightarrow> 'pub \<Rightarrow> 'pub \<Rightarrow>
   claim_error + (psbt \<times> psbt list)" where
  "BuildClaim L matched checkpointTapscriptBytes signerPubKey emulatorPubKey =
     (case matched of None \<Rightarrow> Inl MatchedNil | Some m \<Rightarrow>
      case MSourceTx m of None \<Rightarrow> Inl NoSourceTx | Some sourceTx \<Rightarrow>
      let creds = MCredentials m in
      if length (CredPreimage creds) \<noteq> preimageSize
      then Inl (ClaimPreimageLength (length (CredPreimage creds)))
      else
      res_bind (map_err Revalidate (ValidateArkadeScript L (CredArkadeScript creds)))
        (\<lambda>receiverPkScript.
      res_bind (map_err DecodeTaptree (vtxo_script_decode L (CredTaptree creds))) (\<lambda>vtxoScript.
      let expectedTweaked = emulatorTweakedKey L (CredArkadeScript creds) emulatorPubKey in
      res_bind (map_err FindClosure
        (findClaimClosure L vtxoScript signerPubKey expectedTweaked (CredPreimage creds)))
        (\<lambda>claimClosure.
      res_bind (map_err EncodeClosure (closure_script L claimClosure)) (\<lambda>revealedScript.
      res_bind (map_err ComputeTaptree (tap_tree L vtxoScript)) (\<lambda>(_, tapTree).
      res_bind (map_err MerkleProofError (merkle_proof L tapTree (tap_leaf_hash L revealedScript)))
        (\<lambda>merkleProof.
      res_bind (map_err ControlBlockError (parse_control_block L merkleProof)) (\<lambda>controlBlock.
      res_bind (map_err EmulatorPacketError (new_emulator_packet L 0 (CredArkadeScript creds) []))
        (\<lambda>emulatorPacket.
      res_bind (map_err BuildExtension (new_extension_from_packets L [emulatorPacket])) (\<lambda>ext.
      res_bind (map_err ExtensionTxOutError (extension_tx_out L ext)) (\<lambda>extTxOut.
      let outputs = [\<lparr>TxValue = MAmount m, TxPkScript = receiverPkScript\<rparr>, extTxOut];
          vtxoInput =
            \<lparr>InOutpoint = MOutpoint m, InAmount = MAmount m, InControlBlock = controlBlock,
             InRevealedScript = revealedScript, InRevealedTapscripts = CredTaptree creds\<rparr>
      in
      res_bind (map_err BuildOffchainTxs (build_txs L [vtxoInput] outputs checkpointTapscriptBytes))
        (\<lambda>(arkTx, checkpoints).
      res_bind (map_err SetPrevArkTx (set_prev_ark_tx L arkTx 0 sourceTx)) (\<lambda>arkTx1.
      let preimageWitness = [CredPreimage creds] in
      res_bind (map_err SetConditionWitness (set_condition_witness L arkTx1 0 preimageWitness))
        (\<lambda>arkTx2.
      res_bind (set_checkpoint_witnesses L preimageWitness 0 checkpoints) (\<lambda>checkpoints1.
      Inr (arkTx2, checkpoints1))))))))))))))))"

section \<open>The closure search\<close>

definition claim_closure ::
  "('priv, 'pub) ext \<Rightarrow> bytes \<Rightarrow> 'pub \<Rightarrow> 'pub \<Rightarrow> 'pub closure \<Rightarrow> bool" where
  "claim_closure L condition server tweaked c =
     (case c of OtherClosure _ \<Rightarrow> False
      | ConditionMultisigClosure keys cond \<Rightarrow>
          cond = condition \<and> hasExactlyTwoKeys L keys server tweaked)"

definition is_condition_closure :: "'pub closure \<Rightarrow> bool" where
  "is_condition_closure c =
     (case c of OtherClosure _ \<Rightarrow> False | ConditionMultisigClosure _ _ \<Rightarrow> True)"

definition has_condition :: "bytes \<Rightarrow> 'pub closure \<Rightarrow> bool" where
  "has_condition condition c =
     (case c of OtherClosure _ \<Rightarrow> False | ConditionMultisigClosure _ cond \<Rightarrow> cond = condition)"

lemma closure_tests [simp]:
  "claim_closure L condition server tweaked (ConditionMultisigClosure keys cond) \<longleftrightarrow>
     cond = condition \<and> hasExactlyTwoKeys L keys server tweaked"
  "\<not> claim_closure L condition server tweaked (OtherClosure x)"
  "is_condition_closure (ConditionMultisigClosure keys cond)"
  "\<not> is_condition_closure (OtherClosure x)"
  "has_condition condition (ConditionMultisigClosure keys cond) \<longleftrightarrow> cond = condition"
  "\<not> has_condition condition (OtherClosure x)"
  by (simp_all add: claim_closure_def is_condition_closure_def has_condition_def)

lemma hasExactlyTwoKeys_iff:
  "hasExactlyTwoKeys L keys a b \<longleftrightarrow>
     map (serialize_schnorr L) keys = map (serialize_schnorr L) [a, b] \<or>
     map (serialize_schnorr L) keys = map (serialize_schnorr L) [b, a]"
proof (cases "length keys = 2")
  case True
  then obtain k0 k1 where "keys = [k0, k1]"
    by (auto simp: numeral_2_eq_2 length_Suc_conv)
  then show ?thesis
    by (auto simp: hasExactlyTwoKeys_def Let_def)
next
  case False
  then have "map (serialize_schnorr L) keys \<noteq> map (serialize_schnorr L) [x, y]" for x y
    by (metis One_nat_def Suc_1 length_Cons length_map list.size(3))
  with False show ?thesis
    by (simp add: hasExactlyTwoKeys_def)
qed

lemma find_closure_loop_eq:
  "find_closure_loop L cond server tweaked n m cs =
     (case find (claim_closure L cond server tweaked) cs of
        Some c \<Rightarrow> Inr c
      | None \<Rightarrow> Inl (n + length (filter is_condition_closure cs),
                   m + length (filter (has_condition cond) cs)))"
proof (induction cs arbitrary: n m)
  case Nil
  then show ?case by simp
next
  case (Cons c cs)
  then show ?case by (cases c) (auto split: option.split)
qed

lemma findClaimClosure_Inr:
  "findClaimClosure L cs server tweaked preimage = Inr c \<longleftrightarrow>
     (\<exists>cond. preimageCondition L (hash160 L preimage) = Inr cond \<and>
        find (claim_closure L cond server tweaked) cs = Some c)"
  by (auto simp: findClaimClosure_def res_simps find_closure_loop_eq Let_def
      split: option.splits if_splits sum.splits prod.splits)

lemma find_Some_ex: "x \<in> set xs \<Longrightarrow> P x \<Longrightarrow> \<exists>y. find P xs = Some y"
  by (induction xs) auto

lemma CovenantClaimClosure_claims:
  assumes "CovenantClaimClosure L (hash160 L preimage) receiver (Some server) (Some emulator) = Inr c"
    and "EnforcePayTo L receiver = Inr s"
  shows "\<exists>cond. preimageCondition L (hash160 L preimage) = Inr cond \<and>
    claim_closure L cond server (emulatorTweakedKey L s emulator) c"
  using assms by (auto simp: CovenantClaimClosure_def res_simps hasExactlyTwoKeys_iff)

section \<open>The spending transactions\<close>

lemma set_checkpoint_witnesses_Inr:
  "set_checkpoint_witnesses L w i cps = Inr cps' \<longleftrightarrow>
     list_all2 (\<lambda>cp cp'. set_condition_witness L cp 0 w = Inr cp') cps cps'"
  by (induction cps arbitrary: i cps') (auto simp: res_simps list_all2_Cons1)

text \<open>
  The part of \<open>BuildClaim\<close> that can refuse the credentials: the checks of the program itself, before
  any transaction is built.
\<close>

definition credentials_ok ::
  "('priv, 'pub) ext \<Rightarrow> 'pub \<Rightarrow> 'pub \<Rightarrow> claim_credentials \<Rightarrow> bytes \<Rightarrow> 'pub closure list \<Rightarrow>
   'pub closure \<Rightarrow> bool" where
  "credentials_ok L signer emulator creds receiver closures c \<longleftrightarrow>
     length (CredPreimage creds) = 32 \<and>
     ValidateArkadeScript L (CredArkadeScript creds) = Inr receiver \<and>
     vtxo_script_decode L (CredTaptree creds) = Inr closures \<and>
     findClaimClosure L closures signer (emulatorTweakedKey L (CredArkadeScript creds) emulator)
       (CredPreimage creds) = Inr c"

text \<open>The errors of the libraries that build, prove and annotate the transactions.\<close>

definition library_error :: "claim_error \<Rightarrow> bool" where
  "library_error e =
     (case e of
        MatchedNil \<Rightarrow> False | NoSourceTx \<Rightarrow> False | ClaimPreimageLength _ \<Rightarrow> False
      | Revalidate _ \<Rightarrow> False | DecodeTaptree _ \<Rightarrow> False | FindClosure _ \<Rightarrow> False
      | SubmitTxError _ \<Rightarrow> False | B64EncodeError _ \<Rightarrow> False | _ \<Rightarrow> True)"

lemma set_checkpoint_witnesses_Inl:
  "set_checkpoint_witnesses L w i cps = Inl e \<Longrightarrow> library_error e"
  by (induction cps arbitrary: i) (auto simp: res_simps library_error_def)

lemma BuildClaim_library_error:
  assumes "credentials_ok L signer emulator (MCredentials m) receiver closures c"
    and "MSourceTx m \<noteq> None" and "BuildClaim L (Some m) cp signer emulator = Inl e"
  shows "library_error e"
  using assms
  by (auto simp: BuildClaim_def credentials_ok_def Let_def preimageSize_def res_simps library_error_def
      dest: set_checkpoint_witnesses_Inl split: option.splits prod.splits)

section \<open>Sample data for the witnesses\<close>

text \<open>Signer key 2, emulator key 3: the tweaked key is 3 plus the checksum of the script.\<close>

definition sample_preimage :: bytes where "sample_preimage = replicate 32 7"
definition sample_condition :: bytes where
  "sample_condition = [0x82, 1, 32, 0x88, 0xa9, 20] @ replicate 20 7 @ [0x87]"
definition sample_closure :: "u8 closure" where
  "sample_closure = ConditionMultisigClosure [2, 250] sample_condition"
definition sample_taptree :: "string list" where
  "sample_taptree = [bytes_string ([2, 250] @ sample_condition)]"
definition sample_pkscript :: bytes where
  "sample_pkscript = [0x51, 0x20, toy_closure_key sample_closure] @ replicate 31 0"
definition sample_source :: msgtx where
  "sample_source = \<lparr>TxOuts = [\<lparr>TxValue = 50000, TxPkScript = sample_pkscript\<rparr>], MsgRest = []\<rparr>"
definition sample_creds :: claim_credentials where
  "sample_creds = \<lparr>CredPreimage = sample_preimage, CredArkadeScript = sample_script,
     CredTaptree = sample_taptree, CredPkScript = sample_pkscript\<rparr>"
definition sample_matched :: matched_claim where
  "sample_matched = \<lparr>MOutpoint = \<lparr>OutHash = [], OutIndex = 0\<rparr>, MAmount = 50000,
     MSourceTx = Some sample_source, MCredentials = sample_creds\<rparr>"

lemma sample_tweak: "emulatorTweakedKey toy sample_script 3 = 250"
  by (simp add: emulatorTweakedKey_def toy_def sample_script_def make_copy_def sum_list_replicate)

lemma sample_decode: "vtxo_script_decode toy sample_taptree = Inr [sample_closure]"
  by (simp add: toy_def sample_taptree_def sample_closure_def toy_closures_leaf del: toy_closures.simps(2))

lemma sample_preimageCondition: "preimageCondition toy (hash160 toy sample_preimage) = Inr sample_condition"
  by (simp add: preimageCondition_def toy_def toy_tx_def toy_build_def sample_condition_def
      sample_preimage_def make_copy_def preimageSize_def)

lemma sample_find: "findClaimClosure toy [sample_closure] 2 250 sample_preimage = Inr sample_closure"
  by (simp add: findClaimClosure_Inr sample_preimageCondition sample_closure_def hasExactlyTwoKeys_iff)

lemma sample_credentials_ok:
  "credentials_ok toy 2 3 sample_creds sample_receiver [sample_closure] sample_closure"
  by (simp add: credentials_ok_def sample_creds_def ValidateArkadeScript_sample sample_decode
      sample_tweak sample_find) (simp add: sample_preimage_def)

text \<open>Any claim of the sample output builds.\<close>

lemma sample_creds_build:
  assumes "MCredentials m = sample_creds" and "MSourceTx m = Some utx"
  shows "\<exists>txs. BuildClaim toy (Some m) [1] 2 3 = Inr txs"
  using sample_credentials_ok assms
  by (simp add: BuildClaim_def Let_def preimageSize_def credentials_ok_def)
    (simp add: toy_def sample_closure_def toy_psbt_def)

lemma sample_BuildClaim:
  "\<exists>txs. BuildClaim toy (Some sample_matched) [1] 2 3 = Inr txs"
  by (rule sample_creds_build) (simp_all add: sample_matched_def)

section \<open>Properties\<close>

text \<open>
  C25: the closure search returns the first closure that is a condition multisig of exactly the signer's
  and the tweaked emulator's key, in either order, under the hash-lock condition of the preimage;
  when there is none, the error says which of the three requirements was met by no closure, with
  the number of closures that met the ones before.
\<close>

theorem find_claim_closure_spec:
  "findClaimClosure L cs server tweaked preimage =
     res_bind (map_err FindCondition (preimageCondition L (hash160 L preimage))) (\<lambda>cond.
       case find (claim_closure L cond server tweaked) cs of
         Some c \<Rightarrow> Inr c
       | None \<Rightarrow>
           Inl (if list_all (\<lambda>c. \<not> is_condition_closure c) cs then NoConditionClosure (length cs)
                else if list_all (\<lambda>c. \<not> has_condition cond c) cs
                then NoConditionMatch (length (filter is_condition_closure cs))
                else NoKeyMatch (length (filter (has_condition cond) cs))
                       (serialize_schnorr L server) (serialize_schnorr L tweaked)))"
  by (auto simp: findClaimClosure_def find_closure_loop_eq list_all_iff filter_empty_conv
      intro!: arg_cong2 [where f = res_bind] split: option.split)

text \<open>
  The closure a maker builds with \<open>CovenantClaimClosure\<close> is recognised by the bot: a taptree that
  contains it yields a claim closure for the same preimage, signer and arkade script.
\<close>

theorem maker_closure_is_found:
  assumes "CovenantClaimClosure L (hash160 L preimage) receiver (Some server) (Some emulator) = Inr c"
    and "EnforcePayTo L receiver = Inr s" and "c \<in> set cs"
  shows "\<exists>c'. findClaimClosure L cs server (emulatorTweakedKey L s emulator) preimage = Inr c'"
  using CovenantClaimClosure_claims [OF assms(1,2)] find_Some_ex [OF assms(3)]
  by (auto simp: findClaimClosure_Inr)

theorem maker_closure_is_found_witness:
  "\<exists>c'. findClaimClosure toy [OtherClosure ''exit'', sample_closure] 2
      (emulatorTweakedKey toy sample_script 3) sample_preimage = Inr c'"
proof (rule maker_closure_is_found)
  show "CovenantClaimClosure toy (hash160 toy sample_preimage) sample_receiver (Some 2) (Some 3) =
      Inr sample_closure"
    by (simp add: CovenantClaimClosure_def EnforcePayTo_sample sample_preimageCondition sample_tweak
        sample_closure_def)
qed (simp_all add: EnforcePayTo_sample)

text \<open>
  C26: when \<open>BuildClaim\<close> succeeds, the transactions it returns were built from one input, the matched
  outpoint with its full amount spent through the claim closure, and two outputs, the first paying
  that same amount to the receiver the arkade script enforces; the ark transaction carries the source
  transaction, and it and every checkpoint the preimage as condition witness.
\<close>

theorem build_claim_pays_receiver:
  assumes "BuildClaim L (Some m) cp signer emulator = Inr (arkTx, checkpoints)"
  shows "\<exists>src receiver closures c revealed control extOut ark0 ark1 cps0.
    MSourceTx m = Some src \<and>
    credentials_ok L signer emulator (MCredentials m) receiver closures c \<and>
    EnforcePayTo L receiver = Inr (CredArkadeScript (MCredentials m)) \<and>
    closure_script L c = Inr revealed \<and>
    build_txs L
      [\<lparr>InOutpoint = MOutpoint m, InAmount = MAmount m, InControlBlock = control,
        InRevealedScript = revealed, InRevealedTapscripts = CredTaptree (MCredentials m)\<rparr>]
      [\<lparr>TxValue = MAmount m, TxPkScript = receiver\<rparr>, extOut] cp = Inr (ark0, cps0) \<and>
    set_prev_ark_tx L ark0 0 src = Inr ark1 \<and>
    set_condition_witness L ark1 0 [CredPreimage (MCredentials m)] = Inr arkTx \<and>
    list_all2 (\<lambda>c0 c1. set_condition_witness L c0 0 [CredPreimage (MCredentials m)] = Inr c1)
      cps0 checkpoints"
proof (cases "MSourceTx m")
  case None
  with assms show ?thesis by (simp add: BuildClaim_def)
next
  case (Some src)
  from assms Some show ?thesis
    by (clarsimp simp: BuildClaim_def credentials_ok_def Let_def preimageSize_def res_simps
        set_checkpoint_witnesses_Inr ValidateArkadeScript_enforces split: prod.splits if_splits) blast
qed

theorem build_claim_pays_receiver_witness:
  "\<exists>src revealed control extOut ark0 cps0. MSourceTx sample_matched = Some src \<and>
    build_txs toy
      [\<lparr>InOutpoint = MOutpoint sample_matched, InAmount = 50000, InControlBlock = control,
        InRevealedScript = revealed, InRevealedTapscripts = sample_taptree\<rparr>]
      [\<lparr>TxValue = 50000, TxPkScript = sample_receiver\<rparr>, extOut] [1] = Inr (ark0, cps0)"
proof -
  obtain arkTx checkpoints where "BuildClaim toy (Some sample_matched) [1] 2 3 = Inr (arkTx, checkpoints)"
    using sample_BuildClaim by auto
  from build_claim_pays_receiver [OF this] show ?thesis
    using sample_credentials_ok
    by (fastforce simp: sample_matched_def sample_creds_def credentials_ok_def)
qed

end
