(* ===== verification/Claimer.thy ===== *)
theory Claimer
  imports Packet Claim
begin

text \<open>
  \<open>pkg/preimage/claimer.go\<close>, with \<open>Config\<close> of \<open>plugin.go\<close>: the core both plugins share. The calls that
  leave the process are functions of the model: the indexer answers a query for spendable VTXOs at
  the moment of the call, the emulator answers a submitted bundle. Logging, timing and contexts have
  no effect on the results and are left out.
\<close>

section \<open>Model\<close>

text \<open>
  \<open>Config\<close>: a client handle, a key or a logger that is nil is \<open>None\<close>. A \<open>claimer\<close> exists only for a
  validated configuration, so its fields are the values themselves.
\<close>

type_synonym handle = nat

record ('priv, 'pub) config =
  CfgIndexer :: "handle option"
  CfgEmulator :: "handle option"
  CfgSecretKey :: "'priv option"
  CfgEmulatorPubKey :: "'pub option"
  CfgSignerPubKey :: "'pub option"
  CfgCheckpointTapscript :: bytes
  CfgLog :: "handle option"

datatype config_error =
    NilIndexerClient
  | NilEmulatorClient
  | NilSecretKey
  | NilCfgEmulatorPubKey
  | NilCfgServerPubKey
  | EmptyCheckpointTapscript

definition validateConfig :: "('priv, 'pub) config \<Rightarrow> config_error option" where
  "validateConfig cfg =
     (if CfgIndexer cfg = None then Some NilIndexerClient
      else if CfgEmulator cfg = None then Some NilEmulatorClient
      else if CfgSecretKey cfg = None then Some NilSecretKey
      else if CfgEmulatorPubKey cfg = None then Some NilCfgEmulatorPubKey
      else if CfgSignerPubKey cfg = None then Some NilCfgServerPubKey
      else if length (CfgCheckpointTapscript cfg) = 0 then Some EmptyCheckpointTapscript
      else None)"

record ('priv, 'pub) claimer =
  SecretKey :: 'priv
  EmulatorPubKey :: 'pub
  SignerPubKey :: 'pub
  CheckpointTapscript :: bytes

definition newClaimer :: "('priv, 'pub) config \<Rightarrow> config_error + ('priv, 'pub) claimer" where
  "newClaimer cfg =
     (case validateConfig cfg of Some e \<Rightarrow> Inl e
      | None \<Rightarrow> Inr \<lparr>SecretKey = the (CfgSecretKey cfg),
          EmulatorPubKey = the (CfgEmulatorPubKey cfg),
          SignerPubKey = the (CfgSignerPubKey cfg),
          CheckpointTapscript = CfgCheckpointTapscript cfg\<rparr>)"

text \<open>
  The indexer's \<open>GetVtxos\<close>: scripts (in hex) and the spendable-only flag, to an error or VTXOs, of
  which the program reads the transaction id. The emulator's \<open>SubmitTx\<close>: the ark transaction and the
  checkpoints in base64, to an error or nothing the program looks at.
\<close>

record vtxo =
  VtxoTxid :: string

type_synonym indexer = "string list \<Rightarrow> bool \<Rightarrow> string + vtxo list"
type_synonym submission = "string \<times> string list"
type_synonym emulator = "submission \<Rightarrow> string + unit"

definition decodePacket ::
  "('priv, 'pub) ext \<Rightarrow> ('priv, 'pub) claimer \<Rightarrow> claim_packet \<Rightarrow> bytes option" where
  "decodePacket L c pkt =
     (case packet_Decrypt L (Some (SecretKey c)) pkt of Inl _ \<Rightarrow> None | Inr preimg \<Rightarrow> Some preimg)"

definition underfunded :: "claim_packet \<Rightarrow> txout \<Rightarrow> bool" where
  "underfunded pkt out = (if \<not> Underfunds pkt (TxValue out) then False else True)"

text \<open>Both callers have checked that \<open>tx.UnsignedTx\<close> is not nil.\<close>

definition matchOutput ::
  "('priv, 'pub) ext \<Rightarrow> ('priv, 'pub) claimer \<Rightarrow> psbt \<Rightarrow> nat \<Rightarrow> claim_packet \<Rightarrow> bytes \<Rightarrow> 'pub \<Rightarrow>
   matched_claim option" where
  "matchOutput L c tx i pkt preimg expectedTweaked =
     (case UnsignedTx tx of None \<Rightarrow> None | Some utx \<Rightarrow>
      if i \<ge> length (TxOuts utx) \<or> i \<ge> length (POutputs tx) then None
      else
        let out = TxOuts utx ! i;
            po = POutputs tx ! i
        in if length (TaprootTapTree po) = 0 then None
        else case decode_tap_tree L (TaprootTapTree po) of Inl _ \<Rightarrow> None | Inr scripts \<Rightarrow>
        (case vtxo_script_decode L scripts of Inl _ \<Rightarrow> None | Inr vs \<Rightarrow>
        (case findClaimClosure L vs (SignerPubKey c) expectedTweaked preimg of
           Inl _ \<Rightarrow> None | Inr _ \<Rightarrow>
        (case tap_tree L vs of Inl _ \<Rightarrow> None | Inr (tapKey, _) \<Rightarrow>
        (case p2tr_script L tapKey of Inl _ \<Rightarrow> None | Inr expectedPk \<Rightarrow>
         if TxPkScript out \<noteq> expectedPk then None
         else if underfunded pkt out then None
         else Some
           \<lparr>MOutpoint = \<lparr>OutHash = tx_hash L utx, OutIndex = word_of_nat i\<rparr>,
            MAmount = TxValue out,
            MSourceTx = Some utx,
            MCredentials =
              \<lparr>CredPreimage = preimg, CredArkadeScript = ArkadeScript pkt,
               CredTaptree = scripts, CredPkScript = expectedPk\<rparr>\<rparr>)))))"

definition gateSpendable :: "indexer \<Rightarrow> matched_claim \<Rightarrow> matched_claim option" where
  "gateSpendable idx m =
     (case idx [hex_encode (CredPkScript (MCredentials m))] True of
        Inl _ \<Rightarrow> None
      | Inr vtxos \<Rightarrow> if length vtxos = 0 then None else Some m)"

fun encode_checkpoints :: "('priv, 'pub) ext \<Rightarrow> psbt list \<Rightarrow> claim_error + string list" where
  "encode_checkpoints L [] = Inr []"
| "encode_checkpoints L (cp # cps) =
     res_bind (map_err B64EncodeError (b64_encode L cp)) (\<lambda>b64.
     res_bind (encode_checkpoints L cps) (\<lambda>rest. Inr (b64 # rest)))"

text \<open>
  \<open>claim\<close> up to the call of the emulator, and the whole of it: its result, and the bundle it has
  submitted, if it got that far.
\<close>

definition claim_bundle ::
  "('priv, 'pub) ext \<Rightarrow> ('priv, 'pub) claimer \<Rightarrow> matched_claim \<Rightarrow> claim_error + submission" where
  "claim_bundle L c m =
     res_bind (BuildClaim L (Some m) (CheckpointTapscript c) (SignerPubKey c) (EmulatorPubKey c))
       (\<lambda>(arkTx, checkpoints).
     res_bind (map_err B64EncodeError (b64_encode L arkTx)) (\<lambda>arkTxB64.
     res_bind (encode_checkpoints L checkpoints) (\<lambda>cpB64.
     Inr (arkTxB64, cpB64))))"

definition claim ::
  "('priv, 'pub) ext \<Rightarrow> ('priv, 'pub) claimer \<Rightarrow> emulator \<Rightarrow> matched_claim \<Rightarrow>
   (claim_error + unit) \<times> submission option" where
  "claim L c emu m =
     (case claim_bundle L c m of
        Inl e \<Rightarrow> (Inl e, None)
      | Inr bundle \<Rightarrow> (map_err SubmitTxError (emu bundle), Some bundle))"

section \<open>What a match means\<close>

text \<open>A decoded taptree commits to an output script.\<close>

definition taptree_pays ::
  "('priv, 'pub) ext \<Rightarrow> string list \<Rightarrow> 'pub closure list \<Rightarrow> bytes \<Rightarrow> bool" where
  "taptree_pays L scripts vs pkScript \<longleftrightarrow>
     vtxo_script_decode L scripts = Inr vs \<and>
     (\<exists>key tree. tap_tree L vs = Inr (key, tree) \<and> p2tr_script L key = Inr pkScript)"

text \<open>
  A claim is sound for a packet: it spends an output of the source transaction, with that output's
  value as its amount, which is not below the packet's minimum; the packet decrypts to the
  preimage; and the taptree holds the claim closure and commits to the output's script.
\<close>

definition sound_claim ::
  "('priv, 'pub) ext \<Rightarrow> ('priv, 'pub) claimer \<Rightarrow> claim_packet \<Rightarrow> matched_claim \<Rightarrow> bool" where
  "sound_claim L c pkt m \<longleftrightarrow>
     (\<exists>utx i. MSourceTx m = Some utx \<and> i < length (TxOuts utx) \<and>
        MOutpoint m = \<lparr>OutHash = tx_hash L utx, OutIndex = word_of_nat i\<rparr> \<and>
        MAmount m = TxValue (TxOuts utx ! i) \<and>
        CredPkScript (MCredentials m) = TxPkScript (TxOuts utx ! i) \<and>
        \<not> Underfunds pkt (TxValue (TxOuts utx ! i))) \<and>
     packet_Decrypt L (Some (SecretKey c)) pkt = Inr (CredPreimage (MCredentials m)) \<and>
     CredArkadeScript (MCredentials m) = ArkadeScript pkt \<and>
     (\<exists>vs closure. taptree_pays L (CredTaptree (MCredentials m)) vs (CredPkScript (MCredentials m)) \<and>
        findClaimClosure L vs (SignerPubKey c) (emulatorTweakedKey L (ArkadeScript pkt) (EmulatorPubKey c))
          (CredPreimage (MCredentials m)) = Inr closure)"

lemma newClaimer_Inr:
  "newClaimer cfg = Inr c \<longleftrightarrow>
     CfgIndexer cfg \<noteq> None \<and> CfgEmulator cfg \<noteq> None \<and> CfgSecretKey cfg = Some (SecretKey c) \<and>
     CfgEmulatorPubKey cfg = Some (EmulatorPubKey c) \<and> CfgSignerPubKey cfg = Some (SignerPubKey c) \<and>
     CfgCheckpointTapscript cfg = CheckpointTapscript c \<and> CheckpointTapscript c \<noteq> []"
  by (cases c) (auto simp: newClaimer_def validateConfig_def split: option.splits if_splits)

lemma decodePacket_Some:
  "decodePacket L c pkt = Some x \<longleftrightarrow> packet_Decrypt L (Some (SecretKey c)) pkt = Inr x"
  by (simp add: decodePacket_def split: sum.splits)

lemma underfunded_iff [simp]: "underfunded pkt out \<longleftrightarrow> Underfunds pkt (TxValue out)"
  by (simp add: underfunded_def)

lemma gateSpendable_Some:
  "gateSpendable idx m = Some m' \<longleftrightarrow>
     m' = m \<and> (\<exists>v vs. idx [hex_encode (CredPkScript (MCredentials m))] True = Inr (v # vs))"
  by (auto simp: gateSpendable_def split: sum.splits) (metis list.exhaust)

lemma matchOutput_Some:
  "matchOutput L c tx i pkt preimg tweaked = Some m \<longleftrightarrow>
     (\<exists>utx scripts vs closure pk. UnsignedTx tx = Some utx \<and>
        i < length (TxOuts utx) \<and> i < length (POutputs tx) \<and>
        TaprootTapTree (POutputs tx ! i) \<noteq> [] \<and>
        decode_tap_tree L (TaprootTapTree (POutputs tx ! i)) = Inr scripts \<and>
        taptree_pays L scripts vs pk \<and>
        findClaimClosure L vs (SignerPubKey c) tweaked preimg = Inr closure \<and>
        TxPkScript (TxOuts utx ! i) = pk \<and> \<not> Underfunds pkt (TxValue (TxOuts utx ! i)) \<and>
        m = \<lparr>MOutpoint = \<lparr>OutHash = tx_hash L utx, OutIndex = word_of_nat i\<rparr>,
             MAmount = TxValue (TxOuts utx ! i), MSourceTx = Some utx,
             MCredentials = \<lparr>CredPreimage = preimg, CredArkadeScript = ArkadeScript pkt,
               CredTaptree = scripts, CredPkScript = pk\<rparr>\<rparr>)"
  by (auto simp: matchOutput_def taptree_pays_def Let_def
      split: option.splits sum.splits if_splits prod.splits)

lemma matchOutput_sound:
  assumes "matchOutput L c tx i pkt preimg (emulatorTweakedKey L (ArkadeScript pkt) (EmulatorPubKey c))
      = Some m"
    and "packet_Decrypt L (Some (SecretKey c)) pkt = Inr preimg"
  shows "sound_claim L c pkt m"
  using assms by (auto simp: matchOutput_Some sound_claim_def)

text \<open>A sound claim passes every check of \<open>BuildClaim\<close> that is the program's own.\<close>

lemma sound_claim_credentials:
  assumes "sound_claim L c pkt m"
  shows "\<exists>receiver vs closure.
    credentials_ok L (SignerPubKey c) (EmulatorPubKey c) (MCredentials m) receiver vs closure"
  using assms by (auto simp: sound_claim_def credentials_ok_def taptree_pays_def packet_Decrypt_Inr)

lemma encode_checkpoints_Inl: "encode_checkpoints L cps = Inl e \<Longrightarrow> \<exists>x. e = B64EncodeError x"
  by (induction cps) (auto simp: res_simps)

lemma claim_bundle_error:
  assumes "sound_claim L c pkt m" and "claim_bundle L c m = Inl e"
  shows "library_error e \<or> (\<exists>x. e = B64EncodeError x)"
proof -
  obtain receiver vs closure where
    "credentials_ok L (SignerPubKey c) (EmulatorPubKey c) (MCredentials m) receiver vs closure"
    using sound_claim_credentials [OF assms(1)] by blast
  moreover have "MSourceTx m \<noteq> None"
    using assms(1) by (auto simp: sound_claim_def)
  ultimately show ?thesis
    using assms(2) BuildClaim_library_error
    by (fastforce simp: claim_bundle_def res_simps dest: encode_checkpoints_Inl split: prod.splits)
qed

section \<open>Sample data for the witnesses\<close>

text \<open>A claimer with secret key 5, and a packet sealed to it with a minimum of 50000 sats.\<close>

definition sample_claimer :: "(u8, u8) claimer" where
  "sample_claimer = \<lparr>SecretKey = 5, EmulatorPubKey = 3, SignerPubKey = 2, CheckpointTapscript = [1]\<rparr>"

definition sample_blob :: bytes where
  "sample_blob =
     (case EncryptWithAAD toy (Inr 3) (Inr [1]) (Some 5) sample_preimage (append_uint64 50000) of
        Inl _ \<Rightarrow> [] | Inr blob \<Rightarrow> blob)"

definition sample_claim_packet :: claim_packet where
  "sample_claim_packet =
     \<lparr>Ciphertext = sample_blob, ArkadeScript = sample_script, CovclaimdPubKey = toy_serialize 5,
      MinAmount = Some 50000\<rparr>"

definition sample_body :: bytes where
  "sample_body = encode_tlvs (packet_tlvs sample_claim_packet)"

lemma sample_blob_opens:
  "DecryptWithAAD toy (Some 5) sample_blob (append_uint64 50000) = Inr sample_preimage"
  "length sample_blob = 93"
proof -
  obtain blob where e: "EncryptWithAAD toy (Inr 3) (Inr [1]) (Some 5) sample_preimage
      (append_uint64 50000) = Inr blob"
    by (rule EncryptWithAAD_succeeds)
  then have "sample_blob = blob"
    by (simp add: sample_blob_def)
  moreover have "(5 :: u8) = pub_key toy 5"
    by (simp add: toy_def)
  ultimately show "DecryptWithAAD toy (Some 5) sample_blob (append_uint64 50000) = Inr sample_preimage"
    and "length sample_blob = 93"
    using EncryptWithAAD_opens [OF toy_ecies_laws, of "Inr 3" "Inr [1]" 5 sample_preimage] e
    by (simp_all add: sample_preimage_def)
qed

lemma sample_decrypt: "packet_Decrypt toy (Some 5) sample_claim_packet = Inr sample_preimage"
  using sample_blob_opens
  by (simp add: packet_Decrypt_Inr sample_claim_packet_def ValidateArkadeScript_sample
      minAmountBytes_def) (simp add: sample_preimage_def)

lemma sample_deserialize: "DeserializeClaim sample_body = Inr sample_claim_packet"
  by (rule DeserializeClaim_Serialize)
    (use sample_blob_opens(2) in
      \<open>auto simp: Serialize_Inr sample_body_def sample_claim_packet_def sample_script_def\<close>)

lemma sample_taptree_pays: "taptree_pays toy sample_taptree [sample_closure] sample_pkscript"
  by (simp add: taptree_pays_def sample_decode) (simp add: toy_def sample_pkscript_def)

end
