(* ===== verification/Plugin.thy ===== *)
theory Plugin
  imports Maker Claimer "HOL-Library.Sublist"
begin

text \<open>
  \<open>pkg/preimage/plugin.go\<close>: the encrypted plugin, which takes the claim packet from the Arkade
  extension of the streamed transaction. An intent handed to \<open>Solve\<close> is a matched claim or a value of
  another type.
\<close>

section \<open>Model\<close>

datatype intent = ClaimIntent matched_claim | OtherIntent

record ('priv, 'pub) enc_plugin =
  EncClaimer :: "('priv, 'pub) claimer"
  EncPubKey :: bytes

definition NewPlugin ::
  "('priv, 'pub) ext \<Rightarrow> ('priv, 'pub) config \<Rightarrow> config_error + ('priv, 'pub) enc_plugin" where
  "NewPlugin L cfg =
     res_bind (newClaimer cfg) (\<lambda>c.
     Inr \<lparr>EncClaimer = c, EncPubKey = serialize_compressed L (pub_key L (SecretKey c))\<rparr>)"

definition filter_needle :: "bytes \<Rightarrow> string" where
  "filter_needle pubKey = hex_encode (encodeTLV tlvCovclaimdPubKey pubKey)"

definition enc_Filter :: "('priv, 'pub) enc_plugin \<Rightarrow> string" where
  "enc_Filter p =
     ''has(tx.extension) && hasPacket(tx.extension, '' @ itoa (unat PacketType) @
     '') && tx.extension['' @ itoa (unat PacketType) @ ''].contains('' @ [CHR 0x27] @
     filter_needle (EncPubKey p) @ [CHR 0x27] @ '')''"

definition enc_decode ::
  "('priv, 'pub) ext \<Rightarrow> ('priv, 'pub) enc_plugin \<Rightarrow> psbt \<Rightarrow> extension \<Rightarrow> matched_claim option" where
  "enc_decode L p tx ext =
     (case FindClaim L ext of
        Inl _ \<Rightarrow> None
      | Inr None \<Rightarrow> None
      | Inr (Some pkt) \<Rightarrow>
          if SealedToAnother pkt (EncPubKey p) then None
          else case decodePacket L (EncClaimer p) pkt of None \<Rightarrow> None | Some preimg \<Rightarrow>
          let expectedTweaked = emulatorTweakedKey L (ArkadeScript pkt) (EmulatorPubKey (EncClaimer p))
          in first_some
               (\<lambda>i. matchOutput L (EncClaimer p) tx i pkt preimg expectedTweaked)
               [0..<(case UnsignedTx tx of None \<Rightarrow> 0 | Some utx \<Rightarrow> length (TxOuts utx))])"

text \<open>A nil transaction is \<open>None\<close>.\<close>

definition enc_Match ::
  "('priv, 'pub) ext \<Rightarrow> ('priv, 'pub) enc_plugin \<Rightarrow> indexer \<Rightarrow> psbt option \<Rightarrow>
   matched_claim option" where
  "enc_Match L p idx tx =
     (case tx of None \<Rightarrow> None | Some packet \<Rightarrow>
     (case UnsignedTx packet of None \<Rightarrow> None | Some utx \<Rightarrow>
     (case new_extension_from_tx L utx of
        Inl _ \<Rightarrow> None
      | Inr ext \<Rightarrow>
          (case enc_decode L p packet ext of
             None \<Rightarrow> None
           | Some m \<Rightarrow> gateSpendable idx m))))"

definition enc_Solve ::
  "('priv, 'pub) ext \<Rightarrow> ('priv, 'pub) enc_plugin \<Rightarrow> emulator \<Rightarrow> intent \<Rightarrow> submission option" where
  "enc_Solve L p emu intent =
     (case intent of OtherIntent \<Rightarrow> None | ClaimIntent m \<Rightarrow> snd (claim L (EncClaimer p) emu m))"

section \<open>Matching\<close>

text \<open>
  The conditions on one output, given the packet and the preimage: it carries a taptree
  with the claim closure for this signer, arkade script and preimage, is paid to the script that
  taptree derives, and is not below the packet's minimum.
\<close>

definition claimable_output ::
  "('priv, 'pub) ext \<Rightarrow> ('priv, 'pub) claimer \<Rightarrow> psbt \<Rightarrow> claim_packet \<Rightarrow> bytes \<Rightarrow> nat \<Rightarrow>
   matched_claim \<Rightarrow> bool" where
  "claimable_output L c tx pkt preimg i m \<longleftrightarrow>
     (\<exists>utx scripts vs closure pk. UnsignedTx tx = Some utx \<and>
        i < length (TxOuts utx) \<and> i < length (POutputs tx) \<and>
        TaprootTapTree (POutputs tx ! i) \<noteq> [] \<and>
        decode_tap_tree L (TaprootTapTree (POutputs tx ! i)) = Inr scripts \<and>
        taptree_pays L scripts vs pk \<and>
        findClaimClosure L vs (SignerPubKey c)
          (emulatorTweakedKey L (ArkadeScript pkt) (EmulatorPubKey c)) preimg = Inr closure \<and>
        TxPkScript (TxOuts utx ! i) = pk \<and> \<not> Underfunds pkt (TxValue (TxOuts utx ! i)) \<and>
        m = \<lparr>MOutpoint = \<lparr>OutHash = tx_hash L utx, OutIndex = word_of_nat i\<rparr>,
             MAmount = TxValue (TxOuts utx ! i), MSourceTx = Some utx,
             MCredentials = \<lparr>CredPreimage = preimg, CredArkadeScript = ArkadeScript pkt,
               CredTaptree = scripts, CredPkScript = pk\<rparr>\<rparr>)"

lemma claimable_output_iff:
  "matchOutput L c tx i pkt preimg (emulatorTweakedKey L (ArkadeScript pkt) (EmulatorPubKey c))
     = Some m \<longleftrightarrow> claimable_output L c tx pkt preimg i m"
  by (simp only: matchOutput_Some claimable_output_def)

lemma claimable_output_bound:
  "claimable_output L c tx pkt preimg i m \<Longrightarrow> UnsignedTx tx = Some utx \<Longrightarrow> i < length (TxOuts utx)"
  by (auto simp: claimable_output_def)

lemma matchOutput_None_iff:
  "matchOutput L c tx i pkt preimg (emulatorTweakedKey L (ArkadeScript pkt) (EmulatorPubKey c))
     = None \<longleftrightarrow> (\<nexists>m. claimable_output L c tx pkt preimg i m)"
  by (metis claimable_output_iff option.exhaust option.distinct(1))

text \<open>A packet the plugin goes on with: in the extension, not another's, and it decrypts.\<close>

definition accepted_packet ::
  "('priv, 'pub) ext \<Rightarrow> ('priv, 'pub) enc_plugin \<Rightarrow> extension \<Rightarrow> claim_packet \<Rightarrow> bytes \<Rightarrow> bool" where
  "accepted_packet L p ext pkt preimg \<longleftrightarrow>
     FindClaim L ext = Inr (Some pkt) \<and> \<not> SealedToAnother pkt (EncPubKey p) \<and>
     packet_Decrypt L (Some (SecretKey (EncClaimer p))) pkt = Inr preimg"

lemma enc_decode_Some:
  "enc_decode L p tx ext = Some m \<longleftrightarrow>
     (\<exists>pkt preimg i. accepted_packet L p ext pkt preimg \<and>
        claimable_output L (EncClaimer p) tx pkt preimg i m \<and>
        (\<forall>j<i. \<nexists>m'. claimable_output L (EncClaimer p) tx pkt preimg j m'))"
proof (cases "UnsignedTx tx")
  case None
  then show ?thesis
    by (auto simp: enc_decode_def claimable_output_def Let_def split: option.splits sum.splits)
next
  case (Some utx)
  have "first_some (\<lambda>i. matchOutput L (EncClaimer p) tx i pkt preimg
        (emulatorTweakedKey L (ArkadeScript pkt) (EmulatorPubKey (EncClaimer p))))
        [0..<length (TxOuts utx)] = Some m \<longleftrightarrow>
      (\<exists>i. claimable_output L (EncClaimer p) tx pkt preimg i m \<and>
        (\<forall>j<i. \<nexists>m'. claimable_output L (EncClaimer p) tx pkt preimg j m'))" for pkt preimg
    using claimable_output_bound [OF _ Some]
    by (auto simp: first_some_upt claimable_output_iff matchOutput_None_iff) blast
  then show ?thesis
    by (auto simp: enc_decode_def accepted_packet_def decodePacket_def Let_def Some
        split: option.splits sum.splits)
qed

lemma enc_Match_Some:
  "enc_Match L p idx tx = Some m \<longleftrightarrow>
     (\<exists>packet utx ext. tx = Some packet \<and> UnsignedTx packet = Some utx \<and>
        new_extension_from_tx L utx = Inr ext \<and> enc_decode L p packet ext = Some m \<and>
        (\<exists>v vs. idx [hex_encode (CredPkScript (MCredentials m))] True = Inr (v # vs)))"
  by (auto simp: enc_Match_def gateSpendable_Some split: option.splits sum.splits)

text \<open>The claim packet a transaction carries: there is at most one.\<close>

definition carries_packet :: "('priv, 'pub) ext \<Rightarrow> psbt \<Rightarrow> claim_packet \<Rightarrow> bool" where
  "carries_packet L tx pkt \<longleftrightarrow>
     (\<exists>utx ext. UnsignedTx tx = Some utx \<and> new_extension_from_tx L utx = Inr ext \<and>
        FindClaim L ext = Inr (Some pkt))"

lemma carries_packet_unique: "carries_packet L tx pkt \<Longrightarrow> carries_packet L tx pkt' \<Longrightarrow> pkt' = pkt"
  by (auto simp: carries_packet_def)

lemma claimable_output_sound:
  "claimable_output L c tx pkt preimg i m \<Longrightarrow> packet_Decrypt L (Some (SecretKey c)) pkt = Inr preimg \<Longrightarrow>
     sound_claim L c pkt m \<and> MSourceTx m = UnsignedTx tx"
  by (auto simp: claimable_output_def sound_claim_def)

lemma enc_Match_sound:
  assumes "enc_Match L p idx (Some tx) = Some m"
  shows "\<exists>pkt. carries_packet L tx pkt \<and> \<not> SealedToAnother pkt (EncPubKey p) \<and>
    sound_claim L (EncClaimer p) pkt m \<and> MSourceTx m = UnsignedTx tx"
  using assms
  by (auto simp: enc_Match_Some enc_decode_Some accepted_packet_def carries_packet_def
      dest: claimable_output_sound)

section \<open>The filter\<close>

lemma hex_encode_sublist: "sublist xs ys \<Longrightarrow> sublist (hex_encode xs) (hex_encode ys)"
  unfolding sublist_def by (metis hex_encode_append)

lemma encode_tlvs_sublist: "(t, v) \<in> set tlvs \<Longrightarrow> sublist (encodeTLV t v) (encode_tlvs tlvs)"
  by (auto simp: encode_tlvs_def in_set_conv_decomp intro: sublist_appendI)

section \<open>Properties\<close>

definition sample_plugin :: "(u8, u8) enc_plugin" where
  "sample_plugin = \<lparr>EncClaimer = sample_claimer, EncPubKey = toy_serialize 5\<rparr>"

text \<open>A funding transaction: the first output holds the extension with the packet, the second is claimed.\<close>

definition sample_utx :: msgtx where
  "sample_utx = \<lparr>TxOuts = [\<lparr>TxValue = 0, TxPkScript = 0x6a # sample_body\<rparr>,
     \<lparr>TxValue = 50000, TxPkScript = sample_pkscript\<rparr>], MsgRest = [7]\<rparr>"

lemma sample_extension_script: "hex_encode sample_pkscript \<noteq> hex_encode (0x6a # bs)"
  unfolding hex_encode_inject by (simp add: sample_pkscript_def)

definition sample_tx :: psbt where
  "sample_tx = \<lparr>UnsignedTx = Some sample_utx,
     POutputs = [\<lparr>TaprootTapTree = []\<rparr>, \<lparr>TaprootTapTree = [2, 250] @ sample_condition\<rparr>],
     PsbtRest = []\<rparr>"

definition sample_match :: matched_claim where
  "sample_match =
     \<lparr>MOutpoint = \<lparr>OutHash = [7], OutIndex = 1\<rparr>, MAmount = 50000,
      MSourceTx = Some sample_utx, MCredentials = sample_creds\<rparr>"

lemma sample_plugin_sel [simp]:
  "EncClaimer sample_plugin = sample_claimer" "EncPubKey sample_plugin = toy_serialize 5"
  by (simp_all add: sample_plugin_def)

lemma sample_accepted:
  "accepted_packet toy sample_plugin [UnknownPacket 4 sample_body] sample_claim_packet sample_preimage"
  using sample_decrypt sample_deserialize
  by (simp add: accepted_packet_def sample_claimer_def FindClaim_def PacketType_def
      SealedToAnother_def AddressedTo_def compressedPubKeyLen_def)
    (simp add: toy_def sample_claim_packet_def)

lemma sample_claimable:
  "claimable_output toy sample_claimer sample_tx sample_claim_packet sample_preimage 1 sample_match"
  using sample_taptree_pays sample_find sample_tweak
  by (simp add: claimable_output_def sample_tx_def sample_utx_def sample_match_def sample_claimer_def
      sample_creds_def sample_claim_packet_def Underfunds_def)
    (auto simp: toy_def sample_taptree_def toy_leaves_one)

lemma sample_not_claimable:
  "\<forall>j<1. \<nexists>m. claimable_output toy sample_claimer sample_tx sample_claim_packet sample_preimage j m"
  by (simp add: claimable_output_def sample_tx_def)

lemma sample_tx_parts:
  "UnsignedTx sample_tx = Some sample_utx"
  "new_extension_from_tx toy sample_utx = Inr [UnknownPacket 4 sample_body]"
  by (simp_all add: sample_tx_def toy_def sample_utx_def toy_extension_def)

lemma sample_enc_Match:
  "enc_Match toy sample_plugin (\<lambda>_ _. Inr [\<lparr>VtxoTxid = ''t''\<rparr>]) (Some sample_tx) = Some sample_match"
proof -
  have "enc_decode toy sample_plugin sample_tx [UnknownPacket 4 sample_body] = Some sample_match"
    using sample_accepted sample_claimable sample_not_claimable
    unfolding enc_decode_Some sample_plugin_sel by blast
  then show ?thesis
    using sample_tx_parts by (simp add: enc_Match_Some)
qed

text \<open>
  C1: when the encrypted plugin matches a transaction: exactly when the extension
  carries a claim packet that decodes, is not sealed to another covclaimd and decrypts; the
  matched claim is that of the first output that carries the packet's claim closure in a taptree
  deriving the output's script and holds at least the packet's minimum; and the indexer reports some
  spendable VTXO at that script. It may be any VTXO there: the code does not ask whether it is the
  matched output's, as the README would have it.
\<close>

theorem encrypted_match_iff:
  "enc_Match L p idx (Some tx) = Some m \<longleftrightarrow>
     (\<exists>utx ext pkt preimg i v vs. UnsignedTx tx = Some utx \<and>
        new_extension_from_tx L utx = Inr ext \<and> accepted_packet L p ext pkt preimg \<and>
        claimable_output L (EncClaimer p) tx pkt preimg i m \<and>
        (\<forall>j<i. \<nexists>m'. claimable_output L (EncClaimer p) tx pkt preimg j m') \<and>
        idx [hex_encode (CredPkScript (MCredentials m))] True = Inr (v # vs))"
  by (simp add: enc_Match_Some enc_decode_Some) blast

theorem encrypted_match_iff_witness:
  "enc_Match toy sample_plugin (\<lambda>_ _. Inr [\<lparr>VtxoTxid = ''t''\<rparr>]) (Some sample_tx) = Some sample_match"
  using sample_tx_parts sample_accepted sample_claimable sample_not_claimable
  unfolding encrypted_match_iff sample_plugin_sel by blast

text \<open>
  C2: a claim the encrypted plugin matches is of an output of the transaction it was given, and sound for
  the one packet that transaction carries: this packet is not sealed to another covclaimd, opens to
  the claim's preimage under the plugin's key, and its own minimum is reached by the output.
  Building the bundle can then only fail in a library that builds, proves or encodes the
  transactions: none of the program's own checks refuses it later.
\<close>

theorem encrypted_match_is_sound:
  assumes "enc_Match L p idx (Some tx) = Some m"
  shows "(\<exists>utx ext pkt. UnsignedTx tx = Some utx \<and> new_extension_from_tx L utx = Inr ext \<and>
      FindClaim L ext = Inr (Some pkt) \<and> \<not> SealedToAnother pkt (EncPubKey p) \<and>
      sound_claim L (EncClaimer p) pkt m \<and> MSourceTx m = Some utx) \<and>
    (\<forall>e. claim_bundle L (EncClaimer p) m = Inl e \<longrightarrow> library_error e \<or> (\<exists>x. e = B64EncodeError x))"
  using enc_Match_sound [OF assms] claim_bundle_error by (fastforce simp: carries_packet_def)

theorem encrypted_match_is_sound_witness:
  "FindClaim toy [UnknownPacket 4 sample_body] = Inr (Some sample_claim_packet) \<and>
   sound_claim toy sample_claimer sample_claim_packet sample_match"
  using encrypted_match_is_sound [OF sample_enc_Match] sample_tx_parts sample_accepted
  by (auto simp: accepted_packet_def)

text \<open>
  C37: the server-side filter never drops a packet meant for this covclaimd: the needle it looks for
  occurs in the hex of every body that decodes to a packet addressed to the plugin's key, wherever
  the key's TLV stands in it.
\<close>

theorem filter_selects_addressed:
  assumes "DeserializeClaim body = Inr pkt" and "AddressedTo pkt (EncPubKey p)"
  shows "sublist (filter_needle (EncPubKey p)) (hex_encode body)"
proof -
  obtain tlvs where body: "body = encode_tlvs tlvs"
    and pkt: "pkt = packet_of (map_of (rev tlvs)) empty_packet"
    using assms(1) by (auto simp: DeserializeClaim_Inr)
  have "(tlvCovclaimdPubKey, EncPubKey p) \<in> set tlvs"
    using assms(2) map_of_SomeD [of "rev tlvs" tlvCovclaimdPubKey]
    by (auto simp: pkt AddressedTo_def packet_of_def value_or_def empty_packet_def packet_consts
        split: option.splits)
  then show ?thesis
    unfolding body filter_needle_def by (intro hex_encode_sublist encode_tlvs_sublist)
qed

theorem filter_selects_addressed_witness:
  "sublist (filter_needle (EncPubKey sample_plugin)) (hex_encode sample_body)"
  using filter_selects_addressed [OF sample_deserialize, of sample_plugin]
  by (simp add: AddressedTo_def sample_claim_packet_def compressedPubKeyLen_def)

end
