(* ===== verification/Reveal.thy ===== *)
theory Reveal
  imports Registry Plugin
begin

text \<open>
  \<open>pkg/preimage/reveal_plugin.go\<close>: the reveal plugin. Its state is the registry; the operations take
  it and return it changed. \<open>Match\<close> runs without holding the lock between outputs, so the registry it
  sees at output \<open>i\<close> is an argument \<open>snap i\<close>. \<open>RevealSystem\<close> puts the operations
  together as a step relation.
\<close>

section \<open>Model\<close>

datatype submit_error =
    SubmitPkScript string
  | SubmitDecrypt decrypt_error
  | SubmitDecodeTaptree string
  | SubmitComputeTaptree string
  | SubmitTaptreePkScript string
  | TaptreeMismatch
  | SubmitFindClosure find_error
  | SubmitRegister registry_error

definition NewRevealPlugin ::
  "('priv, 'pub) config \<Rightarrow> config_error + (('priv, 'pub) claimer \<times> registry)" where
  "NewRevealPlugin cfg = res_bind (newClaimer cfg) (\<lambda>c. Inr (c, fmempty))"

definition validateAddress ::
  "('priv, 'pub) ext \<Rightarrow> ('priv, 'pub) claimer \<Rightarrow> string list \<Rightarrow> bytes \<Rightarrow> bytes \<Rightarrow> bytes \<Rightarrow>
   submit_error + unit" where
  "validateAddress L c taptree pkScript arkadeScript preimage =
     res_bind (map_err SubmitDecodeTaptree (vtxo_script_decode L taptree)) (\<lambda>vs.
     res_bind (map_err SubmitComputeTaptree (tap_tree L vs)) (\<lambda>(tapKey, _).
     res_bind (map_err SubmitTaptreePkScript (p2tr_script L tapKey)) (\<lambda>fromTaptree.
     if fromTaptree \<noteq> pkScript then Inl TaptreeMismatch
     else res_bind (map_err SubmitFindClosure
       (findClaimClosure L vs (SignerPubKey c)
         (emulatorTweakedKey L arkadeScript (EmulatorPubKey c)) preimage)) (\<lambda>_. Inr ()))))"

text \<open>\<open>Submit\<close> at time \<open>now\<close>; on success the result is the key its background probe is started with.\<close>

definition Submit ::
  "('priv, 'pub) ext \<Rightarrow> ('priv, 'pub) claimer \<Rightarrow> int \<Rightarrow> bytes \<Rightarrow> string list \<Rightarrow> claim_packet \<Rightarrow>
   registry \<Rightarrow> (submit_error + string) \<times> registry" where
  "Submit L c now swapAddress taptree pkt packets =
     (case map_err SubmitPkScript (address_pk_script L swapAddress) of
        Inl e \<Rightarrow> (Inl e, packets)
      | Inr pkScript \<Rightarrow>
     (case map_err SubmitDecrypt (packet_Decrypt L (Some (SecretKey c)) pkt) of
        Inl e \<Rightarrow> (Inl e, packets)
      | Inr preimg \<Rightarrow>
     (case validateAddress L c taptree pkScript (ArkadeScript pkt) preimg of
        Inl e \<Rightarrow> (Inl e, packets)
      | Inr _ \<Rightarrow>
        let key = hex_encode pkScript;
            (res, packets1) = register now key pkt taptree packets
        in (case res of
              Inl e \<Rightarrow> (Inl (SubmitRegister e), packets1)
            | Inr _ \<Rightarrow> (Inr key, packets1)))))"

text \<open>One iteration of the loop of \<open>matchRegistered\<close>: output \<open>i\<close> against the registry of that moment.\<close>

definition scan_output ::
  "('priv, 'pub) ext \<Rightarrow> ('priv, 'pub) claimer \<Rightarrow> registry \<Rightarrow> msgtx \<Rightarrow> nat \<Rightarrow>
   matched_claim option" where
  "scan_output L c packets utx i =
     (let out = TxOuts utx ! i in
      case fmlookup packets (hex_encode (TxPkScript out)) of
        None \<Rightarrow> None
      | Some reg \<Rightarrow>
          if underfunded (RegPacket reg) out then None
          else case decodePacket L c (RegPacket reg) of
                 None \<Rightarrow> None
               | Some preimg \<Rightarrow> Some
                   \<lparr>MOutpoint = \<lparr>OutHash = tx_hash L utx, OutIndex = word_of_nat i\<rparr>,
                    MAmount = TxValue out,
                    MSourceTx = Some utx,
                    MCredentials =
                      \<lparr>CredPreimage = preimg, CredArkadeScript = ArkadeScript (RegPacket reg),
                       CredTaptree = RegTaptree reg, CredPkScript = TxPkScript out\<rparr>\<rparr>)"

definition matchRegistered ::
  "('priv, 'pub) ext \<Rightarrow> ('priv, 'pub) claimer \<Rightarrow> (nat \<Rightarrow> registry) \<Rightarrow> psbt option \<Rightarrow>
   matched_claim option" where
  "matchRegistered L c snap tx =
     (case tx of None \<Rightarrow> None | Some packet \<Rightarrow>
     (case UnsignedTx packet of None \<Rightarrow> None | Some utx \<Rightarrow>
      first_some (\<lambda>i. scan_output L c (snap i) utx i) [0..<length (TxOuts utx)]))"

definition reveal_Filter :: string where "reveal_Filter = ''''"

definition reveal_Match ::
  "('priv, 'pub) ext \<Rightarrow> ('priv, 'pub) claimer \<Rightarrow> (nat \<Rightarrow> registry) \<Rightarrow> indexer \<Rightarrow> psbt option \<Rightarrow>
   matched_claim option" where
  "reveal_Match L c snap idx tx =
     (case matchRegistered L c snap tx of None \<Rightarrow> None | Some m \<Rightarrow> gateSpendable idx m)"

definition reveal_Solve ::
  "('priv, 'pub) ext \<Rightarrow> ('priv, 'pub) claimer \<Rightarrow> emulator \<Rightarrow> intent \<Rightarrow> registry \<Rightarrow>
   submission option \<times> registry" where
  "reveal_Solve L c emu intent packets =
     (case intent of OtherIntent \<Rightarrow> (None, packets)
      | ClaimIntent m \<Rightarrow>
          let key = hex_encode (CredPkScript (MCredentials m));
              (err, bundle) = claim L c emu m
          in (case err of Inl _ \<Rightarrow> (bundle, packets) | Inr _ \<Rightarrow> (bundle, unregister key packets)))"

text \<open>
  \<open>claimIfAlreadyFunded\<close> up to its call of \<open>Match\<close>: the transaction it hands to \<open>Match\<close>, from the
  answers of \<open>GetVtxos\<close> and \<open>GetVirtualTxs\<close>.
\<close>

type_synonym virtual_txs = "string list \<Rightarrow> string + string list"

definition probe_tx ::
  "('priv, 'pub) ext \<Rightarrow> indexer \<Rightarrow> virtual_txs \<Rightarrow> string \<Rightarrow> psbt option" where
  "probe_tx L idx virtual pkScriptHex =
     (case idx [pkScriptHex] True of Inl _ \<Rightarrow> None | Inr vtxos \<Rightarrow>
      if length vtxos = 0 then None
      else case virtual [VtxoTxid (vtxos ! 0)] of Inl _ \<Rightarrow> None | Inr txs \<Rightarrow>
      if length txs = 0 then None
      else case psbt_from_raw L (txs ! 0) of Inl _ \<Rightarrow> None | Inr tx \<Rightarrow> Some tx)"

definition claimIfAlreadyFunded ::
  "('priv, 'pub) ext \<Rightarrow> ('priv, 'pub) claimer \<Rightarrow> indexer \<Rightarrow> virtual_txs \<Rightarrow> (nat \<Rightarrow> registry) \<Rightarrow>
   indexer \<Rightarrow> emulator \<Rightarrow> string \<Rightarrow> registry \<Rightarrow> submission option \<times> registry" where
  "claimIfAlreadyFunded L c idx virtual snap idx' emu pkScriptHex packets =
     (case probe_tx L idx virtual pkScriptHex of None \<Rightarrow> (None, packets) | Some tx \<Rightarrow>
     (case reveal_Match L c snap idx' (Some tx) of
        None \<Rightarrow> (None, packets)
      | Some m \<Rightarrow> reveal_Solve L c emu (ClaimIntent m) packets))"

section \<open>Registrations are bound to their address\<close>

text \<open>
  An entry is bound to its key: the key is the hex of the script its taptree pays, and the taptree
  holds the claim closure for the packet's arkade script and the preimage it decrypts to.
\<close>

definition bound ::
  "('priv, 'pub) ext \<Rightarrow> ('priv, 'pub) claimer \<Rightarrow> string \<Rightarrow> registration \<Rightarrow> bool" where
  "bound L c key r \<longleftrightarrow>
     (\<exists>pk preimg vs closure. key = hex_encode pk \<and>
        packet_Decrypt L (Some (SecretKey c)) (RegPacket r) = Inr preimg \<and>
        taptree_pays L (RegTaptree r) vs pk \<and>
        findClaimClosure L vs (SignerPubKey c)
          (emulatorTweakedKey L (ArkadeScript (RegPacket r)) (EmulatorPubKey c)) preimg = Inr closure)"

definition all_bound :: "('priv, 'pub) ext \<Rightarrow> ('priv, 'pub) claimer \<Rightarrow> registry \<Rightarrow> bool" where
  "all_bound L c packets \<longleftrightarrow> (\<forall>k r. fmlookup packets k = Some r \<longrightarrow> bound L c k r)"

lemma validateAddress_Inr:
  "validateAddress L c taptree pk script preimg = Inr () \<longleftrightarrow>
     (\<exists>vs closure. taptree_pays L taptree vs pk \<and>
        findClaimClosure L vs (SignerPubKey c) (emulatorTweakedKey L script (EmulatorPubKey c)) preimg
          = Inr closure)"
  by (auto simp: validateAddress_def taptree_pays_def res_simps split: prod.splits if_splits)

lemma Submit_cases:
  assumes "Submit L c now addr taptree pkt packets = (res, packets')"
  obtains (rejected) e where "res = Inl e" "packets' = packets"
    | (full) pk where "res = Inl (SubmitRegister RegistryFull)"
        "register now (hex_encode pk) pkt taptree packets = (Inl RegistryFull, packets')"
        "address_pk_script L addr = Inr pk"
    | (accepted) pk preimg where "res = Inr (hex_encode pk)"
        "register now (hex_encode pk) pkt taptree packets = (Inr (), packets')"
        "address_pk_script L addr = Inr pk"
        "packet_Decrypt L (Some (SecretKey c)) pkt = Inr preimg"
        "validateAddress L c taptree pk (ArkadeScript pkt) preimg = Inr ()"
  using assms
  by (auto simp: Submit_def Let_def res_simps split: sum.splits prod.splits)
    (metis (full_types) registry_error.exhaust)+

lemma all_boundD: "all_bound L c packets \<Longrightarrow> fmlookup packets k = Some r \<Longrightarrow> bound L c k r"
  by (simp add: all_bound_def)

lemma all_bound_empty [simp]: "all_bound L c fmempty"
  by (simp add: all_bound_def)

lemma Submit_all_bound:
  assumes "Submit L c now addr taptree pkt packets = (res, packets')" and "all_bound L c packets"
  shows "all_bound L c packets'"
proof -
  have keep: "all_bound L c (snd (register now k pkt taptree packets))"
    if "bound L c k \<lparr>RegPacket = pkt, RegTaptree = taptree, RegExpireAt = now + registrationTTL\<rparr>" for k
    using register_keeps [of packets "bound L c", OF all_boundD [OF assms(2)]] that
    by (auto simp: all_bound_def)
  have purged: "all_bound L c (snd (register now k pkt taptree packets))"
    if "fst (register now k pkt taptree packets) = Inl e" for k e
    using assms(2) that
    by (auto simp: all_bound_def register_def Let_def fmlookup_purge split: if_splits option.splits)
  from assms(1) show ?thesis
  proof (cases rule: Submit_cases)
    case rejected
    with assms(2) show ?thesis by simp
  next
    case (full pk)
    with purged [of "hex_encode pk" RegistryFull] show ?thesis by simp
  next
    case (accepted pk preimg)
    then have "bound L c (hex_encode pk)
        \<lparr>RegPacket = pkt, RegTaptree = taptree, RegExpireAt = now + registrationTTL\<rparr>"
      by (auto simp: bound_def validateAddress_Inr)
    from keep [OF this] accepted(2) show ?thesis by simp
  qed
qed

lemma unregister_all_bound: "all_bound L c packets \<Longrightarrow> all_bound L c (unregister k packets)"
  using reg.remove_keeps [of packets "bound L c"] by (auto simp: all_bound_def)

lemma Submit_size:
  assumes "Submit L c now addr taptree pkt packets = (res, packets')"
    and "fcard (fmdom packets) \<le> maxRegistrations"
  shows "fcard (fmdom packets') \<le> maxRegistrations"
  using assms(1)
proof (cases rule: Submit_cases)
  case rejected
  with assms(2) show ?thesis by simp
next
  case (full pk)
  with register_size [OF assms(2), of now "hex_encode pk" pkt taptree] show ?thesis by simp
next
  case (accepted pk preimg)
  with register_size [OF assms(2), of now "hex_encode pk" pkt taptree] show ?thesis by simp
qed

text \<open>What a scan finds in a registry of bound entries is a sound claim.\<close>

lemma scan_output_Some:
  "scan_output L c packets utx i = Some m \<longleftrightarrow>
     (\<exists>reg preimg. fmlookup packets (hex_encode (TxPkScript (TxOuts utx ! i))) = Some reg \<and>
        \<not> Underfunds (RegPacket reg) (TxValue (TxOuts utx ! i)) \<and>
        packet_Decrypt L (Some (SecretKey c)) (RegPacket reg) = Inr preimg \<and>
        m = \<lparr>MOutpoint = \<lparr>OutHash = tx_hash L utx, OutIndex = word_of_nat i\<rparr>,
             MAmount = TxValue (TxOuts utx ! i), MSourceTx = Some utx,
             MCredentials =
               \<lparr>CredPreimage = preimg, CredArkadeScript = ArkadeScript (RegPacket reg),
                CredTaptree = RegTaptree reg, CredPkScript = TxPkScript (TxOuts utx ! i)\<rparr>\<rparr>)"
  by (auto simp: scan_output_def Let_def decodePacket_def underfunded_def split: option.splits sum.splits)

lemma scan_output_sound:
  assumes "all_bound L c packets" and "scan_output L c packets utx i = Some m"
    and "i < length (TxOuts utx)"
  shows "\<exists>pkt. sound_claim L c pkt m"
proof -
  from assms(2) obtain reg preimg where
    r: "fmlookup packets (hex_encode (TxPkScript (TxOuts utx ! i))) = Some reg"
    and *: "\<not> Underfunds (RegPacket reg) (TxValue (TxOuts utx ! i))"
      "packet_Decrypt L (Some (SecretKey c)) (RegPacket reg) = Inr preimg"
      "m = \<lparr>MOutpoint = \<lparr>OutHash = tx_hash L utx, OutIndex = word_of_nat i\<rparr>,
           MAmount = TxValue (TxOuts utx ! i), MSourceTx = Some utx,
           MCredentials =
             \<lparr>CredPreimage = preimg, CredArkadeScript = ArkadeScript (RegPacket reg),
              CredTaptree = RegTaptree reg, CredPkScript = TxPkScript (TxOuts utx ! i)\<rparr>\<rparr>"
    by (auto simp: scan_output_Some)
  from all_boundD [OF assms(1) r] * assms(3) have "sound_claim L c (RegPacket reg) m"
    by (auto simp: bound_def sound_claim_def)
  then show ?thesis by blast
qed

lemma matchRegistered_Some:
  "matchRegistered L c snap tx = Some m \<longleftrightarrow>
     (\<exists>packet utx i. tx = Some packet \<and> UnsignedTx packet = Some utx \<and> i < length (TxOuts utx) \<and>
        scan_output L c (snap i) utx i = Some m \<and>
        (\<forall>j<i. scan_output L c (snap j) utx j = None))"
  by (auto simp: matchRegistered_def first_some_upt split: option.splits)

lemma reveal_Match_Some:
  "reveal_Match L c snap idx tx = Some m \<longleftrightarrow> matchRegistered L c snap tx = Some m \<and>
     (\<exists>v vs. idx [hex_encode (CredPkScript (MCredentials m))] True = Inr (v # vs))"
  by (cases "matchRegistered L c snap tx") (auto simp: reveal_Match_def gateSpendable_Some)

lemma reveal_Match_sound:
  assumes "reveal_Match L c snap idx tx = Some m" and "\<And>i. all_bound L c (snap i)"
  shows "\<exists>pkt. sound_claim L c pkt m"
proof -
  from assms(1) obtain utx i where "i < length (TxOuts utx)" "scan_output L c (snap i) utx i = Some m"
    by (auto simp: reveal_Match_Some matchRegistered_Some)
  with scan_output_sound [OF assms(2)] show ?thesis by blast
qed

text \<open>
  The first output of a transaction that pays a registered script enough: what a scan of a registry
  of bound entries looks for.
\<close>

definition registered_output :: "registry \<Rightarrow> msgtx \<Rightarrow> nat \<Rightarrow> registration \<Rightarrow> bool" where
  "registered_output packets utx i r \<longleftrightarrow>
     i < length (TxOuts utx) \<and> fmlookup packets (hex_encode (TxPkScript (TxOuts utx ! i))) = Some r \<and>
     \<not> Underfunds (RegPacket r) (TxValue (TxOuts utx ! i))"

definition registered_claim :: "('priv, 'pub) ext \<Rightarrow> msgtx \<Rightarrow> nat \<Rightarrow> registration \<Rightarrow> bytes \<Rightarrow> matched_claim" where
  "registered_claim L utx i r preimg =
     \<lparr>MOutpoint = \<lparr>OutHash = tx_hash L utx, OutIndex = word_of_nat i\<rparr>,
      MAmount = TxValue (TxOuts utx ! i), MSourceTx = Some utx,
      MCredentials =
        \<lparr>CredPreimage = preimg, CredArkadeScript = ArkadeScript (RegPacket r),
         CredTaptree = RegTaptree r, CredPkScript = TxPkScript (TxOuts utx ! i)\<rparr>\<rparr>"

lemma registered_claim_script [simp]:
  "CredPkScript (MCredentials (registered_claim L utx i r preimg)) = TxPkScript (TxOuts utx ! i)"
  by (simp add: registered_claim_def)

lemma registered_output_bound: "registered_output packets utx i r \<Longrightarrow> i < length (TxOuts utx)"
  by (simp add: registered_output_def)

lemma scan_output_registered:
  assumes "i < length (TxOuts utx)"
  shows "scan_output L c packets utx i = Some m \<longleftrightarrow>
    (\<exists>r preimg. registered_output packets utx i r \<and>
       packet_Decrypt L (Some (SecretKey c)) (RegPacket r) = Inr preimg \<and>
       m = registered_claim L utx i r preimg)"
  using assms by (auto simp: scan_output_Some registered_output_def registered_claim_def)

lemma scan_output_None:
  assumes "all_bound L c packets" and "i < length (TxOuts utx)"
  shows "scan_output L c packets utx i = None \<longleftrightarrow> (\<nexists>r. registered_output packets utx i r)"
proof -
  have "\<exists>preimg. packet_Decrypt L (Some (SecretKey c)) (RegPacket r) = Inr preimg"
    if "registered_output packets utx i r" for r
    using that all_boundD [OF assms(1)] by (fastforce simp: registered_output_def bound_def)
  then show ?thesis
    using scan_output_registered [OF assms(2), of L c packets] by (metis option.exhaust option.distinct(1))
qed

definition registered_match ::
  "('priv, 'pub) ext \<Rightarrow> ('priv, 'pub) claimer \<Rightarrow> registry \<Rightarrow> psbt \<Rightarrow> msgtx \<Rightarrow> nat \<Rightarrow> registration \<Rightarrow>
   bytes \<Rightarrow> matched_claim \<Rightarrow> bool" where
  "registered_match L c packets tx utx i r preimg m \<longleftrightarrow>
     UnsignedTx tx = Some utx \<and> registered_output packets utx i r \<and>
     (\<forall>j<i. \<nexists>r'. registered_output packets utx j r') \<and>
     packet_Decrypt L (Some (SecretKey c)) (RegPacket r) = Inr preimg \<and>
     m = registered_claim L utx i r preimg"

lemma matchRegistered_bound:
  assumes "all_bound L c packets"
  shows "matchRegistered L c (\<lambda>_. packets) (Some tx) = Some m \<longleftrightarrow>
    (\<exists>utx i r preimg. registered_match L c packets tx utx i r preimg m)"
proof -
  have miss: "(\<forall>j<i. scan_output L c packets utx j = None) \<longleftrightarrow>
      (\<forall>j<i. \<nexists>r'. registered_output packets utx j r')" if "i < length (TxOuts utx)" for utx i
    using scan_output_None [OF assms] that by (metis less_trans)
  show ?thesis
  proof
    assume "matchRegistered L c (\<lambda>_. packets) (Some tx) = Some m"
    then show "\<exists>utx i r preimg. registered_match L c packets tx utx i r preimg m"
      by (clarsimp simp: matchRegistered_Some miss scan_output_registered registered_match_def) blast
  next
    assume "\<exists>utx i r preimg. registered_match L c packets tx utx i r preimg m"
    then obtain utx i r preimg where "registered_match L c packets tx utx i r preimg m" by blast
    then have "UnsignedTx tx = Some utx \<and> i < length (TxOuts utx) \<and>
        scan_output L c packets utx i = Some m \<and> (\<forall>j<i. scan_output L c packets utx j = None)"
      using registered_output_bound miss scan_output_registered
      unfolding registered_match_def by metis
    then show "matchRegistered L c (\<lambda>_. packets) (Some tx) = Some m"
      unfolding matchRegistered_Some by blast
  qed
qed

section \<open>Properties\<close>

text \<open>
  C38: \<open>Submit\<close> accepts a registration exactly when the address has a script, the packet decrypts, the
  taptree pays that script and holds the claim closure for the packet's arkade script and preimage,
  and the registry has room; it then stores the packet under the script's hex, and a registry whose
  entries are all bound to their keys stays so, whatever is submitted.
\<close>

theorem submit_binds:
  assumes "all_bound L c packets" and "Submit L c now addr taptree pkt packets = (res, packets')"
  shows "all_bound L c packets' \<and>
    (\<forall>key. res = Inr key \<longleftrightarrow>
      (\<exists>pk preimg vs closure. key = hex_encode pk \<and> address_pk_script L addr = Inr pk \<and>
        packet_Decrypt L (Some (SecretKey c)) pkt = Inr preimg \<and> taptree_pays L taptree vs pk \<and>
        findClaimClosure L vs (SignerPubKey c)
          (emulatorTweakedKey L (ArkadeScript pkt) (EmulatorPubKey c)) preimg = Inr closure \<and>
        register now key pkt taptree packets = (Inr (), packets')))"
proof (intro conjI allI)
  show "all_bound L c packets'"
    by (rule Submit_all_bound [OF assms(2,1)])
  fix key
  show "res = Inr key \<longleftrightarrow>
      (\<exists>pk preimg vs closure. key = hex_encode pk \<and> address_pk_script L addr = Inr pk \<and>
        packet_Decrypt L (Some (SecretKey c)) pkt = Inr preimg \<and> taptree_pays L taptree vs pk \<and>
        findClaimClosure L vs (SignerPubKey c)
          (emulatorTweakedKey L (ArkadeScript pkt) (EmulatorPubKey c)) preimg = Inr closure \<and>
        register now key pkt taptree packets = (Inr (), packets'))" (is "_ = ?accepted")
  proof
    assume "res = Inr key"
    with assms(2) show ?accepted
      by (cases rule: Submit_cases) (auto simp: validateAddress_Inr)
  next
    assume ?accepted
    then obtain pk preimg where "key = hex_encode pk" "address_pk_script L addr = Inr pk"
        "packet_Decrypt L (Some (SecretKey c)) pkt = Inr preimg"
        "validateAddress L c taptree pk (ArkadeScript pkt) preimg = Inr ()"
        "register now key pkt taptree packets = (Inr (), packets')"
      using validateAddress_Inr by blast
    with assms(2) show "res = Inr key"
      by (simp add: Submit_def)
  qed
qed

text \<open>The sample packet, registered for the sample address.\<close>

definition sample_registration :: registration where
  "sample_registration = \<lparr>RegPacket = sample_claim_packet, RegTaptree = sample_taptree,
     RegExpireAt = registrationTTL\<rparr>"

definition sample_registry :: registry where
  "sample_registry = fmupd (hex_encode sample_pkscript) sample_registration fmempty"

lemma sample_claimer_sel [simp]:
  "SecretKey sample_claimer = 5" "EmulatorPubKey sample_claimer = 3" "SignerPubKey sample_claimer = 2"
  "CheckpointTapscript sample_claimer = [1]"
  by (simp_all add: sample_claimer_def)

lemma sample_register:
  "register 0 (hex_encode sample_pkscript) sample_claim_packet sample_taptree fmempty =
     (Inr (), sample_registry)"
  by (simp add: register_def Let_def purge_def fcard_fempty maxRegistrations_def sample_registry_def
      sample_registration_def)

lemma sample_validateAddress:
  "validateAddress toy sample_claimer sample_taptree sample_pkscript sample_script sample_preimage =
     Inr ()"
  using sample_taptree_pays sample_find sample_tweak by (auto simp: validateAddress_Inr)

lemma sample_Submit:
  "Submit toy sample_claimer 0 sample_pkscript sample_taptree sample_claim_packet fmempty =
     (Inr (hex_encode sample_pkscript), sample_registry)"
proof -
  have "address_pk_script toy sample_pkscript = Inr sample_pkscript"
    by (simp add: toy_def)
  moreover have "ArkadeScript sample_claim_packet = sample_script"
    by (simp add: sample_claim_packet_def)
  ultimately show ?thesis
    using sample_decrypt sample_validateAddress sample_register by (simp add: Submit_def)
qed

theorem submit_binds_witness: "all_bound toy sample_claimer sample_registry"
  using submit_binds [OF all_bound_empty sample_Submit] by blast


lemma sample_registry_bound: "all_bound toy sample_claimer sample_registry"
  by (rule Submit_all_bound [OF sample_Submit all_bound_empty])

lemma sample_registered_output: "registered_output sample_registry sample_utx 1 sample_registration"
  by (simp add: registered_output_def sample_registry_def sample_registration_def sample_utx_def
      sample_claim_packet_def Underfunds_def)

lemma sample_registered_claim:
  "registered_claim toy sample_utx 1 sample_registration sample_preimage = sample_match"
  by (simp add: registered_claim_def sample_registration_def sample_utx_def sample_match_def
      sample_claim_packet_def sample_creds_def) (simp add: toy_def)

lemma sample_not_registered: "\<forall>j<1. \<nexists>r. registered_output sample_registry sample_utx j r"
proof -
  have "fmlookup sample_registry (hex_encode (0x6a # sample_body)) = None"
    using sample_extension_script by (simp add: sample_registry_def del: hex_encode_Cons)
  then show ?thesis
    by (simp add: registered_output_def sample_utx_def del: hex_encode_Cons)
qed

text \<open>
  C39: the reveal plugin matches a transaction exactly when one of its outputs pays a registered script
  at least the packet's minimum and the indexer has a spendable VTXO at the first such script. The
  claim is that output's, with the registered taptree and the preimage the registered packet
  decrypts to: bound entries always decrypt, so none is skipped for that.
\<close>

theorem reveal_match_iff:
  assumes "all_bound L c packets"
  shows "reveal_Match L c (\<lambda>_. packets) idx (Some tx) = Some m \<longleftrightarrow>
    (\<exists>utx i r preimg v vs. UnsignedTx tx = Some utx \<and> registered_output packets utx i r \<and>
       (\<forall>j<i. \<nexists>r'. registered_output packets utx j r') \<and>
       packet_Decrypt L (Some (SecretKey c)) (RegPacket r) = Inr preimg \<and>
       m = registered_claim L utx i r preimg \<and>
       idx [hex_encode (TxPkScript (TxOuts utx ! i))] True = Inr (v # vs))"
    (is "?match \<longleftrightarrow> ?spec")
proof -
  have "?match \<longleftrightarrow> (\<exists>v vs utx i r preimg. registered_match L c packets tx utx i r preimg m \<and>
      idx [hex_encode (CredPkScript (MCredentials m))] True = Inr (v # vs))"
    unfolding reveal_Match_Some matchRegistered_bound [OF assms] by blast
  also have "\<dots> \<longleftrightarrow> ?spec"
    unfolding registered_match_def by (simp cong: conj_cong) blast
  finally show ?thesis .
qed

theorem reveal_match_iff_witness:
  "reveal_Match toy sample_claimer (\<lambda>_. sample_registry) (\<lambda>_ _. Inr [\<lparr>VtxoTxid = ''t''\<rparr>])
     (Some sample_tx) = Some sample_match"
proof -
  have "packet_Decrypt toy (Some (SecretKey sample_claimer)) (RegPacket sample_registration) =
      Inr sample_preimage"
    using sample_decrypt by (simp add: sample_registration_def)
  then show ?thesis
    using sample_tx_parts(1) sample_registered_output sample_not_registered
      sample_registered_claim [symmetric]
    unfolding reveal_match_iff [OF sample_registry_bound] by blast
qed

text \<open>
  Matching never looks at the expiry of a registration: whatever the entries' expiry times are, \<open>Match\<close>
  gives the same answer. An expired entry is claimed from until a later \<open>Submit\<close> drops it.
\<close>

theorem matching_ignores_expiry:
  "reveal_Match L c (\<lambda>i. fmmap (\<lambda>r. r\<lparr>RegExpireAt := f r\<rparr>) (snap i)) idx tx =
     reveal_Match L c snap idx tx"
proof -
  have "scan_output L c (fmmap (\<lambda>r. r\<lparr>RegExpireAt := f r\<rparr>) packets) utx i =
      scan_output L c packets utx i" for packets utx i
    by (simp add: scan_output_def Let_def split: option.split)
  then show ?thesis
    by (simp add: reveal_Match_def matchRegistered_def cong: option.case_cong)
qed

text \<open>
  The probe of a fresh registration looks at the first VTXO of the indexer's answer and at nothing
  else: the others neither change what it does nor are ever asked about.
\<close>

theorem probe_first_vtxo_only:
  assumes "idx [key] True = Inr (v # vs)"
  shows "claimIfAlreadyFunded L c idx virtual snap idx' emu key packets =
      claimIfAlreadyFunded L c (\<lambda>_ _. Inr [v]) virtual snap idx' emu key packets \<and>
    (virtual [VtxoTxid v] = virtual' [VtxoTxid v] \<longrightarrow>
      claimIfAlreadyFunded L c idx virtual snap idx' emu key packets =
      claimIfAlreadyFunded L c idx virtual' snap idx' emu key packets)"
  using assms by (simp add: claimIfAlreadyFunded_def probe_tx_def)

theorem probe_first_vtxo_only_witness:
  "claimIfAlreadyFunded toy sample_claimer (\<lambda>_ _. Inr [\<lparr>VtxoTxid = ''a''\<rparr>, \<lparr>VtxoTxid = ''b''\<rparr>])
      (\<lambda>_. Inr []) (\<lambda>_. sample_registry) (\<lambda>_ _. Inr []) (\<lambda>_. Inr ()) ''k'' sample_registry =
    claimIfAlreadyFunded toy sample_claimer (\<lambda>_ _. Inr [\<lparr>VtxoTxid = ''a''\<rparr>])
      (\<lambda>_. Inr []) (\<lambda>_. sample_registry) (\<lambda>_ _. Inr []) (\<lambda>_. Inr ()) ''k'' sample_registry"
  by (rule probe_first_vtxo_only [THEN conjunct1]) simp

end
