(* ===== verification/RevealSystem.thy ===== *)
theory RevealSystem
  imports Reveal Transition "HOL-Library.Multiset"
begin

text \<open>
  The operations of \<open>pkg/preimage/reveal_plugin.go\<close> put together as a step relation. Submissions, the
  transaction stream, the probe each accepted submission starts, and the solves run in goroutines
  of their own and share the registry; \<open>p.mu\<close> makes each access of it one step. What the indexer, the
  emulator and the clock answer is free in every step, and so is the order of the steps: the
  executor, which matches one transaction after the other, takes fewer interleavings than are
  allowed here.
\<close>

section \<open>Model\<close>

text \<open>
  What a goroutine is about to do: ask for the funding transaction of a fresh registration, look at
  output \<open>i\<close> of a transaction, ask whether a matched claim is spendable, build and submit it, delete
  the registration of a claim the emulator has accepted.
\<close>

datatype task =
    Probing string
  | Scanning msgtx nat
  | Gating matched_claim
  | Solving matched_claim
  | Removing string

text \<open>The state keeps the bundles submitted so far, with the emulator's answers.\<close>

type_synonym sent = "matched_claim \<times> submission \<times> (string + unit)"

record reveal_state =
  Packets :: registry
  Now :: int
  Tasks :: "task multiset"
  Sent :: "sent list"

definition start_match :: "psbt \<Rightarrow> task option" where
  "start_match tx = (case UnsignedTx tx of None \<Rightarrow> None | Some utx \<Rightarrow> Some (Scanning utx 0))"

text \<open>
  One step of a goroutine: what it does next (nothing when it ends), the registry it leaves and what
  it has submitted.
\<close>

fun run_task ::
  "('priv, 'pub) ext \<Rightarrow> ('priv, 'pub) claimer \<Rightarrow> indexer \<Rightarrow> virtual_txs \<Rightarrow> emulator \<Rightarrow> task \<Rightarrow>
   registry \<Rightarrow> task option \<times> registry \<times> sent list" where
  "run_task L c idx virtual emu (Probing key) packets =
     (case probe_tx L idx virtual key of
        None \<Rightarrow> (None, packets, [])
      | Some tx \<Rightarrow> (start_match tx, packets, []))"
| "run_task L c idx virtual emu (Scanning utx i) packets =
     (if i < length (TxOuts utx)
      then (case scan_output L c packets utx i of
              None \<Rightarrow> (Some (Scanning utx (Suc i)), packets, [])
            | Some m \<Rightarrow> (Some (Gating m), packets, []))
      else (None, packets, []))"
| "run_task L c idx virtual emu (Gating m) packets =
     (map_option Solving (gateSpendable idx m), packets, [])"
| "run_task L c idx virtual emu (Solving m) packets =
     (case claim L c emu m of
        (Inl _, None) \<Rightarrow> (None, packets, [])
      | (Inl _, Some b) \<Rightarrow> (None, packets, [(m, b, emu b)])
      | (Inr _, None) \<Rightarrow> (Some (Removing (hex_encode (CredPkScript (MCredentials m)))), packets, [])
      | (Inr _, Some b) \<Rightarrow>
          (Some (Removing (hex_encode (CredPkScript (MCredentials m)))), packets, [(m, b, emu b)]))"
| "run_task L c idx virtual emu (Removing key) packets = (None, unregister key packets, [])"

definition tasks_of :: "task option \<Rightarrow> task multiset" where
  "tasks_of t = (case t of None \<Rightarrow> {#} | Some x \<Rightarrow> {#x#})"

inductive reveal_step ::
  "('priv, 'pub) ext \<Rightarrow> ('priv, 'pub) claimer \<Rightarrow> reveal_state \<Rightarrow> reveal_state \<Rightarrow> bool"
  for L :: "('priv, 'pub) ext" and c :: "('priv, 'pub) claimer" where
  tick: "Now s \<le> t \<Longrightarrow> reveal_step L c s (s\<lparr>Now := t\<rparr>)"
| submit_ok: "Submit L c (Now s) addr taptree pkt (Packets s) = (Inr key, packets) \<Longrightarrow>
    reveal_step L c s (s\<lparr>Packets := packets, Tasks := add_mset (Probing key) (Tasks s)\<rparr>)"
| submit_err: "Submit L c (Now s) addr taptree pkt (Packets s) = (Inl e, packets) \<Longrightarrow>
    reveal_step L c s (s\<lparr>Packets := packets\<rparr>)"
| stream: "reveal_step L c s (s\<lparr>Tasks := tasks_of (start_match tx) + Tasks s\<rparr>)"
| run: "t \<in># Tasks s \<Longrightarrow> run_task L c idx virtual emu t (Packets s) = (t', packets, sent) \<Longrightarrow>
    reveal_step L c s
      (s\<lparr>Packets := packets, Tasks := tasks_of t' + (Tasks s - {#t#}), Sent := Sent s @ sent\<rparr>)"

definition reveal_init :: "int \<Rightarrow> reveal_state" where
  "reveal_init now = \<lparr>Packets = fmempty, Now = now, Tasks = {#}, Sent = []\<rparr>"

abbreviation reveal_reachable ::
  "('priv, 'pub) ext \<Rightarrow> ('priv, 'pub) claimer \<Rightarrow> reveal_state \<Rightarrow> bool" where
  "reveal_reachable L c \<equiv> reachable_from (\<lambda>s. \<exists>now. s = reveal_init now) (reveal_step L c)"

section \<open>The invariant\<close>

definition task_ok ::
  "('priv, 'pub) ext \<Rightarrow> ('priv, 'pub) claimer \<Rightarrow> sent list \<Rightarrow> task \<Rightarrow> bool" where
  "task_ok L c sent t =
     (case t of
        Gating m \<Rightarrow> (\<exists>pkt. sound_claim L c pkt m)
      | Solving m \<Rightarrow> (\<exists>pkt. sound_claim L c pkt m)
      | Removing key \<Rightarrow>
          (\<exists>x \<in> set sent. snd (snd x) = Inr () \<and>
             key = hex_encode (CredPkScript (MCredentials (fst x))))
      | _ \<Rightarrow> True)"

definition sent_ok :: "('priv, 'pub) ext \<Rightarrow> ('priv, 'pub) claimer \<Rightarrow> sent \<Rightarrow> bool" where
  "sent_ok L c x =
     (case x of (m, b, _) \<Rightarrow> (\<exists>pkt. sound_claim L c pkt m) \<and> claim_bundle L c m = Inr b)"

definition expiry_ok :: "int \<Rightarrow> registry \<Rightarrow> bool" where
  "expiry_ok now packets \<longleftrightarrow> (\<forall>k r. fmlookup packets k = Some r \<longrightarrow> RegExpireAt r \<le> now + registrationTTL)"

definition reveal_inv ::
  "('priv, 'pub) ext \<Rightarrow> ('priv, 'pub) claimer \<Rightarrow> reveal_state \<Rightarrow> bool" where
  "reveal_inv L c s \<longleftrightarrow>
     all_bound L c (Packets s) \<and> fcard (fmdom (Packets s)) \<le> maxRegistrations \<and>
     expiry_ok (Now s) (Packets s) \<and>
     (\<forall>t \<in># Tasks s. task_ok L c (Sent s) t) \<and> (\<forall>x \<in> set (Sent s). sent_ok L c x)"

lemma task_ok_mono: "task_ok L c sent t \<Longrightarrow> set sent \<subseteq> set sent' \<Longrightarrow> task_ok L c sent' t"
  by (auto simp: task_ok_def split: task.splits)

lemma task_ok_simps [simp]:
  "task_ok L c sent (Probing key)" "task_ok L c sent (Scanning utx i)"
  by (simp_all add: task_ok_def)

lemma set_tasks_of [simp]: "set_mset (tasks_of t) = set_option t"
  by (simp add: tasks_of_def split: option.split)

lemma start_match_ok: "start_match tx = Some t \<Longrightarrow> task_ok L c sent t"
  by (auto simp: start_match_def split: option.splits)

lemma claim_cases:
  assumes "claim L c emu m = (err, bundle)"
  obtains (unbuilt) e where "err = Inl e" "bundle = None" "claim_bundle L c m = Inl e"
    | (submitted) b where "bundle = Some b" "claim_bundle L c m = Inr b"
        "err = map_err SubmitTxError (emu b)"
  using assms by (auto simp: claim_def split: sum.splits)

lemma expiry_okD: "expiry_ok now packets \<Longrightarrow> fmlookup packets k = Some r \<Longrightarrow>
    RegExpireAt r \<le> now + registrationTTL"
  by (simp add: expiry_ok_def)

lemma Submit_expiry:
  assumes "Submit L c now addr taptree pkt packets = (res, packets')" and "expiry_ok now packets"
  shows "expiry_ok now packets'"
proof -
  have purged: "expiry_ok now (purge now packets)"
    using assms(2) by (auto simp: expiry_ok_def fmlookup_purge split: option.splits if_splits)
  then have "expiry_ok now (snd (register now key pkt taptree packets))" for key
    by (auto simp: register_def Let_def expiry_ok_def)
  with assms show ?thesis
    by (cases rule: Submit_cases) (force dest: arg_cong [where f = snd])+
qed

text \<open>A goroutine's step keeps the registry's part of the invariant and leads to sound work.\<close>

lemma run_task_packets:
  assumes "run_task L c idx virtual emu t packets = (t', packets', sent)"
  shows "packets' = packets \<or> (\<exists>key. t = Removing key \<and> packets' = unregister key packets)"
  using assms by (cases t) (auto split: option.splits if_splits prod.splits sum.splits)

lemma run_task_ok:
  assumes "run_task L c idx virtual emu t packets = (t', packets', sent)"
    and "all_bound L c packets" and "task_ok L c old t"
  shows "(\<forall>x \<in> set_option t'. task_ok L c (old @ sent) x) \<and> (\<forall>x \<in> set sent. sent_ok L c x)"
proof (cases t)
  case (Probing key)
  with assms(1) show ?thesis
    by (auto split: option.splits intro: start_match_ok)
next
  case (Scanning utx i)
  with assms show ?thesis
    by (auto simp: task_ok_def dest: scan_output_sound split: if_splits option.splits)
next
  case (Gating m)
  with assms show ?thesis
    by (auto simp: task_ok_def gateSpendable_Some)
next
  case (Solving m)
  obtain err sub where cl: "claim L c emu m = (err, sub)"
    by fastforce
  then show ?thesis
  proof (cases rule: claim_cases)
    case (unbuilt e)
    with assms Solving cl show ?thesis by auto
  next
    case (submitted b)
    with assms Solving cl show ?thesis
      by (auto simp: task_ok_def sent_ok_def map_err_def split: sum.splits)
  qed
next
  case (Removing key)
  with assms show ?thesis by auto
qed

lemma reveal_step_inv:
  assumes "reveal_step L c s s'" and "reveal_inv L c s"
  shows "reveal_inv L c s'"
  using assms
proof (induction rule: reveal_step.induct)
  case (tick s t)
  then show ?case by (fastforce simp: reveal_inv_def expiry_ok_def)
next
  case (submit_ok s addr taptree pkt key packets)
  then show ?case
    using Submit_all_bound Submit_size Submit_expiry by (fastforce simp: reveal_inv_def)
next
  case (submit_err s addr taptree pkt e packets)
  then show ?case
    using Submit_all_bound Submit_size Submit_expiry by (fastforce simp: reveal_inv_def)
next
  case (stream s tx)
  then show ?case by (auto simp: reveal_inv_def intro: start_match_ok)
next
  case (run t s idx virtual emu t' packets sent)
  note ok = run_task_ok [OF run(2), of "Sent s"]
  have "all_bound L c packets \<and> fcard (fmdom packets) \<le> maxRegistrations \<and> expiry_ok (Now s) packets"
    using run_task_packets [OF run(2)] run(3) unregister_all_bound reg.remove_within
    by (auto simp: reveal_inv_def expiry_ok_def reg.remove_entry split: if_splits)
  moreover have "\<forall>x \<in># Tasks s - {#t#}. task_ok L c (Sent s @ sent) x"
    using run(3) task_ok_mono [of L c "Sent s" _ "Sent s @ sent"]
    by (auto simp: reveal_inv_def dest: in_diffD)
  ultimately show ?case
    using run(1,3) ok by (auto simp: reveal_inv_def simp del: subset_mset.add_diff_assoc)
qed

lemma reveal_init_inv: "reveal_inv L c (reveal_init now)"
  by (simp add: reveal_inv_def reveal_init_def expiry_ok_def fcard_fempty)

interpretation rs: invariant_system "\<lambda>s. \<exists>now. s = reveal_init now" "reveal_step L c" "reveal_inv L c"
  for L :: "('priv, 'pub) ext" and c :: "('priv, 'pub) claimer"
  by unfold_locales (auto simp: reveal_init_inv reveal_step_inv)

lemmas reveal_reachable_inv = rs.reachable_inv

text \<open>A submission drops only what has expired, and never the entry it stores.\<close>

lemma Submit_drops:
  assumes "Submit L c now addr taptree pkt packets = (res, packets')"
    and "fmlookup packets key = Some r" and "fmlookup packets' key = None"
  shows "expired now r"
proof -
  have "expired now r" if "snd (register now k pkt taptree packets) = packets'" for k
    using assms(2,3) that [symmetric]
    by (auto simp: register_def Let_def fmlookup_purge split: if_splits option.splits)
  with assms show ?thesis
    by (cases rule: Submit_cases) (force dest: arg_cong [where f = snd])+
qed

text \<open>Nor does any other step drop more, but for the deletion after an accepted claim.\<close>

lemma reveal_step_drops:
  assumes "reveal_reachable L c s" and "reveal_step L c s s'"
    and "fmlookup (Packets s) key = Some r" and "fmlookup (Packets s') key = None"
  shows "expired (Now s) r \<or>
    (\<exists>m b. (m, b, Inr ()) \<in> set (Sent s) \<and> key = hex_encode (CredPkScript (MCredentials m)))"
  using assms(2)
proof (cases rule: reveal_step.cases)
  case (run t idx virtual emu t' packets sent)
  with assms(3,4) have "t = Removing key"
    using run_task_packets [OF run(3)] by (auto simp: reg.remove_entry split: if_splits)
  with run(2) reveal_reachable_inv [OF assms(1)] have "task_ok L c (Sent s) (Removing key)"
    by (auto simp: reveal_inv_def)
  then show ?thesis
    by (force simp: task_ok_def)
qed (use assms(3,4) in \<open>auto dest: Submit_drops\<close>)

section \<open>Runs\<close>

text \<open>
  A goroutine that nothing disturbs runs \<open>Match\<close> and \<open>Solve\<close>: the functions of the code, each a single
  result, are refined by the steps. They are steps of goroutines that are there already.
\<close>

inductive task_step ::
  "('priv, 'pub) ext \<Rightarrow> ('priv, 'pub) claimer \<Rightarrow> reveal_state \<Rightarrow> reveal_state \<Rightarrow> bool"
  for L :: "('priv, 'pub) ext" and c :: "('priv, 'pub) claimer" where
  task: "t \<in># Tasks s \<Longrightarrow> run_task L c idx virtual emu t (Packets s) = (t', packets, sent) \<Longrightarrow>
    task_step L c s
      (s\<lparr>Packets := packets, Tasks := tasks_of t' + (Tasks s - {#t#}), Sent := Sent s @ sent\<rparr>)"

lemma task_step_reveal: "task_step L c s s' \<Longrightarrow> reveal_step L c s s'"
  by (auto elim!: task_step.cases intro: reveal_step.run)

lemma task_runs: "(task_step L c)\<^sup>*\<^sup>* s s' \<Longrightarrow> (reveal_step L c)\<^sup>*\<^sup>* s s'"
  by (induction rule: rtranclp_induct) (auto intro: task_step_reveal rtranclp.rtrancl_into_rtrancl)

lemma run_step:
  assumes "Tasks s = add_mset t ts"
    and "run_task L c idx virtual emu t (Packets s) = (t', packets, sent)"
  shows "task_step L c s
    (s\<lparr>Packets := packets, Tasks := tasks_of t' + ts, Sent := Sent s @ sent\<rparr>)"
  using task_step.task [of t s L c idx virtual emu t' packets sent] assms by simp

lemma scan_run:
  assumes "Tasks s = add_mset (Scanning utx i) ts" and "i \<le> n" and "n \<le> length (TxOuts utx)"
    and "\<And>j. i \<le> j \<Longrightarrow> j < n \<Longrightarrow> scan_output L c (Packets s) utx j = None"
  shows "(task_step L c)\<^sup>*\<^sup>* s (s\<lparr>Tasks := add_mset (Scanning utx n) ts\<rparr>)"
  using assms(2-4)
proof (induction n)
  case 0
  with assms(1) show ?case
    by (metis le_zero_eq reveal_state.surjective reveal_state.update_convs(3) rtranclp.rtrancl_refl)
next
  case (Suc n)
  show ?case
  proof (cases "i = Suc n")
    case True
    with assms(1) show ?thesis
      by (metis reveal_state.surjective reveal_state.update_convs(3) rtranclp.rtrancl_refl)
  next
    case False
    with Suc have "(task_step L c)\<^sup>*\<^sup>* s (s\<lparr>Tasks := add_mset (Scanning utx n) ts\<rparr>)"
      by simp
    moreover have "task_step L c (s\<lparr>Tasks := add_mset (Scanning utx n) ts\<rparr>)
        (s\<lparr>Tasks := add_mset (Scanning utx (Suc n)) ts\<rparr>)"
      using run_step [of "s\<lparr>Tasks := add_mset (Scanning utx n) ts\<rparr>" "Scanning utx n" ts L c _ _ _
          "Some (Scanning utx (Suc n))" "Packets s" "[]"] Suc.prems False
      by (simp add: tasks_of_def)
    ultimately show ?thesis
      by simp
  qed
qed

text \<open>A match that has begun runs to its answer.\<close>

lemma scan_match_run:
  assumes "UnsignedTx tx = Some utx" and "Tasks s = add_mset (Scanning utx 0) ts"
  shows "(task_step L c)\<^sup>*\<^sup>* s
    (s\<lparr>Tasks := tasks_of (map_option Solving (reveal_Match L c (\<lambda>_. Packets s) idx (Some tx))) + ts\<rparr>)"
proof (cases "matchRegistered L c (\<lambda>_. Packets s) (Some tx)")
  case None
  let ?n = "length (TxOuts utx)"
  let ?s = "s\<lparr>Tasks := add_mset (Scanning utx ?n) ts\<rparr>"
  have "scan_output L c (Packets s) utx j = None" if "j < ?n" for j
    using None assms(1) that by (simp add: matchRegistered_def first_some_None list_all_iff)
  then have "(task_step L c)\<^sup>*\<^sup>* s ?s"
    using scan_run [OF assms(2), of ?n L c] by simp
  moreover have "task_step L c ?s (s\<lparr>Tasks := ts\<rparr>)"
    using run_step [of ?s "Scanning utx ?n" ts L c _ _ _ None "Packets s" "[]"] by (simp add: tasks_of_def)
  ultimately show ?thesis
    using None by (simp add: reveal_Match_def tasks_of_def)
next
  case (Some m)
  then obtain i where i: "i < length (TxOuts utx)" and hit: "scan_output L c (Packets s) utx i = Some m"
    and miss: "\<And>j. j < i \<Longrightarrow> scan_output L c (Packets s) utx j = None"
    using assms(1) by (auto simp: matchRegistered_Some)
  let ?s = "\<lambda>t. s\<lparr>Tasks := add_mset t ts\<rparr>"
  have "(task_step L c)\<^sup>*\<^sup>* s (?s (Scanning utx i))"
    using scan_run [OF assms(2), of i L c] i miss by simp
  moreover have "task_step L c (?s (Scanning utx i)) (?s (Gating m))"
    using run_step [of "?s (Scanning utx i)" "Scanning utx i" ts L c _ _ _ "Some (Gating m)"
        "Packets s" "[]"] i hit by (simp add: tasks_of_def)
  moreover have "task_step L c (?s (Gating m))
      (s\<lparr>Tasks := tasks_of (map_option Solving (gateSpendable idx m)) + ts\<rparr>)"
    using run_step [of "?s (Gating m)" "Gating m" ts L c idx _ _ "map_option Solving (gateSpendable idx m)"
        "Packets s" "[]"] by simp
  ultimately show ?thesis
    using Some by (simp add: reveal_Match_def)
qed

lemma match_run:
  assumes "reveal_Match L c (\<lambda>_. Packets s) idx (Some tx) = Some m"
  shows "(reveal_step L c)\<^sup>*\<^sup>* s (s\<lparr>Tasks := add_mset (Solving m) (Tasks s)\<rparr>)"
proof -
  from assms obtain utx where u: "UnsignedTx tx = Some utx"
    by (auto simp: reveal_Match_Some matchRegistered_Some)
  let ?s = "s\<lparr>Tasks := add_mset (Scanning utx 0) (Tasks s)\<rparr>"
  have "reveal_step L c s ?s"
    using reveal_step.stream [of L c s tx] u by (simp add: start_match_def tasks_of_def)
  moreover have "(reveal_step L c)\<^sup>*\<^sup>* ?s (s\<lparr>Tasks := add_mset (Solving m) (Tasks s)\<rparr>)"
    using task_runs [OF scan_match_run [OF u, of ?s "Tasks s" L c idx]] assms
    by (simp add: tasks_of_def)
  ultimately show ?thesis
    by (rule converse_rtranclp_into_rtranclp)
qed

definition sent_of :: "emulator \<Rightarrow> matched_claim \<Rightarrow> submission option \<Rightarrow> sent list" where
  "sent_of emu m sub = (case sub of None \<Rightarrow> [] | Some b \<Rightarrow> [(m, b, emu b)])"

lemma solve_run:
  assumes "Tasks s = add_mset (Solving m) ts"
    and "reveal_Solve L c emu (ClaimIntent m) (Packets s) = (sub, packets)"
  shows "(task_step L c)\<^sup>*\<^sup>* s
    (s\<lparr>Packets := packets, Tasks := ts, Sent := Sent s @ sent_of emu m sub\<rparr>)"
proof -
  obtain err sub' where cl: "claim L c emu m = (err, sub')"
    by fastforce
  with assms(2) have sub: "sub' = sub"
    by (simp add: reveal_Solve_def Let_def split: sum.splits)
  let ?key = "hex_encode (CredPkScript (MCredentials m))"
  show ?thesis
  proof (cases err)
    case (Inl e)
    with cl assms(2) sub have "packets = Packets s"
      "run_task L c (\<lambda>_ _. Inl []) (\<lambda>_. Inl []) emu (Solving m) (Packets s) =
        (None, Packets s, sent_of emu m sub)"
      by (simp_all add: reveal_Solve_def sent_of_def split: option.split)
    with run_step [OF assms(1) this(2)] show ?thesis
      by (simp add: tasks_of_def r_into_rtranclp)
  next
    case (Inr u)
    with cl assms(2) sub have p: "packets = unregister ?key (Packets s)"
      "run_task L c (\<lambda>_ _. Inl []) (\<lambda>_. Inl []) emu (Solving m) (Packets s) =
        (Some (Removing ?key), Packets s, sent_of emu m sub)"
      by (simp_all add: reveal_Solve_def Let_def sent_of_def split: option.split)
    let ?s = "s\<lparr>Tasks := add_mset (Removing ?key) ts, Sent := Sent s @ sent_of emu m sub\<rparr>"
    have "task_step L c s ?s"
      using run_step [OF assms(1) p(2)] by (simp add: tasks_of_def)
    moreover have "task_step L c ?s
        (s\<lparr>Packets := packets, Tasks := ts, Sent := Sent s @ sent_of emu m sub\<rparr>)"
      using run_step [of ?s "Removing ?key" ts L c _ _ _ None packets "[]"] p(1)
      by (simp add: tasks_of_def)
    ultimately show ?thesis
      by (meson converse_rtranclp_into_rtranclp r_into_rtranclp)
  qed
qed

text \<open>A probe runs as \<open>claimIfAlreadyFunded\<close> does.\<close>

lemma probe_match_run:
  assumes "Tasks s = add_mset (Probing key) ts" and "probe_tx L idx virtual key = Some tx"
  shows "(task_step L c)\<^sup>*\<^sup>* s
    (s\<lparr>Tasks := tasks_of (map_option Solving (reveal_Match L c (\<lambda>_. Packets s) idx' (Some tx))) + ts\<rparr>)"
proof -
  let ?s = "s\<lparr>Tasks := tasks_of (start_match tx) + ts\<rparr>" and
    ?matched = "s\<lparr>Tasks :=
      tasks_of (map_option Solving (reveal_Match L c (\<lambda>_. Packets s) idx' (Some tx))) + ts\<rparr>"
  have "task_step L c s ?s"
    using run_step [OF assms(1), of L c idx virtual "\<lambda>_. Inr ()" "start_match tx" "Packets s" "[]"] assms(2)
    by simp
  moreover have "(task_step L c)\<^sup>*\<^sup>* ?s ?matched"
  proof (cases "UnsignedTx tx")
    case None
    then show ?thesis
      by (simp add: start_match_def reveal_Match_def matchRegistered_def)
  next
    case (Some utx)
    then have "start_match tx = Some (Scanning utx 0)"
      by (simp add: start_match_def)
    with scan_match_run [OF Some, of ?s ts L c idx'] show ?thesis
      by (simp add: tasks_of_def)
  qed
  ultimately show ?thesis
    by (rule converse_rtranclp_into_rtranclp)
qed

lemma probe_claim_run:
  assumes "Tasks s = add_mset (Probing key) ts" and "probe_tx L idx virtual key = Some tx"
    and "reveal_Match L c (\<lambda>_. Packets s) idx' (Some tx) = Some m"
    and "reveal_Solve L c emu (ClaimIntent m) (Packets s) = (sub, packets)"
  shows "(task_step L c)\<^sup>*\<^sup>* s
    (s\<lparr>Packets := packets, Tasks := ts, Sent := Sent s @ sent_of emu m sub\<rparr>)"
proof -
  let ?s = "s\<lparr>Tasks := add_mset (Solving m) ts\<rparr>"
  have "(task_step L c)\<^sup>*\<^sup>* s ?s"
    using probe_match_run [OF assms(1,2), of c idx'] assms(3) by (simp add: tasks_of_def)
  moreover have "(task_step L c)\<^sup>*\<^sup>* ?s
      (?s\<lparr>Packets := packets, Tasks := ts, Sent := Sent ?s @ sent_of emu m sub\<rparr>)"
    by (rule solve_run) (use assms(4) in simp_all)
  ultimately show ?thesis
    by simp
qed

lemma probe_run:
  assumes "Tasks s = add_mset (Probing key) ts"
    and "claimIfAlreadyFunded L c idx virtual (\<lambda>_. Packets s) idx' emu key (Packets s) = (sub, packets)"
  shows "\<exists>m. (task_step L c)\<^sup>*\<^sup>* s
    (s\<lparr>Packets := packets, Tasks := ts, Sent := Sent s @ sent_of emu m sub\<rparr>)"
proof (cases "probe_tx L idx virtual key")
  case None
  have "task_step L c s (s\<lparr>Packets := Packets s, Tasks := ts, Sent := Sent s\<rparr>)"
    using run_step [OF assms(1), of L c idx virtual emu None "Packets s" "[]"] None
    by (simp add: tasks_of_def)
  with None assms(2) show ?thesis
    by (auto simp: claimIfAlreadyFunded_def sent_of_def)
next
  case (Some tx)
  show ?thesis
  proof (cases "reveal_Match L c (\<lambda>_. Packets s) idx' (Some tx)")
    case None
    with Some assms(2) have "sub = None" "packets = Packets s"
      by (simp_all add: claimIfAlreadyFunded_def)
    with probe_match_run [OF assms(1) Some, of c idx'] None show ?thesis
      by (simp add: sent_of_def tasks_of_def)
  next
    case (Some m)
    with \<open>probe_tx L idx virtual key = Some tx\<close> assms(2)
    have "reveal_Solve L c emu (ClaimIntent m) (Packets s) = (sub, packets)"
      by (simp add: claimIfAlreadyFunded_def)
    from probe_claim_run [OF assms(1) \<open>probe_tx L idx virtual key = Some tx\<close> Some this] show ?thesis ..
  qed
qed

section \<open>A run for the witnesses\<close>

text \<open>The sample packet is submitted, its funding transaction streamed and claimed.\<close>

definition sample_idle :: reveal_state where
  "sample_idle = \<lparr>Packets = sample_registry, Now = 0, Tasks = {#Probing (hex_encode sample_pkscript)#},
     Sent = []\<rparr>"

definition sample_solving :: reveal_state where
  "sample_solving = sample_idle\<lparr>Tasks := add_mset (Solving sample_match) (Tasks sample_idle)\<rparr>"

lemma sample_idle_reachable: "reveal_reachable toy sample_claimer sample_idle"
proof -
  have "reveal_step toy sample_claimer (reveal_init 0) sample_idle"
    using reveal_step.submit_ok [of toy sample_claimer "reveal_init 0" sample_pkscript sample_taptree
        sample_claim_packet "hex_encode sample_pkscript" sample_registry] sample_Submit
    by (simp add: reveal_init_def sample_idle_def)
  then show ?thesis
    by (blast intro: reachable_init reachable_step)
qed

lemma sample_reveal_Match:
  "reveal_Match toy sample_claimer (\<lambda>_. sample_registry) (\<lambda>_ _. Inr [\<lparr>VtxoTxid = ''t''\<rparr>])
     (Some sample_tx) = Some sample_match"
proof -
  have "packet_Decrypt toy (Some (SecretKey sample_claimer)) (RegPacket sample_registration) =
      Inr sample_preimage"
    using sample_decrypt by (simp add: sample_registration_def)
  then have "registered_match toy sample_claimer sample_registry sample_tx sample_utx 1
      sample_registration sample_preimage sample_match"
    using sample_tx_parts(1) sample_registered_output sample_not_registered
    unfolding registered_match_def sample_registered_claim by blast
  then show ?thesis
    unfolding reveal_Match_Some matchRegistered_bound [OF sample_registry_bound] by blast
qed

lemma sample_solving_reachable: "reveal_reachable toy sample_claimer sample_solving"
  using reachable_run [OF sample_idle_reachable match_run [OF _, of toy sample_claimer sample_idle]]
    sample_reveal_Match by (simp add: sample_solving_def sample_idle_def)

lemma toy_b64: "b64_encode toy p = Inr (bytes_string (PsbtRest p))"
  by (simp add: toy_def)

lemma toy_encode_checkpoints: "\<exists>xs. encode_checkpoints toy cps = Inr xs"
  by (induction cps) (auto simp: toy_b64)

lemma sample_creds_bundle:
  assumes "MCredentials m = sample_creds" and "MSourceTx m = Some utx"
  shows "\<exists>b. claim_bundle toy sample_claimer m = Inr b"
proof -
  obtain arkTx cps where "BuildClaim toy (Some m) [1] 2 3 = Inr (arkTx, cps)"
    using sample_creds_build [OF assms] by auto
  moreover obtain xs where "encode_checkpoints toy cps = Inr xs"
    using toy_encode_checkpoints by blast
  ultimately show ?thesis
    by (simp add: claim_bundle_def toy_b64)
qed

text \<open>The bundle the sample claim submits.\<close>

definition sample_bundle :: submission where
  "sample_bundle =
     (case claim_bundle toy sample_claimer sample_match of Inl _ \<Rightarrow> (''none'', []) | Inr b \<Rightarrow> b)"

definition sample_removing :: reveal_state where
  "sample_removing = sample_idle
     \<lparr>Tasks := add_mset (Removing (hex_encode sample_pkscript)) (Tasks sample_idle),
      Sent := [(sample_match, sample_bundle, Inr ())]\<rparr>"

lemma sample_bundle: "claim_bundle toy sample_claimer sample_match = Inr sample_bundle"
  using sample_creds_bundle [of sample_match sample_utx] by (auto simp: sample_bundle_def sample_match_def)

lemma sample_removing_reachable: "reveal_reachable toy sample_claimer sample_removing"
proof -
  have "run_task toy sample_claimer (\<lambda>_ _. Inl []) (\<lambda>_. Inl []) (\<lambda>_. Inr ()) (Solving sample_match)
      (Packets sample_solving) =
      (Some (Removing (hex_encode sample_pkscript)), Packets sample_solving,
       [(sample_match, sample_bundle, Inr ())])"
    by (simp add: claim_def sample_bundle map_err_def) (simp add: sample_match_def sample_creds_def)
  from task_step_reveal [OF run_step [OF _ this, of "Tasks sample_idle"]]
  have "reveal_step toy sample_claimer sample_solving sample_removing"
    by (simp add: sample_solving_def sample_removing_def sample_idle_def tasks_of_def add_mset_commute)
  then show ?thesis
    by (rule reachable_step [OF sample_solving_reachable])
qed

section \<open>Properties\<close>

text \<open>
  Whatever the interleaving of submissions, transactions, probes and solves, every bundle the
  reveal plugin has submitted was built for a sound claim: it spends an output of a transaction the
  plugin was given, with that output's value, through the closure of a packet that opens under
  the plugin's key and whose minimum the output reaches.
\<close>

theorem reveal_submissions_sound:
  assumes "reveal_reachable L c s" and "(m, b, answer) \<in> set (Sent s)"
  shows "(\<exists>pkt. sound_claim L c pkt m) \<and> claim_bundle L c m = Inr b"
  using reveal_reachable_inv [OF assms(1)] assms(2) by (auto simp: reveal_inv_def sent_ok_def)

theorem reveal_submissions_sound_witness:
  "(\<exists>pkt. sound_claim toy sample_claimer pkt sample_match) \<and>
   claim_bundle toy sample_claimer sample_match = Inr sample_bundle"
  by (rule reveal_submissions_sound [OF sample_removing_reachable, of _ _ "Inr ()"])
    (simp add: sample_removing_def)

text \<open>
  A registration leaves the registry only because it has expired or because a claim of its script
  has been accepted by the emulator. A failed claim, a refused submission or a submission for another
  address never removes it, in any interleaving.
\<close>

theorem registration_is_kept:
  assumes "reveal_reachable L c s" and "reveal_step L c s s'"
    and "fmlookup (Packets s) key = Some r" and "fmlookup (Packets s') key = None"
  shows "expired (Now s) r \<or>
    (\<exists>m b. (m, b, Inr ()) \<in> set (Sent s) \<and> key = hex_encode (CredPkScript (MCredentials m)))"
  by (rule reveal_step_drops [OF assms])

theorem registration_is_kept_witness:
  "expired 0 sample_registration \<or>
    (\<exists>m b. (m, b, Inr ()) \<in> set (Sent sample_removing) \<and>
       hex_encode sample_pkscript = hex_encode (CredPkScript (MCredentials m)))"
proof -
  have "reveal_step toy sample_claimer sample_removing
      (sample_removing\<lparr>Packets := unregister (hex_encode sample_pkscript) sample_registry,
         Tasks := Tasks sample_idle\<rparr>)"
    using task_step_reveal [OF run_step [of sample_removing "Removing (hex_encode sample_pkscript)"
        "Tasks sample_idle" toy sample_claimer _ _ _ None]]
    by (simp add: sample_removing_def sample_idle_def tasks_of_def)
  from registration_is_kept [OF sample_removing_reachable this,
      of "hex_encode sample_pkscript" sample_registration] show ?thesis
    by (simp add: sample_removing_def sample_idle_def sample_registry_def reg.remove_entry)
qed

text \<open>
  Removing a claimed registration goes by its key alone. A registration renewed after the claim has been
  accepted, and before it is removed, is dropped although its submission has succeeded.
\<close>

theorem renewed_registration_is_dropped:
  "\<exists>s s' r. reveal_reachable toy sample_claimer s \<and> reveal_step toy sample_claimer s s' \<and>
     fmlookup (Packets s) (hex_encode sample_pkscript) = Some r \<and>
     RegExpireAt r = Now s + registrationTTL \<and>
     Submit toy sample_claimer (Now s) sample_pkscript sample_taptree sample_claim_packet sample_registry =
       (Inr (hex_encode sample_pkscript), Packets s) \<and>
     Sent s = Sent sample_removing \<and> Sent s' = Sent s \<and>
     fmlookup (Packets s') (hex_encode sample_pkscript) = None"
proof -
  let ?key = "hex_encode sample_pkscript"
  let ?s1 = "sample_removing\<lparr>Now := 1\<rparr>"
  have live: "fmlookup sample_registry ?key = Some sample_registration" "\<not> expired 1 sample_registration"
    by (simp_all add: sample_registry_def sample_registration_def expired_def registrationTTL_def)
  obtain packets where reg:
    "register 1 ?key sample_claim_packet sample_taptree sample_registry = (Inr (), packets)"
    using register_replaces [OF live, of sample_claim_packet sample_taptree] by (metis prod.collapse)
  have "address_pk_script toy sample_pkscript = Inr sample_pkscript"
    by (simp add: toy_def)
  moreover have "ArkadeScript sample_claim_packet = sample_script"
    by (simp add: sample_claim_packet_def)
  ultimately have sub: "Submit toy sample_claimer 1 sample_pkscript sample_taptree sample_claim_packet
      sample_registry = (Inr ?key, packets)"
    using sample_decrypt sample_validateAddress reg by (simp add: Submit_def)
  let ?s2 = "?s1\<lparr>Packets := packets, Tasks := add_mset (Probing ?key) (Tasks ?s1)\<rparr>"
  let ?s3 = "?s2\<lparr>Packets := unregister ?key packets,
    Tasks := add_mset (Probing ?key) (Tasks sample_idle)\<rparr>"
  have later: "reveal_step toy sample_claimer sample_removing ?s1"
    by (rule reveal_step.tick) (simp add: sample_removing_def sample_idle_def)
  have renewed: "reveal_step toy sample_claimer ?s1 ?s2"
    by (rule reveal_step.submit_ok) (use sub in \<open>simp add: sample_removing_def sample_idle_def\<close>)
  have reach: "reveal_reachable toy sample_claimer ?s2"
    by (rule reachable_step [OF reachable_step [OF sample_removing_reachable later] renewed])
  have "reveal_step toy sample_claimer ?s2 ?s3"
    using task_step_reveal [OF run_step [of ?s2 "Removing ?key"
        "add_mset (Probing ?key) (Tasks sample_idle)" toy sample_claimer _ _ _ None]]
    by (simp add: sample_removing_def sample_idle_def tasks_of_def add_mset_commute)
  moreover have "fmlookup packets ?key = Some \<lparr>RegPacket = sample_claim_packet,
      RegTaptree = sample_taptree, RegExpireAt = 1 + registrationTTL\<rparr>"
    using register_done [of 1 ?key sample_claim_packet sample_taptree sample_registry] reg by simp
  moreover have "fmlookup (unregister ?key packets) ?key = None"
    by (simp add: reg.remove_entry)
  ultimately show ?thesis
    using reach sub
    by (intro exI [of _ ?s2] exI [of _ ?s3]) simp
qed

text \<open>
  In every reachable state the registry holds at most 10000 entries, none of which expires more
  than 15 minutes from now, and each is bound to its key: its taptree pays the script the key
  stands for and holds the claim closure for its packet, which opens.
\<close>

theorem registry_is_bounded_and_bound:
  assumes "reveal_reachable L c s"
  shows "fcard (fmdom (Packets s)) \<le> maxRegistrations \<and> expiry_ok (Now s) (Packets s) \<and>
    all_bound L c (Packets s)"
  using reveal_reachable_inv [OF assms] by (simp add: reveal_inv_def)

theorem registry_is_bounded_and_bound_witness:
  "fcard (fmdom (Packets sample_idle)) \<le> maxRegistrations \<and>
   expiry_ok (Now sample_idle) (Packets sample_idle) \<and>
   all_bound toy sample_claimer (Packets sample_idle)"
  by (rule registry_is_bounded_and_bound [OF sample_idle_reachable])

text \<open>
  The code's \<open>Match\<close> and \<open>Solve\<close>, each taken as one call, are refined by the steps: from any state in
  which a transaction arrives that \<open>Match\<close> answers with a claim, there is a run that leaves the
  registry as \<open>Solve\<close> leaves it and submits exactly what \<open>Solve\<close> submits.
\<close>

theorem match_and_solve_refined:
  assumes "reveal_Match L c (\<lambda>_. Packets s) idx (Some tx) = Some m"
    and "reveal_Solve L c emu (ClaimIntent m) (Packets s) = (sub, packets)"
  shows "(reveal_step L c)\<^sup>*\<^sup>* s (s\<lparr>Packets := packets, Sent := Sent s @ sent_of emu m sub\<rparr>)"
proof -
  let ?s = "s\<lparr>Tasks := add_mset (Solving m) (Tasks s)\<rparr>"
  have "(reveal_step L c)\<^sup>*\<^sup>* ?s
      (?s\<lparr>Packets := packets, Tasks := Tasks s, Sent := Sent ?s @ sent_of emu m sub\<rparr>)"
    by (rule task_runs [OF solve_run]) (use assms(2) in simp_all)
  with match_run [OF assms(1)] show ?thesis
    by simp
qed

theorem match_and_solve_refined_witness:
  "(reveal_step toy sample_claimer)\<^sup>*\<^sup>* sample_idle
     (sample_idle\<lparr>Packets := unregister (hex_encode sample_pkscript) sample_registry,
        Sent := [(sample_match, sample_bundle, Inr ())]\<rparr>)"
proof -
  have m: "reveal_Match toy sample_claimer (\<lambda>_. Packets sample_idle)
      (\<lambda>_ _. Inr [\<lparr>VtxoTxid = ''t''\<rparr>]) (Some sample_tx) = Some sample_match"
    using sample_reveal_Match by (simp add: sample_idle_def)
  have "reveal_Solve toy sample_claimer (\<lambda>_. Inr ()) (ClaimIntent sample_match) (Packets sample_idle) =
      (Some sample_bundle, unregister (hex_encode sample_pkscript) sample_registry)"
    by (simp add: reveal_Solve_def claim_def sample_bundle map_err_def sample_idle_def)
      (simp add: sample_match_def sample_creds_def)
  from match_and_solve_refined [OF m this] show ?thesis
    by (simp add: sent_of_def sample_idle_def)
qed

text \<open>
  The probe is refined by the steps: from any state in which it is to run, there is a run of its
  goroutine alone that leaves the registry as \<open>claimIfAlreadyFunded\<close> leaves it, submits exactly what
  that submits, and ends.
\<close>

theorem probe_refined:
  assumes "Tasks s = add_mset (Probing key) ts"
    and "claimIfAlreadyFunded L c idx virtual (\<lambda>_. Packets s) idx' emu key (Packets s) = (sub, packets)"
  shows "\<exists>m. (reveal_step L c)\<^sup>*\<^sup>* s
    (s\<lparr>Packets := packets, Tasks := ts, Sent := Sent s @ sent_of emu m sub\<rparr>)"
  using probe_run [OF assms] task_runs by blast

theorem probe_refined_witness:
  "\<exists>m. (reveal_step toy sample_claimer)\<^sup>*\<^sup>* sample_idle
     (sample_idle\<lparr>Packets := sample_registry, Tasks := {#}, Sent := sent_of (\<lambda>_. Inr ()) m None\<rparr>)"
  using probe_refined [of sample_idle "hex_encode sample_pkscript" "{#}" toy sample_claimer
      "\<lambda>_ _. Inr []" "\<lambda>_. Inr []" "\<lambda>_ _. Inr []" "\<lambda>_. Inr ()" None sample_registry]
  by (simp add: sample_idle_def claimIfAlreadyFunded_def probe_tx_def)

end
