(* ===== verification/PluginContract.thy ===== *)
theory PluginContract
  imports Executor RevealSystem
begin

text \<open>
  The \<open>Plugin\<close> interface of \<open>pkg/executor/executor.go\<close>, what its two implementations in \<open>pkg/preimage\<close>
  promise behind it, and what the executor makes of that promise. The locale \<open>plugin_contract\<close> holds
  the laws and what follows from them in any run of the executor; it is interpreted on the
  encrypted and on the reveal plugin.
\<close>

section \<open>Model\<close>

text \<open>
  The plugins as the executor sees them. A world is what the indexer answers to the spendability
  query and, for the reveal plugin, the registry at each output it looks at.
\<close>

record world =
  WIndexer :: indexer
  WSnapshot :: "nat \<Rightarrow> registry"

definition encrypted_plugin ::
  "('priv, 'pub) ext \<Rightarrow> ('priv, 'pub) enc_plugin \<Rightarrow> (world, psbt, intent) plugin" where
  "encrypted_plugin L p =
     \<lparr>PFilter = enc_Filter p,
      PMatch = (\<lambda>w tx. Return (map_option ClaimIntent (enc_Match L p (WIndexer w) (Some tx)))),
      PSolve = (\<lambda>_ _. Return ())\<rparr>"

definition reveal_plugin ::
  "('priv, 'pub) ext \<Rightarrow> ('priv, 'pub) claimer \<Rightarrow> (world, psbt, intent) plugin" where
  "reveal_plugin L c =
     \<lparr>PFilter = reveal_Filter,
      PMatch = (\<lambda>w tx. Return (map_option ClaimIntent
        (reveal_Match L c (WSnapshot w) (WIndexer w) (Some tx)))),
      PSolve = (\<lambda>_ _. Return ())\<rparr>"

text \<open>Solving a list of intents one after the other, each with the emulator of its moment.\<close>

fun solve_all ::
  "('e \<Rightarrow> 'i \<Rightarrow> 's \<Rightarrow> 'b option \<times> 's) \<Rightarrow> ('e \<times> 'i) list \<Rightarrow> 's \<Rightarrow> ('i \<times> 'b) list \<times> 's" where
  "solve_all solve [] s = ([], s)"
| "solve_all solve ((e, i) # xs) s =
     (let (b, s1) = solve e i s;
          (bs, s2) = solve_all solve xs s1
      in (case b of None \<Rightarrow> bs | Some x \<Rightarrow> (i, x) # bs, s2))"

section \<open>The contract\<close>

text \<open>
  \<open>Match\<close> gives only sound intents, and \<open>Solve\<close> keeps the plugin's state and submits, for a sound intent,
  nothing but that intent's bundle.
\<close>

locale plugin_contract =
  fixes p :: "('w, 'tx, 'i) plugin"
    and W :: "'w \<Rightarrow> bool"
    and solve :: "'e \<Rightarrow> 'i \<Rightarrow> 's \<Rightarrow> 'b option \<times> 's"
    and inv :: "'s \<Rightarrow> bool"
    and sound :: "'i \<Rightarrow> bool"
    and right :: "'i \<Rightarrow> 'b \<Rightarrow> bool"
  assumes match_sound: "W w \<Longrightarrow> PMatch p w tx = Return (Some i) \<Longrightarrow> sound i"
    and solve_keeps: "inv s \<Longrightarrow> inv (snd (solve e i s))"
    and solve_right: "sound i \<Longrightarrow> fst (solve e i s) = Some b \<Longrightarrow> right i b"
begin

lemma safeMatch_sound: "W w \<Longrightarrow> safeMatch p w tx = Some i \<Longrightarrow> sound i"
  using match_sound by (auto simp: safeMatch_def split: outcome.splits)

lemma taken_sound:
  "list_all (taken_ok W p) taken \<Longrightarrow> i \<in> set (intents_of taken) \<Longrightarrow> sound i"
  by (fastforce simp: set_intents_of list_all_iff taken_ok_def dest: safeMatch_sound [OF _ sym]
      split: option.splits)

text \<open>Whatever runs beside it, the plugin is only ever asked to solve sound intents.\<close>

lemma started_sound:
  assumes "consumer_inv W cancelled c" and "CPlugin c = p" and "i \<in># CInFlight c + CSolved c"
  shows "sound i"
proof -
  have "i \<in># mset (intents_of (CTaken c))"
    using assms(1,3) by (simp add: consumer_inv_def)
  then show ?thesis
    using assms(1,2) taken_sound [of "CTaken c" i] by (simp add: consumer_inv_def)
qed

text \<open>Solving sound intents, in any order, submits right bundles only and keeps the state.\<close>

lemma solve_all_right:
  assumes "list_all (\<lambda>(e, i). sound i) xs" and "inv s"
  shows "list_all (\<lambda>(i, b). right i b) (fst (solve_all solve xs s)) \<and> inv (snd (solve_all solve xs s))"
  using assms
proof (induction xs arbitrary: s)
  case (Cons x xs)
  obtain e i where x: "x = (e, i)" by fastforce
  obtain b s1 where s: "solve e i s = (b, s1)" by fastforce
  have "inv s1"
    using solve_keeps [of s e i] Cons.prems(2) s by simp
  moreover have "right i y" if "b = Some y" for y
    using solve_right [of i e s y] Cons.prems(1) s x that by simp
  moreover obtain bs s2 where "solve_all solve xs s1 = (bs, s2)" by fastforce
  ultimately show ?case
    using Cons.IH [of s1] Cons.prems(1) s x by (cases b) simp_all
qed simp

end

section \<open>Both plugins keep it\<close>

definition sound_intent :: "('priv, 'pub) ext \<Rightarrow> ('priv, 'pub) claimer \<Rightarrow> intent \<Rightarrow> bool" where
  "sound_intent L c i \<longleftrightarrow> (\<exists>m pkt. i = ClaimIntent m \<and> sound_claim L c pkt m)"

definition bundle_of :: "('priv, 'pub) ext \<Rightarrow> ('priv, 'pub) claimer \<Rightarrow> intent \<Rightarrow> submission \<Rightarrow> bool" where
  "bundle_of L c i b \<longleftrightarrow> (\<exists>m. i = ClaimIntent m \<and> claim_bundle L c m = Inr b)"

definition bound_world :: "('priv, 'pub) ext \<Rightarrow> ('priv, 'pub) claimer \<Rightarrow> world \<Rightarrow> bool" where
  "bound_world L c w \<longleftrightarrow> (\<forall>i. all_bound L c (WSnapshot w i))"

lemma claim_bundle_of: "snd (claim L c emu m) = Some b \<Longrightarrow> claim_bundle L c m = Inr b"
  by (simp add: claim_def split: sum.splits)

lemma reveal_Solve_bundle:
  "fst (reveal_Solve L c emu i packets) = Some b \<Longrightarrow> bundle_of L c i b"
  by (auto simp: reveal_Solve_def bundle_of_def Let_def claim_bundle_of
      split: intent.splits prod.splits sum.splits dest: claim_bundle_of [OF arg_cong [where f = snd, THEN trans]])

lemma reveal_Solve_all_bound:
  "all_bound L c packets \<Longrightarrow> all_bound L c (snd (reveal_Solve L c emu i packets))"
  by (auto simp: reveal_Solve_def Let_def unregister_all_bound
      split: intent.splits prod.splits sum.splits)

interpretation enc: plugin_contract "encrypted_plugin L p" "\<lambda>_. True"
  "\<lambda>emu i s. (enc_Solve L p emu i, s)" "\<lambda>_. True" "sound_intent L (EncClaimer p)"
  "bundle_of L (EncClaimer p)"
  for L :: "('priv, 'pub) ext" and p :: "('priv, 'pub) enc_plugin"
proof unfold_locales
  show "sound_intent L (EncClaimer p) i" if "PMatch (encrypted_plugin L p) w tx = Return (Some i)" for w tx i
    using that by (fastforce simp: encrypted_plugin_def sound_intent_def dest: enc_Match_sound)
  show "bundle_of L (EncClaimer p) i b" if "fst (enc_Solve L p e i, s) = Some b" for e i s b
    using that by (auto simp: enc_Solve_def bundle_of_def claim_bundle_of split: intent.splits)
qed simp

interpretation rev: plugin_contract "reveal_plugin L c" "bound_world L c" "reveal_Solve L c"
  "all_bound L c" "sound_intent L c" "bundle_of L c"
  for L :: "('priv, 'pub) ext" and c :: "('priv, 'pub) claimer"
proof unfold_locales
  show "sound_intent L c i" if "bound_world L c w" "PMatch (reveal_plugin L c) w tx = Return (Some i)"
    for w tx i
    using that reveal_Match_sound
    by (fastforce simp: reveal_plugin_def sound_intent_def bound_world_def)
qed (simp_all add: reveal_Solve_all_bound reveal_Solve_bundle)

end
