(* ===== verification/Config.thy ===== *)
theory Config
  imports Prelude
begin

text \<open>
  \<open>internal/config/config.go\<close>: reading the configuration from the environment. \<open>os.Getenv\<close> is a
  function on names, empty where a variable is unset; \<open>strconv.Atoi\<close> and \<open>strconv.ParseBool\<close> are
  written out, with a failure as \<open>None\<close>, since \<open>Load\<close> reports every failure of theirs alike. The
  construction of a private key from bytes is btcec's and a parameter.
\<close>

section \<open>Model\<close>

definition envPrefix :: string where "envPrefix = ''COVCLAIMD_''"
definition defaultGRPCPort :: int where "defaultGRPCPort = 7070"
definition defaultHTTPPort :: int where "defaultHTTPPort = 7071"
definition defaultLogLevel :: int where "defaultLogLevel = 4"
definition secretKeyLen :: nat where "secretKeyLen = 32"

record 'priv daemon_config =
  ArkURL :: string
  EmulatorURL :: string
  CfgKey :: 'priv
  GRPCPort :: int
  HTTPPort :: int
  LogLevel :: int
  EncryptedEnabled :: bool
  RevealEnabled :: bool

datatype load_error =
    ArkURLRequired
  | EmulatorURLRequired
  | MustBeInteger string
  | MustBeBoolean string
  | GRPCPortRange
  | HTTPPortRange
  | PortsMustDiffer
  | SecretKeyNotHex
  | SecretKeyLength nat
  | SecretKeyZero
  | NothingEnabled

text \<open>\<open>strconv.Atoi\<close> on a platform of 64-bit \<open>int\<close>: an optional sign and at least one digit.\<close>

definition digit_of :: "char \<Rightarrow> nat option" where
  "digit_of c = (if 48 \<le> (of_char c :: nat) \<and> of_char c \<le> (57 :: nat) then Some (of_char c - 48) else None)"

fun digits_value :: "nat \<Rightarrow> string \<Rightarrow> nat option" where
  "digits_value acc [] = Some acc"
| "digits_value acc (c # cs) =
     (case digit_of c of None \<Rightarrow> None | Some d \<Rightarrow> digits_value (acc * 10 + d) cs)"

definition atoi :: "string \<Rightarrow> int option" where
  "atoi s =
     (let neg = (case s of c # _ \<Rightarrow> c = CHR ''-'' | [] \<Rightarrow> False);
          rest = (case s of c # cs \<Rightarrow> if c = CHR ''-'' \<or> c = CHR ''+'' then cs else s | [] \<Rightarrow> [])
      in if rest = [] then None
         else case digits_value 0 rest of None \<Rightarrow> None | Some n \<Rightarrow>
           if neg then (if n \<le> 2 ^ 63 then Some (- int n) else None)
           else (if n < 2 ^ 63 then Some (int n) else None))"

definition parse_bool :: "string \<Rightarrow> bool option" where
  "parse_bool s =
     (if s \<in> {''1'', ''t'', ''T'', ''TRUE'', ''true'', ''True''} then Some True
      else if s \<in> {''0'', ''f'', ''F'', ''FALSE'', ''false'', ''False''} then Some False
      else None)"

definition envInt :: "(string \<Rightarrow> string) \<Rightarrow> string \<Rightarrow> int \<Rightarrow> load_error + int" where
  "envInt getenv key dflt =
     (let s = getenv (envPrefix @ key) in
      if s = [] then Inr dflt
      else case atoi s of None \<Rightarrow> Inl (MustBeInteger key) | Some v \<Rightarrow> Inr v)"

definition envBool :: "(string \<Rightarrow> string) \<Rightarrow> string \<Rightarrow> bool \<Rightarrow> load_error + bool" where
  "envBool getenv key dflt =
     (let s = getenv (envPrefix @ key) in
      if s = [] then Inr dflt
      else case parse_bool s of None \<Rightarrow> Inl (MustBeBoolean key) | Some v \<Rightarrow> Inr v)"

text \<open>The order of the checks is the code's, since the first failure is the error.\<close>

definition Load ::
  "(bytes \<Rightarrow> 'priv) \<Rightarrow> ('priv \<Rightarrow> bool) \<Rightarrow> (string \<Rightarrow> string) \<Rightarrow> load_error + 'priv daemon_config" where
  "Load priv_key_from_bytes is_zero getenv =
     (let arkURL = getenv (envPrefix @ ''ARK_URL'') in
      if arkURL = [] then Inl ArkURLRequired
      else let emulatorURL = getenv (envPrefix @ ''EMULATOR_URL'') in
      if emulatorURL = [] then Inl EmulatorURLRequired
      else
      res_bind (envInt getenv ''GRPC_PORT'' defaultGRPCPort) (\<lambda>grpcPort.
      res_bind (envInt getenv ''HTTP_PORT'' defaultHTTPPort) (\<lambda>httpPort.
      res_bind (envInt getenv ''LOG_LEVEL'' defaultLogLevel) (\<lambda>logLevel.
      if grpcPort < 1 \<or> grpcPort > 65535 then Inl GRPCPortRange
      else if httpPort < 1 \<or> httpPort > 65535 then Inl HTTPPortRange
      else if grpcPort = httpPort then Inl PortsMustDiffer
      else
      case hex_decode (getenv (envPrefix @ ''SECRET_KEY'')) of
        Inl _ \<Rightarrow> Inl SecretKeyNotHex
      | Inr secretKeyBytes \<Rightarrow>
          if length secretKeyBytes \<noteq> secretKeyLen then Inl (SecretKeyLength (length secretKeyBytes))
          else let seckey = priv_key_from_bytes secretKeyBytes in
          if is_zero seckey then Inl SecretKeyZero
          else
          res_bind (envBool getenv ''ENCRYPTED_ENABLED'' True) (\<lambda>encryptedEnabled.
          res_bind (envBool getenv ''REVEAL_ENABLED'' False) (\<lambda>revealEnabled.
          if \<not> encryptedEnabled \<and> \<not> revealEnabled then Inl NothingEnabled
          else Inr
            \<lparr>ArkURL = arkURL, EmulatorURL = emulatorURL, CfgKey = seckey, GRPCPort = grpcPort,
             HTTPPort = httpPort, LogLevel = logLevel, EncryptedEnabled = encryptedEnabled,
             RevealEnabled = revealEnabled\<rparr>))))))"

section \<open>Numbers and switches\<close>

lemma digit_of_digit [simp]: "n < 10 \<Longrightarrow> digit_of (char_of (48 + n)) = Some n"
  by (simp add: digit_of_def)

lemma digits_value_append:
  "digits_value acc (xs @ ys) =
     (case digits_value acc xs of None \<Rightarrow> None | Some n \<Rightarrow> digits_value n ys)"
  by (induction acc xs rule: digits_value.induct) (auto split: option.split)

lemma digits_value_itoa: "digits_value 0 (itoa n) = Some n"
proof (induction n rule: less_induct)
  case (less n)
  show ?case
  proof (cases "n < 10")
    case False
    with less [of "n div 10"] show ?thesis
      by (subst itoa.simps) (simp add: digits_value_append)
  qed (simp add: itoa_digit)
qed

lemma itoa_nonempty: "itoa n \<noteq> []"
  by (subst itoa.simps) simp

lemma itoa_not_sign:
  "\<exists>c cs. itoa n = c # cs \<and> c \<noteq> CHR ''-'' \<and> c \<noteq> CHR ''+''"
proof -
  obtain c cs where c: "itoa n = c # cs"
    using itoa_nonempty by (metis list.exhaust)
  moreover have "digit_of c \<noteq> None"
    using digits_value_itoa [of n] c by (auto split: option.splits)
  ultimately show ?thesis
    by (auto simp: digit_of_def)
qed

lemma atoi_itoa: "n < 2 ^ 63 \<Longrightarrow> atoi (itoa n) = Some (int n)"
  using itoa_not_sign [of n] digits_value_itoa [of n] by (auto simp: atoi_def)

lemma atoi_bounds: "atoi s = Some v \<Longrightarrow> - (2 ^ 63) \<le> v \<and> v < 2 ^ 63"
  by (auto simp: atoi_def Let_def split: list.splits if_splits option.splits)

lemma envInt_Inr:
  "envInt getenv key dflt = Inr v \<longleftrightarrow>
     (if getenv (envPrefix @ key) = [] then v = dflt else atoi (getenv (envPrefix @ key)) = Some v)"
  by (auto simp: envInt_def Let_def split: option.splits)

lemma envBool_Inr:
  "envBool getenv key dflt = Inr v \<longleftrightarrow>
     (if getenv (envPrefix @ key) = [] then v = dflt
      else parse_bool (getenv (envPrefix @ key)) = Some v)"
  by (auto simp: envBool_def Let_def split: option.splits)

lemma Load_enabled:
  assumes "Load pk is_zero getenv = Inr cfg"
  shows "EncryptedEnabled cfg \<or> RevealEnabled cfg"
  using assms
  by (cases "hex_decode (getenv (envPrefix @ ''SECRET_KEY''))")
    (auto simp: Load_def Let_def res_simps split: if_split_asm)

section \<open>Properties\<close>

text \<open>The value a variable stands for: its default where it is unset.\<close>

definition int_setting :: "(string \<Rightarrow> string) \<Rightarrow> string \<Rightarrow> int \<Rightarrow> int \<Rightarrow> bool" where
  "int_setting getenv key dflt v \<longleftrightarrow>
     (if getenv (envPrefix @ key) = [] then v = dflt else atoi (getenv (envPrefix @ key)) = Some v)"

definition bool_setting :: "(string \<Rightarrow> string) \<Rightarrow> string \<Rightarrow> bool \<Rightarrow> bool \<Rightarrow> bool" where
  "bool_setting getenv key dflt v \<longleftrightarrow>
     (if getenv (envPrefix @ key) = [] then v = dflt
      else parse_bool (getenv (envPrefix @ key)) = Some v)"

lemma int_setting_iff: "int_setting getenv key dflt v \<longleftrightarrow> envInt getenv key dflt = Inr v"
  by (simp add: int_setting_def envInt_Inr)

lemma bool_setting_iff: "bool_setting getenv key dflt v \<longleftrightarrow> envBool getenv key dflt = Inr v"
  by (simp add: bool_setting_def envBool_Inr)

text \<open>
  C34: \<open>Load\<close> accepts exactly the environments that name both servers, give numbers and switches that
  parse, ports between 1 and 65535 that differ, a secret key of 32 bytes in hex that is not zero, and
  at least one plugin; the configuration it returns holds those values.
\<close>

theorem load_accepts:
  "Load pk is_zero getenv = Inr cfg \<longleftrightarrow>
     ArkURL cfg = getenv (envPrefix @ ''ARK_URL'') \<and> ArkURL cfg \<noteq> [] \<and>
     EmulatorURL cfg = getenv (envPrefix @ ''EMULATOR_URL'') \<and> EmulatorURL cfg \<noteq> [] \<and>
     int_setting getenv ''GRPC_PORT'' defaultGRPCPort (GRPCPort cfg) \<and> GRPCPort cfg \<in> {1..65535} \<and>
     int_setting getenv ''HTTP_PORT'' defaultHTTPPort (HTTPPort cfg) \<and> HTTPPort cfg \<in> {1..65535} \<and>
     int_setting getenv ''LOG_LEVEL'' defaultLogLevel (LogLevel cfg) \<and>
     GRPCPort cfg \<noteq> HTTPPort cfg \<and>
     (\<exists>bs. hex_decode (getenv (envPrefix @ ''SECRET_KEY'')) = Inr bs \<and> length bs = 32 \<and>
        CfgKey cfg = pk bs) \<and> \<not> is_zero (CfgKey cfg) \<and>
     bool_setting getenv ''ENCRYPTED_ENABLED'' True (EncryptedEnabled cfg) \<and>
     bool_setting getenv ''REVEAL_ENABLED'' False (RevealEnabled cfg) \<and>
     (EncryptedEnabled cfg \<or> RevealEnabled cfg)" (is "?load \<longleftrightarrow> ?spec")
proof
  assume load: ?load
  then obtain bs where "hex_decode (getenv (envPrefix @ ''SECRET_KEY'')) = Inr bs"
    by (cases "hex_decode (getenv (envPrefix @ ''SECRET_KEY''))")
      (simp_all add: Load_def Let_def res_simps split: if_split_asm)
  with load obtain g h l e r where
    env: "getenv (envPrefix @ ''ARK_URL'') \<noteq> []" "getenv (envPrefix @ ''EMULATOR_URL'') \<noteq> []"
      "envInt getenv ''GRPC_PORT'' defaultGRPCPort = Inr g"
      "envInt getenv ''HTTP_PORT'' defaultHTTPPort = Inr h"
      "envInt getenv ''LOG_LEVEL'' defaultLogLevel = Inr l"
      "hex_decode (getenv (envPrefix @ ''SECRET_KEY'')) = Inr bs"
      "envBool getenv ''ENCRYPTED_ENABLED'' True = Inr e"
      "envBool getenv ''REVEAL_ENABLED'' False = Inr r"
    and ok: "1 \<le> g" "g \<le> 65535" "1 \<le> h" "h \<le> 65535" "g \<noteq> h" "length bs = 32"
      "\<not> is_zero (pk bs)" "e \<or> r"
    and cfg: "\<lparr>ArkURL = getenv (envPrefix @ ''ARK_URL''),
      EmulatorURL = getenv (envPrefix @ ''EMULATOR_URL''), CfgKey = pk bs, GRPCPort = g,
      HTTPPort = h, LogLevel = l, EncryptedEnabled = e, RevealEnabled = r\<rparr> = cfg"
    by (simp add: Load_def Let_def res_simps secretKeyLen_def not_less split: if_split_asm) blast
  then show ?spec
    unfolding int_setting_iff bool_setting_iff cfg [symmetric] by simp
next
  assume s: ?spec
  then obtain bs where "hex_decode (getenv (envPrefix @ ''SECRET_KEY'')) = Inr bs" "length bs = 32"
      "CfgKey cfg = pk bs"
    by blast
  moreover from s have "envInt getenv ''GRPC_PORT'' defaultGRPCPort = Inr (GRPCPort cfg)"
    "envInt getenv ''HTTP_PORT'' defaultHTTPPort = Inr (HTTPPort cfg)"
    "envInt getenv ''LOG_LEVEL'' defaultLogLevel = Inr (LogLevel cfg)"
    "envBool getenv ''ENCRYPTED_ENABLED'' True = Inr (EncryptedEnabled cfg)"
    "envBool getenv ''REVEAL_ENABLED'' False = Inr (RevealEnabled cfg)"
    unfolding int_setting_iff bool_setting_iff by blast+
  moreover from s have "getenv (envPrefix @ ''ARK_URL'') = ArkURL cfg" "ArkURL cfg \<noteq> []"
    "getenv (envPrefix @ ''EMULATOR_URL'') = EmulatorURL cfg" "EmulatorURL cfg \<noteq> []"
    "\<not> (GRPCPort cfg < 1 \<or> 65535 < GRPCPort cfg)" "\<not> (HTTPPort cfg < 1 \<or> 65535 < HTTPPort cfg)"
    "GRPCPort cfg \<noteq> HTTPPort cfg" "\<not> is_zero (CfgKey cfg)"
    "\<not> (\<not> EncryptedEnabled cfg \<and> \<not> RevealEnabled cfg)"
    by (elim conjE, simp add: not_less)+
  ultimately have "Load pk is_zero getenv = Inr
    \<lparr>ArkURL = ArkURL cfg, EmulatorURL = EmulatorURL cfg, CfgKey = CfgKey cfg,
     GRPCPort = GRPCPort cfg, HTTPPort = HTTPPort cfg, LogLevel = LogLevel cfg,
     EncryptedEnabled = EncryptedEnabled cfg, RevealEnabled = RevealEnabled cfg\<rparr>"
    unfolding Load_def Let_def secretKeyLen_def by simp
  then show ?load by simp
qed

text \<open>The smallest environment: the servers and the key.\<close>

definition sample_env :: "string \<Rightarrow> string" where
  "sample_env name =
     (if name = ''COVCLAIMD_ARK_URL'' then ''ark:7070''
      else if name = ''COVCLAIMD_EMULATOR_URL'' then ''emulator:7073''
      else if name = ''COVCLAIMD_SECRET_KEY'' then replicate 64 CHR ''1'' else [])"

lemma Load_sample_env:
  assumes "\<not> is_zero (pk (replicate 32 0x11))"
  shows "Load pk is_zero sample_env = Inr
    \<lparr>ArkURL = ''ark:7070'', EmulatorURL = ''emulator:7073'', CfgKey = pk (replicate 32 0x11),
     GRPCPort = defaultGRPCPort, HTTPPort = defaultHTTPPort, LogLevel = defaultLogLevel,
     EncryptedEnabled = True, RevealEnabled = False\<rparr>"
proof -
  have "hex_decode (replicate (2 * n) CHR ''1'') = Inr (replicate n 0x11)" for n
    by (induction n) (simp_all add: from_hex_char_def)
  from this [of 32] have "hex_decode (sample_env (envPrefix @ ''SECRET_KEY'')) = Inr (replicate 32 0x11)"
    by (simp add: sample_env_def envPrefix_def)
  with assms show ?thesis
    by (simp add: Load_def Let_def envInt_def envBool_def sample_env_def envPrefix_def secretKeyLen_def
        defaultGRPCPort_def defaultHTTPPort_def defaultLogLevel_def)
qed

text \<open>
  With nothing set but the servers and a key the defaults hold: ports 7070 and 7071, log level 4,
  the encrypted plugin alone.
\<close>

theorem load_defaults:
  assumes "\<not> is_zero (pk (replicate 32 0x11))"
  shows "Load pk is_zero sample_env = Inr
    \<lparr>ArkURL = ''ark:7070'', EmulatorURL = ''emulator:7073'', CfgKey = pk (replicate 32 0x11),
     GRPCPort = 7070, HTTPPort = 7071, LogLevel = 4, EncryptedEnabled = True, RevealEnabled = False\<rparr>"
  using Load_sample_env [where pk = pk and is_zero = is_zero] assms
  by (simp add: defaultGRPCPort_def defaultHTTPPort_def defaultLogLevel_def)

theorem load_defaults_witness:
  "Load (\<lambda>bs. bs) (\<lambda>bs. bs = replicate 32 0) sample_env = Inr
    \<lparr>ArkURL = ''ark:7070'', EmulatorURL = ''emulator:7073'', CfgKey = replicate 32 0x11,
     GRPCPort = 7070, HTTPPort = 7071, LogLevel = 4, EncryptedEnabled = True, RevealEnabled = False\<rparr>"
  by (rule load_defaults [of "\<lambda>bs. bs = replicate 32 0" "\<lambda>bs. bs"]) simp

end
