(* ===== verification/Base64.thy ===== *)
theory Base64
  imports Prelude
begin

text \<open>
  \<open>base64.StdEncoding\<close> of Go's standard library, which the HTTP gateway decodes packets with: the
  decoder as Go has it (new lines are skipped, padding is required, bits left over in the last quantum
  are ignored), the encoder clients use, and the round trip.
\<close>

section \<open>Model\<close>

definition b64_char :: "nat \<Rightarrow> char" where
  "b64_char n =
     (if n < 26 then char_of (n + 65) else if n < 52 then char_of (n + 71)
      else if n < 62 then char_of (n - 4) else if n = 62 then CHR ''+'' else CHR ''/'')"

definition b64_value :: "char \<Rightarrow> nat option" where
  "b64_value c =
     (let n = (of_char c :: nat) in
      if 65 \<le> n \<and> n \<le> 90 then Some (n - 65)
      else if 97 \<le> n \<and> n \<le> 122 then Some (n - 71)
      else if 48 \<le> n \<and> n \<le> 57 then Some (n + 4)
      else if n = 43 then Some 62
      else if n = 47 then Some 63
      else None)"

fun b64_quanta :: "string \<Rightarrow> bytes option" where
  "b64_quanta [] = Some []"
| "b64_quanta (a # b # c # d # rest) =
     (case (b64_value a, b64_value b) of
        (Some x, Some y) \<Rightarrow>
          if c = CHR ''='' then
            (if d = CHR ''='' \<and> rest = [] then Some [word_of_nat (x * 4 + y div 16)] else None)
          else
            (case b64_value c of None \<Rightarrow> None | Some z \<Rightarrow>
               if d = CHR ''='' then
                 (if rest = []
                  then Some [word_of_nat (x * 4 + y div 16), word_of_nat (y mod 16 * 16 + z div 4)]
                  else None)
               else
                 (case b64_value d of None \<Rightarrow> None | Some u \<Rightarrow>
                    map_option (\<lambda>bs. [word_of_nat (x * 4 + y div 16),
                        word_of_nat (y mod 16 * 16 + z div 4), word_of_nat (z mod 4 * 64 + u)] @ bs)
                      (b64_quanta rest)))
      | _ \<Rightarrow> None)"
| "b64_quanta _ = None"

definition b64_decode :: "string \<Rightarrow> bytes option" where
  "b64_decode s = b64_quanta (filter (\<lambda>c. of_char c \<noteq> (10 :: nat) \<and> of_char c \<noteq> (13 :: nat)) s)"

fun b64_text :: "bytes \<Rightarrow> string" where
  "b64_text [] = []"
| "b64_text [a] =
     [b64_char (unat a div 4), b64_char (unat a mod 4 * 16), CHR ''='', CHR ''='']"
| "b64_text [a, b] =
     [b64_char (unat a div 4), b64_char (unat a mod 4 * 16 + unat b div 16),
      b64_char (unat b mod 16 * 4), CHR ''='']"
| "b64_text (a # b # c # rest) =
     [b64_char (unat a div 4), b64_char (unat a mod 4 * 16 + unat b div 16),
      b64_char (unat b mod 16 * 4 + unat c div 64), b64_char (unat c mod 64)] @ b64_text rest"

section \<open>The round trip\<close>

lemma b64_char_code:
  "n < 64 \<Longrightarrow> (of_char (b64_char n) :: nat) =
     (if n < 26 then n + 65 else if n < 52 then n + 71 else if n < 62 then n - 4
      else if n = 62 then 43 else 47)"
  by (simp add: b64_char_def)

lemma b64_char_value:
  assumes "n < 64"
  shows "b64_value (b64_char n) = Some n" "b64_char n \<noteq> CHR ''=''"
    "of_char (b64_char n) \<noteq> (10 :: nat)" "of_char (b64_char n) \<noteq> (13 :: nat)"
proof -
  show "b64_value (b64_char n) = Some n"
    using assms by (auto simp: b64_value_def b64_char_code Let_def)
  have "(of_char (b64_char n) :: nat) \<noteq> of_char CHR ''=''"
    using assms by (auto simp: b64_char_code)
  then show "b64_char n \<noteq> CHR ''=''" by metis
  show "of_char (b64_char n) \<noteq> (10 :: nat)" "of_char (b64_char n) \<noteq> (13 :: nat)"
    using assms by (auto simp: b64_char_code)
qed

lemma digit_parts:
  fixes k q m :: nat
  assumes "q < m"
  shows "(k * m + q) div m = k" "(k * m + q) mod m = q"
  using assms by simp_all

lemma byte_parts:
  fixes a b :: nat
  assumes "a < 256" and "b < 256"
  shows "a div 4 < 64" "b div 16 < 16" "b div 64 < 4" "a mod 4 * 16 < 64" "a mod 16 * 4 < 64"
    "a mod 64 < 64" "a mod 4 * 16 + b div 16 < 64" "a mod 16 * 4 + b div 64 < 64"
proof -
  show "a div 4 < 64" "b div 16 < 16" "b div 64 < 4" "a mod 64 < 64"
    using assms by (simp_all add: div_less_iff_less_mult)
  moreover have "a mod 4 < 4" "a mod 16 < 16" by simp_all
  ultimately show "a mod 4 * 16 < 64" "a mod 16 * 4 < 64" "a mod 4 * 16 + b div 16 < 64"
    "a mod 16 * 4 + b div 64 < 64" by linarith+
qed

lemma regroup:
  fixes a b c :: nat
  assumes "a < 256" and "b < 256" and "c < 256"
  shows "a div 4 * 4 + (a mod 4 * 16 + b div 16) div 16 = a"
    "a div 4 * 4 + a mod 4 * 16 div 16 = a"
    "(a mod 4 * 16 + b div 16) mod 16 * 16 + (b mod 16 * 4 + c div 64) div 4 = b"
    "(a mod 4 * 16 + b div 16) mod 16 * 16 + b mod 16 * 4 div 4 = b"
    "(b mod 16 * 4 + c div 64) mod 4 * 64 + c mod 64 = c"
  unfolding digit_parts [OF byte_parts(2) [OF assms(1,2)]] digit_parts [OF byte_parts(3) [OF assms(1,3)]]
  by (simp_all add: mult.commute)

lemma unat_u8 [simp]: "unat (a :: u8) < 256"
proof -
  have "unat a < 2 ^ LENGTH(8)" by (rule unsigned_less)
  then show ?thesis by simp
qed

lemma unat_group [simp]:
  fixes a b c :: u8
  shows "word_of_nat (unat a div 4 * 4 + (unat a mod 4 * 16 + unat b div 16) div 16) = a"
    "word_of_nat (unat a div 4 * 4 + unat a mod 4 * 16 div 16) = a"
    "word_of_nat ((unat a mod 4 * 16 + unat b div 16) mod 16 * 16 +
       (unat b mod 16 * 4 + unat c div 64) div 4) = b"
    "word_of_nat ((unat a mod 4 * 16 + unat b div 16) mod 16 * 16 + unat b mod 16 * 4 div 4) = b"
    "word_of_nat ((unat b mod 16 * 4 + unat c div 64) mod 4 * 64 + unat c mod 64) = c"
  unfolding regroup [OF unat_u8 unat_u8 unat_u8] by simp_all

lemma b64_quanta_text: "b64_quanta (b64_text bs) = Some bs"
proof (induction bs rule: b64_text.induct)
  case (4 a b c rest)
  then show ?case
    by (simp only: b64_text.simps b64_quanta.simps b64_char_value byte_parts [OF unat_u8 unat_u8]
        append.simps option.case prod.case if_False option.map unat_group not_False_eq_True)
qed (simp_all only: b64_text.simps b64_quanta.simps b64_char_value byte_parts [OF unat_u8 unat_u8]
        option.case prod.case if_True if_False simp_thms unat_group)

lemma b64_text_lines: "filter (\<lambda>c. of_char c \<noteq> (10 :: nat) \<and> of_char c \<noteq> (13 :: nat)) (b64_text bs) = b64_text bs"
  by (induction bs rule: b64_text.induct) (simp_all add: b64_char_value byte_parts [OF unat_u8 unat_u8])

lemma b64_decode_text [simp]: "b64_decode (b64_text bs) = Some bs"
  by (simp add: b64_decode_def b64_text_lines b64_quanta_text)

interpretation b64: codec b64_text b64_decode "\<lambda>_. True"
  by unfold_locales simp

lemma b64_text_inject [simp]: "b64_text xs = b64_text ys \<longleftrightarrow> xs = ys"
  by (rule b64.encode_inject) simp_all

end
