(* ===== verification/Api.thy ===== *)
theory Api
  imports Reveal Base64
begin

text \<open>
  \<open>internal/interface/grpc\<close>: the two handlers (\<open>handler.go\<close>, \<open>reveal_handler.go\<close>) and the routes of the
  HTTP gateway (\<open>server.go\<close>). A request body is what \<open>encoding/json\<close> makes of it: an error, which a
  body over 64 KiB is too, or the fields. Of the server: what it registers, and how it starts and
  stops; accepting connections and writing JSON are the libraries'.
\<close>

section \<open>Model\<close>

record public_keys =
  PublicKey :: string
  EmulatorPublicKey :: string

definition GetCovclaimdPubKey :: "public_keys \<Rightarrow> string \<times> string" where
  "GetCovclaimdPubKey h = (PublicKey h, EmulatorPublicKey h)"

text \<open>The messages of \<open>reveal.proto\<close>; a message field that is not set is \<open>None\<close>.\<close>

record packet_msg =
  MsgCiphertext :: bytes
  MsgArkadeScript :: bytes
  MsgMinAmount :: "u64 option"

record reveal_request =
  ReqSwapAddress :: string
  ReqPacket :: "packet_msg option"
  ReqTaptree :: string

datatype reveal_error =
    PacketRequired
  | EmptyCiphertext
  | EmptyArkadeScript
  | ZeroMinAmount
  | InvalidSwapAddress string
  | TaptreeNotHex hex_error
  | InvalidTaptree string
  | EmptyTaptree
  | SubmitFailed submit_error

definition submitErrorCode :: "submit_error \<Rightarrow> code" where
  "submitErrorCode e = (if e = SubmitRegister RegistryFull then ResourceExhausted else InvalidArgument)"

text \<open>
  \<open>Reveal\<close> at time \<open>now\<close>: a status code with the error behind its message, or the key whose probe
  \<open>Submit\<close> has started.
\<close>

definition Reveal ::
  "('priv, 'pub) ext \<Rightarrow> ('priv, 'pub) claimer \<Rightarrow> int \<Rightarrow> reveal_request \<Rightarrow> registry \<Rightarrow>
   ((code \<times> reveal_error) + string) \<times> registry" where
  "Reveal L c now req packets =
     (case ReqPacket req of
        None \<Rightarrow> (Inl (InvalidArgument, PacketRequired), packets)
      | Some pkt \<Rightarrow>
          if length (MsgCiphertext pkt) = 0 then (Inl (InvalidArgument, EmptyCiphertext), packets)
          else if length (MsgArkadeScript pkt) = 0
          then (Inl (InvalidArgument, EmptyArkadeScript), packets)
          else if MsgMinAmount pkt = Some 0 then (Inl (InvalidArgument, ZeroMinAmount), packets)
          else
          (case decode_address_v0 L (ReqSwapAddress req) of
             Inl e \<Rightarrow> (Inl (InvalidArgument, InvalidSwapAddress e), packets)
           | Inr addr \<Rightarrow>
          (case hex_decode (ReqTaptree req) of
             Inl e \<Rightarrow> (Inl (InvalidArgument, TaptreeNotHex e), packets)
           | Inr rawTaptree \<Rightarrow>
          (case decode_tap_tree L rawTaptree of
             Inl e \<Rightarrow> (Inl (InvalidArgument, InvalidTaptree e), packets)
           | Inr taptree \<Rightarrow>
          if length taptree = 0 then (Inl (InvalidArgument, EmptyTaptree), packets)
          else
          (case Submit L c now addr taptree
               \<lparr>Ciphertext = MsgCiphertext pkt, ArkadeScript = MsgArkadeScript pkt,
                CovclaimdPubKey = [], MinAmount = MsgMinAmount pkt\<rparr> packets of
             (Inl e, packets1) \<Rightarrow> (Inl (submitErrorCode e, SubmitFailed e), packets1)
           | (Inr key, packets1) \<Rightarrow> (Inr key, packets1))))))"

text \<open>The HTTP status of a handler's error, \<open>None\<close> for one that carries no gRPC status.\<close>

definition httpGRPCError :: "code option \<Rightarrow> nat" where
  "httpGRPCError st =
     (case st of
        None \<Rightarrow> 500
      | Some InvalidArgument \<Rightarrow> 400
      | Some NotFound \<Rightarrow> 404
      | Some AlreadyExists \<Rightarrow> 409
      | Some Unimplemented \<Rightarrow> 501
      | Some ResourceExhausted \<Rightarrow> 429
      | Some _ \<Rightarrow> 500)"

record reveal_body =
  BodySwapAddress :: string
  BodyCiphertext :: string
  BodyArkadeScript :: string
  BodyMinAmount :: "u64 option"
  BodyTaptree :: string

definition post_reveal ::
  "('priv, 'pub) ext \<Rightarrow> ('priv, 'pub) claimer \<Rightarrow> int \<Rightarrow> (string + reveal_body) \<Rightarrow> registry \<Rightarrow>
   nat \<times> registry" where
  "post_reveal L c now body packets =
     (case body of
        Inl _ \<Rightarrow> (400, packets)
      | Inr b \<Rightarrow>
          (case b64_decode (BodyCiphertext b) of
             None \<Rightarrow> (400, packets)
           | Some ciphertext \<Rightarrow>
          (case b64_decode (BodyArkadeScript b) of
             None \<Rightarrow> (400, packets)
           | Some arkadeScript \<Rightarrow>
          (case Reveal L c now
               \<lparr>ReqSwapAddress = BodySwapAddress b,
                ReqPacket = Some \<lparr>MsgCiphertext = ciphertext, MsgArkadeScript = arkadeScript,
                  MsgMinAmount = BodyMinAmount b\<rparr>,
                ReqTaptree = BodyTaptree b\<rparr> packets of
             (Inl (st, _), packets1) \<Rightarrow> (httpGRPCError (Some st), packets1)
           | (Inr _, packets1) \<Rightarrow> (200, packets1)))))"

text \<open>
  The gateway is a multiplexer: patterns of a method and a path, each with its handler. The standard
  library's \<open>ServeMux\<close> gives a request to the pattern of its path that allows its method, where a
  pattern for GET allows HEAD too, and answers 405 for a path it has with other methods only, 404 for
  one it does not have. The requests are those whose path is in canonical form; the library redirects
  others. The reveal route exists only where the reveal plugin runs.
\<close>

datatype ('priv, 'pub) http_route = PubKeyRoute public_keys | RevealRoute "('priv, 'pub) claimer"

type_synonym ('priv, 'pub) mux = "(string \<times> string \<times> ('priv, 'pub) http_route) list"

definition registerPreimageRoutes ::
  "public_keys \<Rightarrow> ('priv, 'pub) mux \<Rightarrow> ('priv, 'pub) mux" where
  "registerPreimageRoutes svc mux =
     mux @ [(''GET'', ''/v1/preimage/covclaimd-pubkey'', PubKeyRoute svc)]"

definition registerRevealRoutes ::
  "('priv, 'pub) claimer \<Rightarrow> ('priv, 'pub) mux \<Rightarrow> ('priv, 'pub) mux" where
  "registerRevealRoutes svc mux = mux @ [(''POST'', ''/v1/reveal'', RevealRoute svc)]"

definition newHTTPGateway ::
  "public_keys option \<Rightarrow> ('priv, 'pub) claimer option \<Rightarrow> ('priv, 'pub) mux" where
  "newHTTPGateway preimageSvc revealSvc =
     (let mux = [];
          mux1 = (case preimageSvc of None \<Rightarrow> mux | Some svc \<Rightarrow> registerPreimageRoutes svc mux)
      in (case revealSvc of None \<Rightarrow> mux1 | Some svc \<Rightarrow> registerRevealRoutes svc mux1))"

record http_request =
  HttpMethod :: string
  HttpPath :: string
  HttpBody :: "string + reveal_body"

definition allows :: "string \<Rightarrow> string \<Rightarrow> bool" where
  "allows pattern meth \<longleftrightarrow> meth = pattern \<or> pattern = ''GET'' \<and> meth = ''HEAD''"

text \<open>The answer to the key request is its two keys, any other a status.\<close>

datatype http_answer = Status nat | PubKeys string string

definition serve_http ::
  "('priv, 'pub) ext \<Rightarrow> ('priv, 'pub) mux \<Rightarrow> int \<Rightarrow> http_request \<Rightarrow> registry \<Rightarrow>
   http_answer \<times> registry" where
  "serve_http L mux now req packets =
     (let here = filter (\<lambda>(_, path, _). path = HttpPath req) mux in
      case find (\<lambda>(meth, _, _). allows meth (HttpMethod req)) here of
        None \<Rightarrow> (Status (if here = [] then 404 else 405), packets)
      | Some (_, _, PubKeyRoute h) \<Rightarrow> (case GetCovclaimdPubKey h of (k, e) \<Rightarrow> (PubKeys k e, packets))
      | Some (_, _, RevealRoute c) \<Rightarrow>
          (case post_reveal L c now (HttpBody req) packets of (st, packets1) \<Rightarrow> (Status st, packets1)))"

text \<open>
  The server: its ports and handlers, the services registered with the gRPC server once there is one,
  and whether there is an HTTP server.
\<close>

datatype service = PreimageService | RevealService

record ('priv, 'pub) server =
  SrvGrpcPort :: int
  SrvHttpPort :: int
  SrvPreimage :: "public_keys option"
  SrvReveal :: "('priv, 'pub) claimer option"
  SrvGrpc :: "service list option"
  SrvHttp :: bool

definition NewServer ::
  "int \<Rightarrow> int \<Rightarrow> public_keys option \<Rightarrow> ('priv, 'pub) claimer option \<Rightarrow> ('priv, 'pub) server" where
  "NewServer grpcPort httpPort hdl revealHdl =
     \<lparr>SrvGrpcPort = grpcPort, SrvHttpPort = httpPort, SrvPreimage = hdl, SrvReveal = revealHdl,
      SrvGrpc = None, SrvHttp = False\<rparr>"

text \<open>
  \<open>Start\<close>; \<open>listen\<close> is what \<open>net.Listen\<close> answers for a port. The HTTP port is listened on by a goroutine,
  whose failure is only logged.
\<close>

definition server_Start ::
  "(int \<Rightarrow> string option) \<Rightarrow> ('priv, 'pub) server \<Rightarrow> string option \<times> ('priv, 'pub) server" where
  "server_Start listen s =
     (case listen (SrvGrpcPort s) of
        Some e \<Rightarrow> (Some e, s)
      | None \<Rightarrow> (None, s
          \<lparr>SrvGrpc := Some ((if SrvPreimage s \<noteq> None then [PreimageService] else []) @
              (if SrvReveal s \<noteq> None then [RevealService] else [])),
           SrvHttp := True\<rparr>))"

datatype stop_action = ShutdownHttp | GracefulStopGrpc

definition server_Stop :: "('priv, 'pub) server \<Rightarrow> stop_action list" where
  "server_Stop s =
     (if SrvHttp s then [ShutdownHttp] else []) @
     (if SrvGrpc s \<noteq> None then [GracefulStopGrpc] else [])"

section \<open>What the handler accepts\<close>

text \<open>The packet of a request, as \<open>Submit\<close> sees it.\<close>

definition submitted :: "packet_msg \<Rightarrow> claim_packet" where
  "submitted pkt = \<lparr>Ciphertext = MsgCiphertext pkt, ArkadeScript = MsgArkadeScript pkt,
     CovclaimdPubKey = [], MinAmount = MsgMinAmount pkt\<rparr>"

lemma Reveal_Inr:
  "Reveal L c now req packets = (Inr key, packets') \<longleftrightarrow>
     (\<exists>pkt addr raw taptree. ReqPacket req = Some pkt \<and> MsgCiphertext pkt \<noteq> [] \<and>
        MsgArkadeScript pkt \<noteq> [] \<and> MsgMinAmount pkt \<noteq> Some 0 \<and>
        decode_address_v0 L (ReqSwapAddress req) = Inr addr \<and> hex_decode (ReqTaptree req) = Inr raw \<and>
        decode_tap_tree L raw = Inr taptree \<and> taptree \<noteq> [] \<and>
        Submit L c now addr taptree (submitted pkt) packets = (Inr key, packets'))"
  by (auto simp: Reveal_def submitted_def split: option.splits sum.splits if_splits prod.splits)

lemma Reveal_Inl:
  assumes "Reveal L c now req packets = (Inl (st, e), packets')"
  shows "(\<exists>addr taptree pkt x. e = SubmitFailed x \<and> st = submitErrorCode x \<and>
      Submit L c now addr taptree (submitted pkt) packets = (Inl x, packets')) \<or>
    st = InvalidArgument \<and> packets' = packets"
  using assms
  by (auto simp: Reveal_def submitted_def split: option.splits sum.splits if_splits prod.splits)

lemma Submit_Inr_entry:
  assumes "Submit L c now addr taptree pkt packets = (Inr key, packets')"
  shows "bound L c key \<lparr>RegPacket = pkt, RegTaptree = taptree, RegExpireAt = now + registrationTTL\<rparr> \<and>
    fmlookup packets' key =
      Some \<lparr>RegPacket = pkt, RegTaptree = taptree, RegExpireAt = now + registrationTTL\<rparr>"
  using assms
proof (cases rule: Submit_cases)
  case (accepted pk preimg)
  then show ?thesis
    using register_done [of now "hex_encode pk" pkt taptree packets]
    by (auto simp: bound_def validateAddress_Inr)
qed simp_all

lemma validateAddress_not_register: "validateAddress L c taptree pk script preimg \<noteq> Inl (SubmitRegister e)"
  by (auto simp: validateAddress_def res_simps split: prod.splits if_splits)

lemma Submit_Inl_registry:
  assumes "Submit L c now addr taptree pkt packets = (Inl e, packets')"
  shows "if e = SubmitRegister RegistryFull
    then packets' = purge now packets \<and> maxRegistrations \<le> fcard (fmdom packets')
    else packets' = packets"
  using assms
proof (cases rule: Submit_cases)
  case (full pk)
  then show ?thesis
    by (auto simp: register_def Let_def split: if_splits)
next
  case (rejected e')
  have "e \<noteq> SubmitRegister RegistryFull \<or> packets' = purge now packets \<and>
      maxRegistrations \<le> fcard (fmdom packets')"
    using assms validateAddress_not_register [of L c taptree _ "ArkadeScript pkt"]
    by (auto simp: Submit_def Let_def register_def res_simps split: sum.splits if_splits prod.splits)
  with rejected show ?thesis by simp
qed simp

lemma post_reveal_cases:
  assumes "post_reveal L c now body packets = (st, packets')"
  obtains (malformed) "st = 400" "packets' = packets"
    | (refused) req st' e where "Reveal L c now req packets = (Inl (st', e), packets')"
        "st = httpGRPCError (Some st')"
    | (stored) req key where "Reveal L c now req packets = (Inr key, packets')" "st = 200"
  using assms by (auto simp: post_reveal_def split: sum.splits option.splits prod.splits)

lemma post_reveal_codes: "post_reveal L c now body packets = (st, packets') \<Longrightarrow> st \<in> {200, 400, 429}"
  by (erule post_reveal_cases)
    (auto simp: httpGRPCError_def submitErrorCode_def dest!: Reveal_Inl split: if_splits)

text \<open>
  A started server offers on both ports the services it has handlers for, and \<open>Stop\<close> stops both; one
  that could not listen has nothing to stop.
\<close>

lemma server_Start_cases:
  assumes "server_Start listen (NewServer gp hp hdl svc) = (err, s)"
  shows "case listen gp of
      None \<Rightarrow> err = None \<and> (PreimageService \<in> set (the (SrvGrpc s)) \<longleftrightarrow> hdl \<noteq> None) \<and>
        (RevealService \<in> set (the (SrvGrpc s)) \<longleftrightarrow> svc \<noteq> None) \<and>
        server_Stop s = [ShutdownHttp, GracefulStopGrpc]
    | Some e \<Rightarrow> err = Some e \<and> server_Stop s = []"
  using assms
  by (auto simp: server_Start_def NewServer_def server_Stop_def split: option.splits) metis

text \<open>Every request to the gateway, by its path.\<close>

lemma gateway_serves:
  "serve_http L (newHTTPGateway hdl svc) now req packets =
     (if HttpPath req = ''/v1/preimage/covclaimd-pubkey'' then
        (case hdl of
           None \<Rightarrow> (Status 404, packets)
         | Some h \<Rightarrow>
             if HttpMethod req \<in> {''GET'', ''HEAD''} then (PubKeys (PublicKey h) (EmulatorPublicKey h), packets)
             else (Status 405, packets))
      else if HttpPath req = ''/v1/reveal'' then
        (case svc of
           None \<Rightarrow> (Status 404, packets)
         | Some c \<Rightarrow>
             if HttpMethod req = ''POST'' then
               (case post_reveal L c now (HttpBody req) packets of (st, packets') \<Rightarrow> (Status st, packets'))
             else (Status 405, packets))
      else (Status 404, packets))"
  by (auto simp: serve_http_def newHTTPGateway_def registerPreimageRoutes_def registerRevealRoutes_def
      allows_def GetCovclaimdPubKey_def split: option.split)

lemma gateway_404:
  "fst (serve_http L (newHTTPGateway hdl svc) now req packets) = Status 404 \<longleftrightarrow>
     \<not> (HttpPath req = ''/v1/preimage/covclaimd-pubkey'' \<and> hdl \<noteq> None) \<and>
     \<not> (HttpPath req = ''/v1/reveal'' \<and> svc \<noteq> None)"
  by (auto simp: gateway_serves dest: post_reveal_codes split: option.splits prod.splits)

section \<open>Sample data for the witnesses\<close>

definition sample_msg :: packet_msg where
  "sample_msg = \<lparr>MsgCiphertext = sample_blob, MsgArkadeScript = sample_script, MsgMinAmount = Some 50000\<rparr>"

definition sample_tree_bytes :: bytes where "sample_tree_bytes = [2, 250] @ sample_condition"

definition sample_post :: reveal_body where
  "sample_post = \<lparr>BodySwapAddress = bytes_string sample_pkscript, BodyCiphertext = b64_text sample_blob,
     BodyArkadeScript = b64_text sample_script, BodyMinAmount = Some 50000,
     BodyTaptree = hex_encode sample_tree_bytes\<rparr>"

lemma packet_Decrypt_anonymous:
  "packet_Decrypt L k (pkt\<lparr>CovclaimdPubKey := x\<rparr>) = packet_Decrypt L k pkt"
  by (simp add: packet_Decrypt_def minAmountBytes_def)

lemma sample_submitted: "submitted sample_msg = sample_claim_packet\<lparr>CovclaimdPubKey := []\<rparr>"
  by (simp add: submitted_def sample_msg_def sample_claim_packet_def)

text \<open>The sample packet as the service registers it: without the key it is sealed to.\<close>

definition sample_open :: registry where
  "sample_open = fmupd (hex_encode sample_pkscript)
     \<lparr>RegPacket = submitted sample_msg, RegTaptree = sample_taptree, RegExpireAt = registrationTTL\<rparr>
     fmempty"

definition sample_request :: reveal_request where
  "sample_request = \<lparr>ReqSwapAddress = bytes_string sample_pkscript, ReqPacket = Some sample_msg,
     ReqTaptree = hex_encode sample_tree_bytes\<rparr>"

lemma sample_anonymous_Submit:
  "Submit toy sample_claimer 0 sample_pkscript sample_taptree (submitted sample_msg) fmempty =
     (Inr (hex_encode sample_pkscript), sample_open)"
proof -
  have "address_pk_script toy sample_pkscript = Inr sample_pkscript"
    by (simp add: toy_def)
  moreover have "ArkadeScript sample_claim_packet = sample_script"
    by (simp add: sample_claim_packet_def)
  ultimately show ?thesis
    using sample_decrypt sample_validateAddress
    by (simp add: Submit_def sample_submitted packet_Decrypt_anonymous register_def Let_def purge_def
        fcard_fempty maxRegistrations_def sample_open_def)
qed

lemma sample_Reveal:
  "Reveal toy sample_claimer 0 sample_request fmempty = (Inr (hex_encode sample_pkscript), sample_open)"
proof -
  have "decode_address_v0 toy (bytes_string sample_pkscript) = Inr sample_pkscript"
    "decode_tap_tree toy sample_tree_bytes = Inr sample_taptree"
    by (simp_all add: toy_def sample_taptree_def sample_tree_bytes_def toy_leaves_one)
  moreover have "sample_blob \<noteq> []" "sample_script \<noteq> []" "sample_taptree \<noteq> []"
    using sample_blob_opens(2) by (auto simp: sample_script_def sample_taptree_def)
  ultimately show ?thesis
    using sample_anonymous_Submit unfolding sample_request_def Reveal_Inr
    by (simp add: sample_msg_def)
qed

section \<open>Properties\<close>

text \<open>
  C32: the reveal route answers 200, 400 or 429. After 200 the registry holds, for 15 minutes, an entry
  bound to its address whose minimum is not zero; 400 leaves the registry as it was; 429 means that,
  after dropping what has expired, it is full.
\<close>

theorem post_reveal_status:
  assumes "post_reveal L c now body packets = (st, packets')"
  shows "st \<in> {200, 400, 429} \<and>
    (st = 200 \<longrightarrow> (\<exists>key r. fmlookup packets' key = Some r \<and> bound L c key r \<and>
       RegExpireAt r = now + registrationTTL \<and> MinAmount (RegPacket r) \<noteq> Some 0)) \<and>
    (st = 400 \<longrightarrow> packets' = packets) \<and>
    (st = 429 \<longrightarrow> packets' = purge now packets \<and> maxRegistrations \<le> fcard (fmdom packets'))"
  using assms
proof (cases rule: post_reveal_cases)
  case (refused req st' e)
  from Reveal_Inl [OF refused(1)] refused(2) show ?thesis
    by (auto simp: httpGRPCError_def submitErrorCode_def dest!: Submit_Inl_registry split: if_splits)
next
  case (stored req key)
  then show ?thesis
    using Submit_Inr_entry by (fastforce simp: Reveal_Inr submitted_def)
qed simp

theorem post_reveal_status_witness:
  "\<exists>packets key r. post_reveal toy sample_claimer 0 (Inr sample_post) fmempty = (200, packets) \<and>
     fmlookup packets key = Some r \<and> bound toy sample_claimer key r \<and>
     RegExpireAt r = registrationTTL \<and> MinAmount (RegPacket r) \<noteq> Some 0"
proof -
  have p: "post_reveal toy sample_claimer 0 (Inr sample_post) fmempty = (200, sample_open)"
    using sample_Reveal by (simp add: post_reveal_def sample_post_def sample_request_def sample_msg_def)
  from post_reveal_status [OF p] p show ?thesis
    by auto
qed

text \<open>
  The HTTP route is the gRPC handler on a packet in base64: for a request whose fields are written
  in standard base64, its status is that of the handler's answer and it leaves the same registry.
\<close>

theorem post_reveal_is_Reveal:
  "post_reveal L c now (Inr
      \<lparr>BodySwapAddress = addr, BodyCiphertext = b64_text ct, BodyArkadeScript = b64_text script,
       BodyMinAmount = amount, BodyTaptree = taptree\<rparr>) packets =
   (case Reveal L c now \<lparr>ReqSwapAddress = addr,
        ReqPacket = Some \<lparr>MsgCiphertext = ct, MsgArkadeScript = script, MsgMinAmount = amount\<rparr>,
        ReqTaptree = taptree\<rparr> packets of
      (Inl (st, _), packets') \<Rightarrow> (httpGRPCError (Some st), packets')
    | (Inr _, packets') \<Rightarrow> (200, packets'))"
  by (simp add: post_reveal_def)

end
