(* ===== verification/Daemon.thy ===== *)
theory Daemon
  imports PluginContract Config Api
begin

text \<open>
  \<open>cmd/covclaimd/main.go\<close>: building the claimers' configuration, wiring the plugins, starting the server
  and running the executor. What the outside answers during start-up is a record; clients are
  handles; what is opened and closed around the executor is a trace of actions. Logging is left
  out, as is what a signal does beyond ending the context.
\<close>

section \<open>Model\<close>

record ark_info =
  InfoSignerPubKey :: string
  InfoCheckpointTapscript :: string

record startup =
  ArkClientErr :: "string option"
  IndexerErr :: "string option"
  EmulatorConnErr :: "string option"
  EmulatorInfo :: "string + string"
  ArkInfo :: "string + ark_info"
  ListenErr :: "int \<Rightarrow> string option"

datatype build_error =
    CheckpointNotHex hex_error
  | SignerKeyNotHex hex_error
  | SignerKeyInvalid string

datatype daemon_error =
    LoadFailed load_error
  | ArkClientFailed string
  | IndexerFailed string
  | EmulatorFailed string
  | EmulatorInfoFailed string
  | EmulatorKeyNotHex hex_error
  | EmulatorKeyInvalid string
  | ArkInfoFailed string
  | BuildConfigFailed build_error
  | EncryptedPluginFailed config_error
  | RevealPluginFailed config_error
  | ServerFailed string
  | RuntimeExited run_error

definition buildClaimerConfig ::
  "('priv, 'pub) ext \<Rightarrow> 'priv daemon_config \<Rightarrow> handle \<Rightarrow> handle \<Rightarrow> handle \<Rightarrow> ark_info \<Rightarrow> 'pub \<Rightarrow>
   build_error + ('priv, 'pub) config" where
  "buildClaimerConfig L cfg idx emulator logger info emulatorPub =
     res_bind (map_err CheckpointNotHex (hex_decode (InfoCheckpointTapscript info))) (\<lambda>checkpointBytes.
     res_bind (map_err SignerKeyNotHex (hex_decode (InfoSignerPubKey info))) (\<lambda>signerPubKeyBytes.
     res_bind (map_err SignerKeyInvalid (parse_pub_key L signerPubKeyBytes)) (\<lambda>signerPubKey.
     Inr \<lparr>CfgIndexer = Some idx, CfgEmulator = Some emulator, CfgSecretKey = Some (CfgKey cfg),
          CfgEmulatorPubKey = Some emulatorPub, CfgSignerPubKey = Some signerPubKey,
          CfgCheckpointTapscript = checkpointBytes, CfgLog = Some logger\<rparr>)))"

text \<open>The plugins the configuration enables, and the reveal plugin for the reveal service.\<close>

record ('priv, 'pub) wiring =
  WEncrypted :: "('priv, 'pub) enc_plugin option"
  WReveal :: "('priv, 'pub) claimer option"

definition wire_plugins ::
  "('priv, 'pub) ext \<Rightarrow> 'priv daemon_config \<Rightarrow> ('priv, 'pub) config \<Rightarrow>
   daemon_error + ('priv, 'pub) wiring" where
  "wire_plugins L cfg claimerCfg =
     res_bind (if EncryptedEnabled cfg
       then res_bind (map_err EncryptedPluginFailed (NewPlugin L claimerCfg)) (\<lambda>p. Inr (Some p))
       else Inr None) (\<lambda>encrypted.
     res_bind (if RevealEnabled cfg
       then res_bind (map_err RevealPluginFailed (NewRevealPlugin claimerCfg)) (\<lambda>(c, _). Inr (Some c))
       else Inr None) (\<lambda>reveal.
     Inr \<lparr>WEncrypted = encrypted, WReveal = reveal\<rparr>))"

definition executor_plugins ::
  "('priv, 'pub) ext \<Rightarrow> ('priv, 'pub) wiring \<Rightarrow> (world, psbt, intent) plugin list" where
  "executor_plugins L w =
     (case WEncrypted w of None \<Rightarrow> [] | Some p \<Rightarrow> [encrypted_plugin L p]) @
     (case WReveal w of None \<Rightarrow> [] | Some c \<Rightarrow> [reveal_plugin L c])"

text \<open>The executor \<open>run\<close> starts; both loggers it is given are the standard one.\<close>

definition executor_runtime ::
  "('priv, 'pub) ext \<Rightarrow> handle \<Rightarrow> ('priv, 'pub) wiring \<Rightarrow> (world, psbt, intent) runtime" where
  "executor_runtime L logger w = WithLogger (Some logger) (NewExecutor logger (executor_plugins L w))"

lemma executor_runtime_plugins [simp]: "RtPlugins (executor_runtime L logger w) = executor_plugins L w"
  by (simp add: executor_runtime_def WithLogger_def NewExecutor_def)

record ('priv, 'pub) daemon =
  DWiring :: "('priv, 'pub) wiring"
  DKeys :: public_keys
  DServer :: "('priv, 'pub) server"

text \<open>
  The part of \<open>run\<close> between the connections and the server: the emulator's and arkd's answers, the
  claimers' configuration and the plugins.
\<close>

definition claimer_setup ::
  "('priv, 'pub) ext \<Rightarrow> 'priv daemon_config \<Rightarrow> startup \<Rightarrow> daemon_error + ('priv, 'pub) daemon" where
  "claimer_setup L cfg up =
     res_bind (map_err EmulatorInfoFailed (EmulatorInfo up)) (\<lambda>emulatorKeyHex.
     res_bind (map_err EmulatorKeyNotHex (hex_decode emulatorKeyHex)) (\<lambda>rawEmulatorPub.
     res_bind (map_err EmulatorKeyInvalid (parse_pub_key L rawEmulatorPub)) (\<lambda>emulatorPub.
     res_bind (map_err ArkInfoFailed (ArkInfo up)) (\<lambda>info.
     res_bind (map_err BuildConfigFailed (buildClaimerConfig L cfg 0 1 2 info emulatorPub)) (\<lambda>claimerCfg.
     res_bind (wire_plugins L cfg claimerCfg) (\<lambda>w.
     let keys = \<lparr>PublicKey = hex_encode (serialize_compressed L (pub_key L (CfgKey cfg))),
           EmulatorPublicKey = emulatorKeyHex\<rparr>
     in Inr \<lparr>DWiring = w, DKeys = keys,
          DServer = NewServer (GRPCPort cfg) (HTTPPort cfg) (Some keys) (WReveal w)\<rparr>))))))"

definition serve :: "startup \<Rightarrow> ('priv, 'pub) daemon \<Rightarrow> daemon_error + ('priv, 'pub) daemon" where
  "serve up d =
     (case server_Start (ListenErr up) (DServer d) of
        (Some x, _) \<Rightarrow> Inl (ServerFailed x)
      | (None, srv) \<Rightarrow> Inr (d\<lparr>DServer := srv\<rparr>))"

text \<open>What \<open>run\<close> makes of the executor's result: a cancelled context is a clean stop.\<close>

definition run_result :: "run_error \<Rightarrow> daemon_error option" where
  "run_result e = (case e of CtxErr \<Rightarrow> None | _ \<Rightarrow> Some (RuntimeExited e))"

text \<open>
  \<open>run\<close> with its actions on the outside. What it opens it closes again by a deferred call, on every way
  out; \<open>with_resource\<close> is an opening followed by \<open>defer\<close> of the closing and the rest of the function.
  \<open>e\<close> is what the executor's \<open>Run\<close> returns.
\<close>

datatype daemon_action =
    WatchSignals | StopSignals
  | OpenArk | CloseArk
  | OpenIndexer | CloseIndexer
  | OpenEmulator | CloseEmulator
  | StartServer | StopServer
  | RunExecutor

definition with_resource ::
  "daemon_action \<Rightarrow> daemon_action \<Rightarrow> 'r \<times> daemon_action list \<Rightarrow> 'r \<times> daemon_action list" where
  "with_resource acquire release body = (fst body, acquire # snd body @ [release])"

definition run_daemon ::
  "('priv, 'pub) ext \<Rightarrow> (load_error + 'priv daemon_config) \<Rightarrow> startup \<Rightarrow> run_error \<Rightarrow>
   daemon_error option \<times> daemon_action list" where
  "run_daemon L loaded up e =
     (case loaded of
        Inl x \<Rightarrow> (Some (LoadFailed x), [])
      | Inr cfg \<Rightarrow> with_resource WatchSignals StopSignals
     (case ArkClientErr up of
        Some x \<Rightarrow> (Some (ArkClientFailed x), [])
      | None \<Rightarrow> with_resource OpenArk CloseArk
     (case IndexerErr up of
        Some x \<Rightarrow> (Some (IndexerFailed x), [])
      | None \<Rightarrow> with_resource OpenIndexer CloseIndexer
     (case EmulatorConnErr up of
        Some x \<Rightarrow> (Some (EmulatorFailed x), [])
      | None \<Rightarrow> with_resource OpenEmulator CloseEmulator
     (case claimer_setup L cfg up of
        Inl x \<Rightarrow> (Some x, [])
      | Inr d \<Rightarrow>
     (case serve up d of
        Inl x \<Rightarrow> (Some x, [])
      | Inr _ \<Rightarrow> with_resource StartServer StopServer (run_result e, [RunExecutor])))))))"

text \<open>The exit status of \<open>main\<close>.\<close>

definition main_exit :: "daemon_error option \<Rightarrow> nat" where
  "main_exit err = (case err of None \<Rightarrow> 0 | Some _ \<Rightarrow> 1)"

section \<open>Starting\<close>

text \<open>The daemon that runs, or the failure that kept it from starting.\<close>

definition fail_if :: "(string \<Rightarrow> daemon_error) \<Rightarrow> string option \<Rightarrow> daemon_error + unit" where
  "fail_if f e = (case e of None \<Rightarrow> Inr () | Some x \<Rightarrow> Inl (f x))"

definition start_daemon ::
  "('priv, 'pub) ext \<Rightarrow> (load_error + 'priv daemon_config) \<Rightarrow> startup \<Rightarrow>
   daemon_error + ('priv, 'pub) daemon" where
  "start_daemon L loaded up =
     res_bind (map_err LoadFailed loaded) (\<lambda>cfg.
     res_bind (fail_if ArkClientFailed (ArkClientErr up)) (\<lambda>_.
     res_bind (fail_if IndexerFailed (IndexerErr up)) (\<lambda>_.
     res_bind (fail_if EmulatorFailed (EmulatorConnErr up)) (\<lambda>_.
     res_bind (claimer_setup L cfg up) (\<lambda>d.
     serve up d)))))"

text \<open>
  Openings and closings nest: each closing is that of the last thing opened and still open. A trace
  is neutral when it leaves what is open as it was.
\<close>

fun closing :: "daemon_action \<Rightarrow> daemon_action option" where
  "closing WatchSignals = Some StopSignals"
| "closing OpenArk = Some CloseArk"
| "closing OpenIndexer = Some CloseIndexer"
| "closing OpenEmulator = Some CloseEmulator"
| "closing StartServer = Some StopServer"
| "closing _ = None"

fun well_nested :: "daemon_action list \<Rightarrow> daemon_action list \<Rightarrow> bool" where
  "well_nested pending [] \<longleftrightarrow> pending = []"
| "well_nested pending (a # as) \<longleftrightarrow>
     (case closing a of
        Some c \<Rightarrow> well_nested (c # pending) as
      | None \<Rightarrow>
          if a = RunExecutor then well_nested pending as
          else pending \<noteq> [] \<and> hd pending = a \<and> well_nested (tl pending) as)"

definition neutral :: "daemon_action list \<Rightarrow> bool" where
  "neutral as \<longleftrightarrow> (\<forall>pending bs. well_nested pending (as @ bs) \<longleftrightarrow> well_nested pending bs)"

lemma neutral_simps [simp]: "neutral []" "neutral [RunExecutor]"
  by (simp_all add: neutral_def)

lemma neutral_with_resource:
  "neutral (snd body) \<Longrightarrow> closing a = Some c \<Longrightarrow> closing c = None \<Longrightarrow> c \<noteq> RunExecutor \<Longrightarrow>
     neutral (snd (with_resource a c body))"
  by (simp add: neutral_def with_resource_def)

lemma neutral_well_nested: "neutral as \<Longrightarrow> well_nested [] as"
  unfolding neutral_def by (metis append_Nil2 well_nested.simps(1))

lemma run_daemon_neutral: "neutral (snd (run_daemon L loaded up e))"
  unfolding run_daemon_def
  by (auto intro!: neutral_with_resource split: sum.split option.split)

lemma fst_with_resource [simp]: "fst (with_resource a c body) = fst body"
  by (simp add: with_resource_def)

lemma set_with_resource [simp]: "set (snd (with_resource a c body)) = {a, c} \<union> set (snd body)"
  by (auto simp: with_resource_def)

lemma start_daemon_iff:
  "start_daemon L loaded up = Inr d \<longleftrightarrow>
     (\<exists>cfg. loaded = Inr cfg \<and> ArkClientErr up = None \<and> IndexerErr up = None \<and>
        EmulatorConnErr up = None \<and> (\<exists>d'. claimer_setup L cfg up = Inr d' \<and> serve up d' = Inr d))"
  by (auto simp: start_daemon_def fail_if_def res_simps split: option.splits)

lemma run_daemon_result:
  "fst (run_daemon L loaded up e) =
     (case start_daemon L loaded up of Inl x \<Rightarrow> Some x | Inr _ \<Rightarrow> run_result e)"
  by (simp add: run_daemon_def start_daemon_def fail_if_def split: sum.split option.split)

lemma run_daemon_runs:
  "RunExecutor \<in> set (snd (run_daemon L loaded up e)) \<longleftrightarrow> (\<exists>d. start_daemon L loaded up = Inr d)"
  by (auto simp: run_daemon_def start_daemon_iff split: sum.splits option.splits)

lemma run_daemon_started:
  "start_daemon L loaded up = Inr d \<Longrightarrow> snd (run_daemon L loaded up e) =
     [WatchSignals, OpenArk, OpenIndexer, OpenEmulator, StartServer, RunExecutor,
      StopServer, CloseEmulator, CloseIndexer, CloseArk, StopSignals]"
  by (auto simp: run_daemon_def start_daemon_iff with_resource_def)

section \<open>The wired plugins share one claimer\<close>

definition wired_claimer :: "('priv, 'pub) wiring \<Rightarrow> ('priv, 'pub) claimer \<Rightarrow> bool" where
  "wired_claimer w c \<longleftrightarrow>
     (\<forall>p. WEncrypted w = Some p \<longrightarrow> EncClaimer p = c) \<and> (\<forall>c'. WReveal w = Some c' \<longrightarrow> c' = c)"

lemma wire_plugins_Inr:
  assumes "wire_plugins L cfg claimerCfg = Inr w"
    and "EncryptedEnabled cfg \<or> RevealEnabled cfg"
  obtains c where "newClaimer claimerCfg = Inr c"
    "WEncrypted w = (if EncryptedEnabled cfg
       then Some \<lparr>EncClaimer = c, EncPubKey = serialize_compressed L (pub_key L (SecretKey c))\<rparr> else None)"
    "WReveal w = (if RevealEnabled cfg then Some c else None)"
  using assms
  by (auto simp: wire_plugins_def NewPlugin_def NewRevealPlugin_def res_simps split: if_splits)

lemma taken_ok_worlds: "taken_ok W p x \<Longrightarrow> (\<And>w. W w \<Longrightarrow> W' w) \<Longrightarrow> taken_ok W' p x"
  by (fastforce simp: taken_ok_def split: prod.splits option.splits)

lemma consumer_inv_worlds:
  assumes "consumer_inv W x c" and "\<And>w. W w \<Longrightarrow> W' w"
  shows "consumer_inv W' x c"
proof -
  have "taken_ok W (CPlugin c) x \<Longrightarrow> taken_ok W' (CPlugin c) x" for x
    using taken_ok_worlds [of W "CPlugin c" x W'] assms(2) by blast
  then have "list_all (taken_ok W' (CPlugin c)) (CTaken c)"
    using assms(1) by (auto simp: consumer_inv_def list_all_iff)
  with assms(1) show ?thesis
    by (simp add: consumer_inv_def)
qed

lemma consumer_of_plugins:
  assumes "run_reachable W plugins s" and "i < length (XConsumers s)"
  shows "CPlugin (XConsumers s ! i) \<in> set plugins \<and>
    consumer_inv W (XCancelled s) (XConsumers s ! i)"
proof -
  have "run_inv W plugins s" by (rule run_reachable_inv [OF assms(1)])
  then have inv: "list_all (consumer_inv W (XCancelled s)) (XConsumers s)"
    and plugins: "map fst (XTried s) @ XPending s = plugins"
    and tried: "map CPlugin (XConsumers s) = map fst (filter snd (XTried s))"
    by (simp_all add: run_inv_def)
  have "CPlugin (XConsumers s ! i) \<in> set (map CPlugin (XConsumers s))"
    using assms(2) by simp
  then have "CPlugin (XConsumers s ! i) \<in> set (map fst (XTried s))"
    unfolding tried by auto
  then have "CPlugin (XConsumers s ! i) \<in> set plugins"
    unfolding plugins [symmetric] by simp
  with list_all_nthD [OF inv assms(2)] show ?thesis by simp
qed

lemma serve_Inr:
  "serve up d = Inr d' \<longleftrightarrow> ListenErr up (SrvGrpcPort (DServer d)) = None \<and>
     d' = d\<lparr>DServer := snd (server_Start (\<lambda>_. None) (DServer d))\<rparr>"
  by (auto simp: serve_def server_Start_def split: option.splits)

lemma claimer_setup_Inr:
  assumes "claimer_setup L cfg up = Inr d"
  shows "PublicKey (DKeys d) = hex_encode (serialize_compressed L (pub_key L (CfgKey cfg))) \<and>
    DServer d = NewServer (GRPCPort cfg) (HTTPPort cfg) (Some (DKeys d)) (WReveal (DWiring d)) \<and>
    (\<exists>claimerCfg. wire_plugins L cfg claimerCfg = Inr (DWiring d) \<and>
      CfgSecretKey claimerCfg = Some (CfgKey cfg))"
  using assms
  by (auto simp: claimer_setup_def buildClaimerConfig_def Let_def res_simps)

lemma start_daemon_Inr:
  assumes "start_daemon L loaded up = Inr d"
  shows "\<exists>cfg. loaded = Inr cfg \<and>
    PublicKey (DKeys d) = hex_encode (serialize_compressed L (pub_key L (CfgKey cfg))) \<and>
    SrvGrpcPort (DServer d) = GRPCPort cfg \<and> SrvHttpPort (DServer d) = HTTPPort cfg \<and>
    SrvGrpc (DServer d) =
      Some (PreimageService # (if WReveal (DWiring d) \<noteq> None then [RevealService] else [])) \<and>
    (\<exists>claimerCfg. wire_plugins L cfg claimerCfg = Inr (DWiring d) \<and>
      CfgSecretKey claimerCfg = Some (CfgKey cfg))"
  using assms claimer_setup_Inr
  by (fastforce simp: start_daemon_iff serve_Inr server_Start_def NewServer_def)

lemma newClaimer_key: "newClaimer cfg = Inr c \<Longrightarrow> CfgSecretKey cfg = Some (SecretKey c)"
  by (simp add: newClaimer_Inr)

section \<open>Sample data for the witnesses\<close>

definition sample_wiring :: "(u8, u8) wiring" where
  "sample_wiring = \<lparr>WEncrypted = Some sample_plugin, WReveal = None\<rparr>"

definition sample_world :: world where
  "sample_world = \<lparr>WIndexer = (\<lambda>_ _. Inr [\<lparr>VtxoTxid = ''t''\<rparr>]), WSnapshot = (\<lambda>_. fmempty)\<rparr>"

text \<open>The sample transaction has been streamed to the encrypted plugin and matched.\<close>

definition sample_running ::
  "(world, psbt, intent) consumer \<Rightarrow> (world, psbt, intent) executor" where
  "sample_running k = \<lparr>XPending = [], XTried = [(encrypted_plugin toy sample_plugin, True)],
     XConsumers = [k], XCancelled = False, XRun = Selecting\<rparr>"

definition sample_fed :: "(world, psbt, intent) consumer" where
  "sample_fed = (start_consumer (encrypted_plugin toy sample_plugin))
     \<lparr>CQueue := [Some sample_tx], CDelivered := [Some sample_tx]\<rparr>"

definition sample_took :: "(world, psbt, intent) consumer" where
  "sample_took = sample_fed
     \<lparr>CQueue := [], CTaken := [(Some sample_tx, Some (ClaimIntent sample_match))],
      CInFlight := {#ClaimIntent sample_match#}\<rparr>"

lemma sample_receive:
  "receive sample_world (Some sample_tx) (sample_fed\<lparr>CQueue := []\<rparr>) = sample_took"
  using sample_enc_Match
  by (simp add: receive_def safeMatch_def sample_fed_def sample_took_def encrypted_plugin_def
      sample_world_def start_consumer_def)

lemma sample_running_reachable:
  "run_reachable (bound_world toy sample_claimer) (executor_plugins toy sample_wiring)
     (sample_running sample_took)"
proof -
  let ?W = "bound_world toy sample_claimer" and ?p = "encrypted_plugin toy sample_plugin"
  let ?init = "run_init [?p]"
  have s1: "run_step ?W ?init (sample_running (start_consumer ?p))"
    using own_step.subscribe [of ?init ?p "[]" ?W True]
    by (simp add: run_step_def run_init_def subscribe_plugin_def sample_running_def)
  have s2: "run_step ?W (sample_running (start_consumer ?p)) (sample_running sample_fed)"
  proof -
    have "source_step (start_consumer ?p) sample_fed"
      using source_step.deliver [of "start_consumer ?p" "Some sample_tx"]
      by (simp add: sample_fed_def start_consumer_def)
    then show ?thesis
      using env_step.source [of 0 "sample_running (start_consumer ?p)" sample_fed]
      by (simp add: run_step_def sample_running_def)
  qed
  have s3: "run_step ?W (sample_running sample_fed) (sample_running sample_took)"
  proof -
    have "?W sample_world"
      by (simp add: bound_world_def sample_world_def)
    then have "consume_step ?W False sample_fed sample_took"
      using consume_step.take [of sample_fed "Some sample_tx" "[]" ?W sample_world False]
      by (simp add: sample_receive) (simp add: sample_fed_def start_consumer_def)
    then show ?thesis
      using own_step.consume [of 0 "sample_running sample_fed" ?W sample_took]
      by (simp add: run_step_def sample_running_def)
  qed
  have "run_reachable ?W [?p] ?init"
    by (rule reachable_init) simp
  from reachable_step [OF reachable_step [OF reachable_step [OF this s1] s2] s3] show ?thesis
    by (simp add: executor_plugins_def sample_wiring_def)
qed

definition sample_startup :: startup where
  "sample_startup = \<lparr>ArkClientErr = None, IndexerErr = None, EmulatorConnErr = None,
     EmulatorInfo = Inr (hex_encode (toy_serialize 3)),
     ArkInfo = Inr \<lparr>InfoSignerPubKey = hex_encode (toy_serialize 2),
       InfoCheckpointTapscript = hex_encode (toy_serialize 1)\<rparr>,
     ListenErr = (\<lambda>_. None)\<rparr>"

lemma toy_parse: "parse_pub_key toy (toy_serialize k) = Inr k"
  using ecies_lawsD(2) [OF toy_ecies_laws, of k] by (simp add: toy_def)

lemma sample_start:
  "\<exists>d. start_daemon toy (Load (\<lambda>_. 5) (\<lambda>k. k = 0) sample_env) sample_startup = Inr d"
proof -
  have "Load (\<lambda>_. 5 :: u8) (\<lambda>k. k = 0) sample_env = Inr
    \<lparr>ArkURL = ''ark:7070'', EmulatorURL = ''emulator:7073'', CfgKey = 5,
     GRPCPort = defaultGRPCPort, HTTPPort = defaultHTTPPort, LogLevel = defaultLogLevel,
     EncryptedEnabled = True, RevealEnabled = False\<rparr>"
    by (rule Load_sample_env) simp
  then show ?thesis
    by (simp add: start_daemon_def claimer_setup_def sample_startup_def fail_if_def buildClaimerConfig_def toy_parse
        wire_plugins_def NewPlugin_def newClaimer_def validateConfig_def Let_def serve_Inr)
qed

section \<open>Properties\<close>

text \<open>
  In every state the daemon's executor can reach, whatever the streams, the indexer and the clock do
  and whatever has been submitted to the reveal service, each intent handed to \<open>Solve\<close>, by either
  plugin, is a sound claim under the daemon's keys: it spends an output whose value is not below the
  minimum of a packet the daemon can open.
\<close>

theorem daemon_solves_only_sound_claims:
  assumes "wired_claimer w c"
    and "run_reachable (bound_world L c) (executor_plugins L w) s"
    and "i < length (XConsumers s)"
    and "intent \<in># CInFlight (XConsumers s ! i) + CSolved (XConsumers s ! i)"
  shows "sound_intent L c intent"
proof -
  let ?k = "XConsumers s ! i"
  from consumer_of_plugins [OF assms(2,3)]
  have p: "CPlugin ?k \<in> set (executor_plugins L w)"
    and inv: "consumer_inv (bound_world L c) (XCancelled s) ?k" by simp_all
  from p consider (e) q where "WEncrypted w = Some q" "CPlugin ?k = encrypted_plugin L q"
    | (r) c' where "WReveal w = Some c'" "CPlugin ?k = reveal_plugin L c'"
    by (cases "WEncrypted w"; cases "WReveal w"; auto simp: executor_plugins_def)
  then show ?thesis
  proof cases
    case e
    with enc.started_sound [OF consumer_inv_worlds [OF inv] e(2) assms(4)] assms(1) show ?thesis
      by (simp add: wired_claimer_def)
  next
    case r
    with rev.started_sound [OF inv _ assms(4)] assms(1) show ?thesis
      by (simp add: wired_claimer_def)
  qed
qed

theorem daemon_solves_only_sound_claims_witness:
  "sound_intent toy sample_claimer (ClaimIntent sample_match)"
  by (rule daemon_solves_only_sound_claims [of sample_wiring _ _ "sample_running sample_took" 0])
    (simp_all add: sample_running_reachable,
      simp_all add: wired_claimer_def sample_wiring_def sample_running_def sample_took_def)

text \<open>
  C35: the daemon that has started runs exactly the plugins its configuration enables, over one claimer,
  serves on the configured ports, and reveals only with the reveal plugin, and publishes the key
  that its filter selects packets by and that the encrypted plugin compares packets with.
\<close>

theorem daemon_runs_configured_plugins:
  assumes "start_daemon L (Load pk is_zero getenv) up = Inr d"
  shows "\<exists>cfg c. Load pk is_zero getenv = Inr cfg \<and> SecretKey c = CfgKey cfg \<and>
    wired_claimer (DWiring d) c \<and>
    (WEncrypted (DWiring d) \<noteq> None \<longleftrightarrow> EncryptedEnabled cfg) \<and>
    (WReveal (DWiring d) \<noteq> None \<longleftrightarrow> RevealEnabled cfg) \<and>
    executor_plugins L (DWiring d) \<noteq> [] \<and>
    SrvGrpcPort (DServer d) = GRPCPort cfg \<and> SrvHttpPort (DServer d) = HTTPPort cfg \<and>
    SrvGrpc (DServer d) = Some (PreimageService # (if RevealEnabled cfg then [RevealService] else [])) \<and>
    (\<forall>p. WEncrypted (DWiring d) = Some p \<longrightarrow> PublicKey (DKeys d) = hex_encode (EncPubKey p))"
proof -
  from start_daemon_Inr [OF assms] obtain cfg claimerCfg where
    cfg: "Load pk is_zero getenv = Inr cfg" and key: "CfgSecretKey claimerCfg = Some (CfgKey cfg)"
    and wire: "wire_plugins L cfg claimerCfg = Inr (DWiring d)"
    and pub: "PublicKey (DKeys d) = hex_encode (serialize_compressed L (pub_key L (CfgKey cfg)))"
    and srv: "SrvGrpcPort (DServer d) = GRPCPort cfg" "SrvHttpPort (DServer d) = HTTPPort cfg"
      "SrvGrpc (DServer d) =
        Some (PreimageService # (if WReveal (DWiring d) \<noteq> None then [RevealService] else []))"
    by blast
  have on: "EncryptedEnabled cfg \<or> RevealEnabled cfg"
    using cfg by (simp add: Load_enabled)
  from wire on obtain c where c: "newClaimer claimerCfg = Inr c"
    "WEncrypted (DWiring d) = (if EncryptedEnabled cfg
       then Some \<lparr>EncClaimer = c, EncPubKey = serialize_compressed L (pub_key L (SecretKey c))\<rparr> else None)"
    "WReveal (DWiring d) = (if RevealEnabled cfg then Some c else None)"
    by (rule wire_plugins_Inr)
  from newClaimer_key [OF c(1)] key have "SecretKey c = CfgKey cfg" by simp
  with cfg c(2,3) pub on srv show ?thesis
    by (intro exI [of _ cfg] exI [of _ c]) (auto simp: wired_claimer_def executor_plugins_def)
qed

theorem daemon_runs_configured_plugins_witness:
  "\<exists>d p. start_daemon toy (Load (\<lambda>_. 5) (\<lambda>k. k = 0) sample_env) sample_startup = Inr d \<and>
    WEncrypted (DWiring d) = Some p \<and> WReveal (DWiring d) = None \<and>
    PublicKey (DKeys d) = hex_encode (EncPubKey p)"
proof -
  obtain d where d: "start_daemon toy (Load (\<lambda>_. 5) (\<lambda>k. k = 0) sample_env) sample_startup = Inr d"
    using sample_start by blast
  have "Load (\<lambda>_. 5 :: u8) (\<lambda>k. k = 0) sample_env = Inr
    \<lparr>ArkURL = ''ark:7070'', EmulatorURL = ''emulator:7073'', CfgKey = 5,
     GRPCPort = defaultGRPCPort, HTTPPort = defaultHTTPPort, LogLevel = defaultLogLevel,
     EncryptedEnabled = True, RevealEnabled = False\<rparr>"
    by (rule Load_sample_env) simp
  with daemon_runs_configured_plugins [OF d] d show ?thesis
    by auto
qed

text \<open>
  C18: \<open>run\<close> closes what it has opened, in reverse order, on every way out. The executor runs exactly
  when the daemon has started, with every connection and the server open around it; \<open>run\<close> fails with
  what kept it from starting, or with the executor's error unless that is the cancelled context.
\<close>

theorem run_releases_everything:
  "well_nested [] (snd (run_daemon L loaded up e)) \<and>
   (case start_daemon L loaded up of
      Inl x \<Rightarrow> fst (run_daemon L loaded up e) = Some x \<and>
        RunExecutor \<notin> set (snd (run_daemon L loaded up e))
    | Inr _ \<Rightarrow> fst (run_daemon L loaded up e) = run_result e \<and>
        snd (run_daemon L loaded up e) =
          [WatchSignals, OpenArk, OpenIndexer, OpenEmulator, StartServer, RunExecutor,
           StopServer, CloseEmulator, CloseIndexer, CloseArk, StopSignals])"
  using run_daemon_neutral [of L loaded up e] run_daemon_runs [of L loaded up e]
  by (auto simp: neutral_well_nested run_daemon_result run_daemon_started split: sum.split)

end
