(* ===== verification/System.thy ===== *)
theory System
  imports Daemon
begin

text \<open>
  The running daemon: the executor with its plugins, the registry behind the reveal plugin, the
  requests of the API and the probes they start, as one step relation. The two component systems, the
  executor of \<open>Executor\<close> and the reveal system of \<open>RevealSystem\<close>, are projections of it, so what is
  proved of them holds in the daemon.
\<close>

section \<open>Model\<close>

text \<open>
  A match of the reveal plugin in progress: the consumer whose goroutine runs it, the transaction,
  which is still at the head of the consumer's queue here, the registry as it was when each output
  was looked up, and what it does next.
\<close>

record scan =
  ScanBy :: nat
  ScanTx :: psbt
  ScanSeen :: "nat \<Rightarrow> registry"
  ScanAt :: task

text \<open>
  A solve of the reveal plugin: the consumer it belongs to, the claim, and what it does next, nothing
  once \<open>Solve\<close> is about to return.
\<close>

type_synonym solve_job = "nat \<times> matched_claim \<times> task option"

record system =
  SysExec :: "(world, psbt, intent) executor"
  SysPackets :: registry
  SysNow :: int
  SysScan :: "scan option"
  SysSolves :: "solve_job multiset"
  SysProbes :: "task multiset"
  SysSent :: "sent list"
  SysEncSent :: "sent list"

definition system_init ::
  "('priv, 'pub) ext \<Rightarrow> ('priv, 'pub) wiring \<Rightarrow> int \<Rightarrow> system" where
  "system_init L w now =
     \<lparr>SysExec = run_init (executor_plugins L w), SysPackets = fmempty, SysNow = now, SysScan = None,
      SysSolves = {#}, SysProbes = {#}, SysSent = [], SysEncSent = []\<rparr>"

definition update_consumer ::
  "nat \<Rightarrow> (('w, 'tx, 'i) consumer \<Rightarrow> ('w, 'tx, 'i) consumer) \<Rightarrow>
   ('w, 'tx, 'i) executor \<Rightarrow> ('w, 'tx, 'i) executor" where
  "update_consumer i f e = e\<lparr>XConsumers := (XConsumers e)[i := f (XConsumers e ! i)]\<rparr>"

text \<open>The consumer once \<open>safeMatch\<close> has answered for the transaction at the head of its queue.\<close>

definition took ::
  "'tx option \<Rightarrow> 'i option \<Rightarrow> ('w, 'tx, 'i) consumer \<Rightarrow> ('w, 'tx, 'i) consumer" where
  "took tx r k = k\<lparr>CQueue := tl (CQueue k), CTaken := CTaken k @ [(tx, r)],
     CInFlight := (case r of None \<Rightarrow> CInFlight k | Some i \<Rightarrow> add_mset i (CInFlight k))\<rparr>"

definition ended ::
  "'i \<Rightarrow> ('w, 'tx, 'i) consumer \<Rightarrow> ('w, 'tx, 'i) consumer" where
  "ended i k = k\<lparr>CInFlight := CInFlight k - {#i#}, CSolved := add_mset i (CSolved k)\<rparr>"

definition saw :: "task \<Rightarrow> registry \<Rightarrow> (nat \<Rightarrow> registry) \<Rightarrow> nat \<Rightarrow> registry" where
  "saw t packets seen = (case t of Scanning _ i \<Rightarrow> seen(i := packets) | _ \<Rightarrow> seen)"

text \<open>
  One action of a match in progress has led to \<open>t\<close>: the match goes on, or its answer is known and, for
  a claim, its solve starts.
\<close>

definition scanned :: "scan \<Rightarrow> task option \<Rightarrow> system \<Rightarrow> system" where
  "scanned a t s =
     (let answer = (\<lambda>r. update_consumer (ScanBy a) (took (Some (ScanTx a)) r) (SysExec s)) in
      case t of
        None \<Rightarrow> s\<lparr>SysExec := answer None, SysScan := None\<rparr>
      | Some (Solving m) \<Rightarrow> s\<lparr>SysExec := answer (Some (ClaimIntent m)), SysScan := None,
          SysSolves := add_mset (ScanBy a, m, Some (Solving m)) (SysSolves s)\<rparr>
      | Some t' \<Rightarrow> s\<lparr>SysScan :=
          Some (a\<lparr>ScanSeen := saw (ScanAt a) (SysPackets s) (ScanSeen a), ScanAt := t'\<rparr>)\<rparr>)"

text \<open>The consumer is the given plugin's; its goroutine is in the loop with \<open>tx\<close> to receive.\<close>

definition runs_plugin :: "('w, 'tx, 'i) plugin \<Rightarrow> ('w, 'tx, 'i) executor \<Rightarrow> nat \<Rightarrow> bool" where
  "runs_plugin p e i \<longleftrightarrow> i < length (XConsumers e) \<and> CPlugin (XConsumers e ! i) = p"

definition receiving :: "'tx option \<Rightarrow> ('w, 'tx, 'i) executor \<Rightarrow> nat \<Rightarrow> bool" where
  "receiving tx e i \<longleftrightarrow>
     (\<exists>rest. CPhase (XConsumers e ! i) = Looping \<and> CQueue (XConsumers e ! i) = tx # rest)"

definition matching :: "system \<Rightarrow> nat \<Rightarrow> bool" where
  "matching s i \<longleftrightarrow> (\<exists>a. SysScan s = Some a \<and> ScanBy a = i)"

definition sent_by :: "emulator \<Rightarrow> intent \<Rightarrow> submission option \<Rightarrow> sent list" where
  "sent_by emu intent sub = (case intent of ClaimIntent m \<Rightarrow> sent_of emu m sub | OtherIntent \<Rightarrow> [])"

text \<open>
  The executor's steps: \<open>Run\<close>'s own, which leave the consumers there are as they are; a consumer
  leaving its loop or returning; the encrypted plugin's matches and solves, which share no state;
  the reveal plugin's, action by action. Beside them: the streams and the cancellation, the clock,
  \<open>Reveal\<close> requests, accepted or not, and the actions of the probes.
\<close>

inductive system_own ::
  "('priv, 'pub) ext \<Rightarrow> ('priv, 'pub) wiring \<Rightarrow> system \<Rightarrow> system \<Rightarrow> bool"
  for L :: "('priv, 'pub) ext" and w :: "('priv, 'pub) wiring" where
  run: "own_step (\<lambda>_. False) (SysExec s) e \<Longrightarrow> XConsumers e = XConsumers (SysExec s) @ ks \<Longrightarrow>
    system_own L w s (s\<lparr>SysExec := e\<rparr>)"
| leave: "i < length (XConsumers (SysExec s)) \<Longrightarrow> \<not> matching s i \<Longrightarrow>
    consume_step (\<lambda>_. False) (XCancelled (SysExec s)) (XConsumers (SysExec s) ! i) k \<Longrightarrow>
    CSolved k = CSolved (XConsumers (SysExec s) ! i) \<Longrightarrow>
    system_own L w s (s\<lparr>SysExec := update_consumer i (\<lambda>_. k) (SysExec s)\<rparr>)"
| enc_take: "WEncrypted w = Some p \<Longrightarrow> runs_plugin (encrypted_plugin L p) (SysExec s) i \<Longrightarrow>
    receiving tx (SysExec s) i \<Longrightarrow>
    system_own L w s (s\<lparr>SysExec := update_consumer i
      (took tx (case tx of None \<Rightarrow> None | Some t \<Rightarrow> map_option ClaimIntent (enc_Match L p idx (Some t))))
      (SysExec s)\<rparr>)"
| enc_solve: "WEncrypted w = Some p \<Longrightarrow> runs_plugin (encrypted_plugin L p) (SysExec s) i \<Longrightarrow>
    intent \<in># CInFlight (XConsumers (SysExec s) ! i) \<Longrightarrow>
    system_own L w s (s\<lparr>SysExec := update_consumer i (ended intent) (SysExec s),
      SysEncSent := SysEncSent s @ sent_by emu intent (enc_Solve L p emu intent)\<rparr>)"
| skip: "WReveal w = Some c \<Longrightarrow> runs_plugin (reveal_plugin L c) (SysExec s) i \<Longrightarrow> \<not> matching s i \<Longrightarrow>
    receiving tx (SysExec s) i \<Longrightarrow> (case tx of None \<Rightarrow> None | Some t \<Rightarrow> start_match t) = None \<Longrightarrow>
    system_own L w s (s\<lparr>SysExec := update_consumer i (took tx None) (SysExec s)\<rparr>)"
| begin_match: "WReveal w = Some c \<Longrightarrow> runs_plugin (reveal_plugin L c) (SysExec s) i \<Longrightarrow>
    SysScan s = None \<Longrightarrow> receiving (Some tx) (SysExec s) i \<Longrightarrow> start_match tx = Some t \<Longrightarrow>
    system_own L w s (s\<lparr>SysScan :=
      Some \<lparr>ScanBy = i, ScanTx = tx, ScanSeen = (\<lambda>_. fmempty), ScanAt = t\<rparr>\<rparr>)"
| scan: "WReveal w = Some c \<Longrightarrow> SysScan s = Some a \<Longrightarrow>
    run_task L c idx virtual emu (ScanAt a) (SysPackets s) = (t, packets, sent) \<Longrightarrow>
    system_own L w s (scanned a t s)"
| solve: "WReveal w = Some c \<Longrightarrow> (i, m, Some t) \<in># SysSolves s \<Longrightarrow>
    run_task L c idx virtual emu t (SysPackets s) = (t', packets, sent) \<Longrightarrow>
    system_own L w s (s\<lparr>SysPackets := packets, SysSent := SysSent s @ sent,
      SysSolves := add_mset (i, m, t') (SysSolves s - {#(i, m, Some t)#})\<rparr>)"
| solve_end: "WReveal w = Some c \<Longrightarrow> (i, m, None) \<in># SysSolves s \<Longrightarrow>
    system_own L w s (s\<lparr>SysExec := update_consumer i (ended (ClaimIntent m)) (SysExec s),
      SysSolves := SysSolves s - {#(i, m, None)#}\<rparr>)"

inductive system_env ::
  "('priv, 'pub) ext \<Rightarrow> ('priv, 'pub) wiring \<Rightarrow> system \<Rightarrow> system \<Rightarrow> bool"
  for L :: "('priv, 'pub) ext" and w :: "('priv, 'pub) wiring" where
  env: "env_step (SysExec s) e \<Longrightarrow> system_env L w s (s\<lparr>SysExec := e\<rparr>)"
| tick: "SysNow s \<le> t \<Longrightarrow> system_env L w s (s\<lparr>SysNow := t\<rparr>)"
| reveal_ok: "WReveal w = Some c \<Longrightarrow>
    Reveal L c (SysNow s) req (SysPackets s) = (Inr key, packets) \<Longrightarrow>
    system_env L w s (s\<lparr>SysPackets := packets, SysProbes := add_mset (Probing key) (SysProbes s)\<rparr>)"
| reveal_err: "WReveal w = Some c \<Longrightarrow>
    Reveal L c (SysNow s) req (SysPackets s) = (Inl e, packets) \<Longrightarrow>
    system_env L w s (s\<lparr>SysPackets := packets\<rparr>)"
| probe: "WReveal w = Some c \<Longrightarrow> t \<in># SysProbes s \<Longrightarrow>
    run_task L c idx virtual emu t (SysPackets s) = (t', packets, sent) \<Longrightarrow>
    system_env L w s (s\<lparr>SysPackets := packets, SysSent := SysSent s @ sent,
      SysProbes := tasks_of t' + (SysProbes s - {#t#})\<rparr>)"

definition system_step ::
  "('priv, 'pub) ext \<Rightarrow> ('priv, 'pub) wiring \<Rightarrow> system \<Rightarrow> system \<Rightarrow> bool" where
  "system_step L w s s' \<longleftrightarrow> system_own L w s s' \<or> system_env L w s s'"

abbreviation system_reachable ::
  "('priv, 'pub) ext \<Rightarrow> ('priv, 'pub) wiring \<Rightarrow> system \<Rightarrow> bool" where
  "system_reachable L w \<equiv> reachable_from (\<lambda>s. \<exists>now. s = system_init L w now) (system_step L w)"

section \<open>The invariant\<close>

text \<open>
  A match in progress has seen bound registries only, and nothing to claim at the outputs before the
  one it is at. The reveal plugin's solves in flight, for the executor, are those there are jobs for.
\<close>

definition scan_at ::
  "('priv, 'pub) ext \<Rightarrow> ('priv, 'pub) claimer \<Rightarrow> (nat \<Rightarrow> registry) \<Rightarrow> psbt \<Rightarrow> task \<Rightarrow> bool" where
  "scan_at L c seen tx t \<longleftrightarrow>
     (case t of
        Scanning utx i \<Rightarrow> UnsignedTx tx = Some utx \<and> (\<forall>j<i. scan_output L c (seen j) utx j = None)
      | Gating m \<Rightarrow> matchRegistered L c seen (Some tx) = Some m
      | _ \<Rightarrow> False)"

definition scan_ok ::
  "('priv, 'pub) ext \<Rightarrow> ('priv, 'pub) claimer \<Rightarrow> (world, psbt, intent) executor \<Rightarrow> scan \<Rightarrow> bool" where
  "scan_ok L c e a \<longleftrightarrow>
     runs_plugin (reveal_plugin L c) e (ScanBy a) \<and> receiving (Some (ScanTx a)) e (ScanBy a) \<and>
     (\<forall>j. all_bound L c (ScanSeen a j)) \<and> scan_at L c (ScanSeen a) (ScanTx a) (ScanAt a)"

definition solves_of :: "nat \<Rightarrow> solve_job multiset \<Rightarrow> intent multiset" where
  "solves_of i jobs = image_mset (\<lambda>(_, m, _). ClaimIntent m) (filter_mset (\<lambda>(j, _). j = i) jobs)"

definition in_flight ::
  "('priv, 'pub) ext \<Rightarrow> ('priv, 'pub) claimer \<Rightarrow> (world, psbt, intent) executor \<Rightarrow> nat \<Rightarrow>
   intent multiset" where
  "in_flight L c e i =
     (if runs_plugin (reveal_plugin L c) e i then CInFlight (XConsumers e ! i) else {#})"

definition system_inv ::
  "('priv, 'pub) ext \<Rightarrow> ('priv, 'pub) wiring \<Rightarrow> ('priv, 'pub) claimer \<Rightarrow> system \<Rightarrow> bool" where
  "system_inv L w c s \<longleftrightarrow>
     wired_claimer w c \<and> all_bound L c (SysPackets s) \<and>
     (\<forall>a. SysScan s = Some a \<longrightarrow> scan_ok L c (SysExec s) a) \<and>
     (\<forall>i. solves_of i (SysSolves s) = in_flight L c (SysExec s) i)"

lemma plugins_differ: "encrypted_plugin L p \<noteq> reveal_plugin L c"
  by (simp add: encrypted_plugin_def reveal_plugin_def enc_Filter_def reveal_Filter_def)

lemma update_consumer_simps [simp]:
  "XConsumers (update_consumer i f e) = (XConsumers e)[i := f (XConsumers e ! i)]"
  "XPending (update_consumer i f e) = XPending e" "XCancelled (update_consumer i f e) = XCancelled e"
  by (simp_all add: update_consumer_def)

lemma consumer_simps [simp]:
  "CPlugin (took tx r k) = CPlugin k" "CPlugin (ended i k) = CPlugin k"
  "CInFlight (ended i k) = CInFlight k - {#i#}"
  "CInFlight (took tx None k) = CInFlight k"
  "CInFlight (took tx (Some i) k) = add_mset i (CInFlight k)"
  by (simp_all add: took_def ended_def)

lemma runs_plugin_update:
  "CPlugin (f (XConsumers e ! j)) = CPlugin (XConsumers e ! j) \<Longrightarrow>
     runs_plugin p (update_consumer j f e) i \<longleftrightarrow> runs_plugin p e i"
  by (cases "i = j") (auto simp: runs_plugin_def)

lemma in_flight_update:
  assumes "CPlugin (f (XConsumers e ! j)) = CPlugin (XConsumers e ! j)"
  shows "in_flight L c (update_consumer j f e) i =
    (if i = j \<and> runs_plugin (reveal_plugin L c) e j then CInFlight (f (XConsumers e ! j))
     else in_flight L c e i)"
  using assms by (cases "i = j") (auto simp: in_flight_def runs_plugin_def)

lemma in_flight_same:
  assumes "CPlugin (f (XConsumers e ! j)) = CPlugin (XConsumers e ! j)"
    and "CInFlight (f (XConsumers e ! j)) = CInFlight (XConsumers e ! j)"
  shows "in_flight L c (update_consumer j f e) i = in_flight L c e i"
  using assms by (simp add: in_flight_update) (simp add: in_flight_def)

lemma in_flight_append:
  assumes "XConsumers e' = XConsumers e @ ks" and "\<forall>k \<in> set ks. CInFlight k = {#}"
  shows "in_flight L c e' i = in_flight L c e i"
  using assms by (auto simp: in_flight_def runs_plugin_def nth_append)

lemma in_flight_other:
  assumes "runs_plugin (encrypted_plugin L p) e j" and "CPlugin (f (XConsumers e ! j)) = CPlugin (XConsumers e ! j)"
  shows "in_flight L c (update_consumer j f e) i = in_flight L c e i"
  using assms plugins_differ [of L p c] by (auto simp: in_flight_update runs_plugin_def)

lemma scan_ok_update:
  assumes "scan_ok L c e a" and "j \<noteq> ScanBy a"
  shows "scan_ok L c (update_consumer j f e) a"
  using assms by (auto simp: scan_ok_def runs_plugin_def receiving_def)

lemma scan_ok_append:
  assumes "scan_ok L c e a" and "XConsumers e' = XConsumers e @ ks"
  shows "scan_ok L c e' a"
  using assms by (auto simp: scan_ok_def runs_plugin_def receiving_def nth_append)

lemma scan_ok_source:
  assumes "scan_ok L c e a" and "source_step (XConsumers e ! j) k"
  shows "scan_ok L c (update_consumer j (\<lambda>_. k) e) a"
  using assms(2)
proof (cases "j = ScanBy a")
  case True
  with assms show ?thesis
    by (auto simp: scan_ok_def runs_plugin_def receiving_def elim!: source_stepE)
qed (simp add: assms(1) scan_ok_update)

lemma solves_of_simps [simp]:
  "solves_of i {#} = {#}"
  "solves_of i (add_mset (j, m, t) jobs) =
     (if j = i then add_mset (ClaimIntent m) (solves_of i jobs) else solves_of i jobs)"
  by (simp_all add: solves_of_def)

lemma solves_of_remove:
  "(j, m, t) \<in># jobs \<Longrightarrow> solves_of i (jobs - {#(j, m, t)#}) =
     (if j = i then solves_of i jobs - {#ClaimIntent m#} else solves_of i jobs)"
  by (auto dest!: multi_member_split)

lemma solves_of_mem: "(i, m, t) \<in># jobs \<Longrightarrow> ClaimIntent m \<in># solves_of i jobs"
  by (auto dest!: multi_member_split)

text \<open>An action of a match in progress.\<close>

lemma run_task_scan:
  assumes "run_task L c idx virtual emu t packets = (t', packets', sent)"
    and "scan_at L c seen tx t"
  shows "packets' = packets \<and> sent = [] \<and>
    (case t' of
       None \<Rightarrow> reveal_Match L c seen idx (Some tx) = None
     | Some (Solving m) \<Rightarrow> reveal_Match L c seen idx (Some tx) = Some m
     | Some t'' \<Rightarrow> scan_at L c (saw t packets seen) tx t'')"
proof (cases t)
  case (Scanning utx i)
  with assms(2) have u: "UnsignedTx tx = Some utx"
    and miss: "\<And>j. j < i \<Longrightarrow> scan_output L c (seen j) utx j = None"
    by (auto simp: scan_at_def)
  show ?thesis
  proof (cases "i < length (TxOuts utx)")
    case True
    with assms(1) Scanning u miss show ?thesis
      by (cases "scan_output L c packets utx i")
        (auto simp: scan_at_def saw_def matchRegistered_Some less_Suc_eq)
  next
    case False
    then have "matchRegistered L c seen (Some tx) = None"
      using u miss by (auto simp: matchRegistered_def first_some_None list_all_iff intro!: miss)
    with assms(1) Scanning False show ?thesis
      by (auto simp: reveal_Match_def)
  qed
next
  case (Gating m)
  with assms show ?thesis
    by (auto simp: scan_at_def reveal_Match_def gateSpendable_def split: sum.splits if_splits)
qed (use assms in \<open>simp_all add: scan_at_def\<close>)

lemma run_task_keeps_bound:
  "run_task L c idx virtual emu t packets = (t', packets', sent) \<Longrightarrow> all_bound L c packets \<Longrightarrow>
     all_bound L c packets'"
  using run_task_packets unregister_all_bound by metis

text \<open>A request is a submission, or is turned down before it is one.\<close>

lemma Reveal_is_Submit:
  assumes "Reveal L c now req packets = (res, packets')"
  obtains (accepted) addr taptree pkt key where "res = Inr key"
      "Submit L c now addr taptree pkt packets = (Inr key, packets')"
    | (failed) addr taptree pkt e where "Submit L c now addr taptree pkt packets = (Inl e, packets')"
    | (malformed) "packets' = packets"
proof (cases res)
  case (Inl e)
  with assms show ?thesis
    using Reveal_Inl [of L c now req packets "fst e" "snd e" packets'] failed malformed by auto
next
  case (Inr key)
  with assms show ?thesis
    using accepted by (auto simp: Reveal_Inr)
qed

lemma Reveal_all_bound:
  "Reveal L c now req packets = (res, packets') \<Longrightarrow> all_bound L c packets \<Longrightarrow> all_bound L c packets'"
  by (erule Reveal_is_Submit) (auto intro: Submit_all_bound)

lemma own_step_consumers:
  assumes "own_step W e e'" and "XConsumers e' = XConsumers e @ ks"
  shows "\<forall>k \<in> set ks. CInFlight k = {#}"
  using assms
proof (cases rule: own_step.cases)
  case (subscribe p ps ok)
  with assms(2) show ?thesis
    by (auto simp: subscribe_plugin_def start_consumer_def split: if_splits)
next
  case (consume i c)
  with assms(2) have "length ((XConsumers e)[i := c]) = length (XConsumers e @ ks)"
    by simp
  then show ?thesis by simp
qed (use assms(2) in simp_all)

lemma consume_step_idle:
  assumes "consume_step (\<lambda>_. False) x k k'" and "CSolved k' = CSolved k"
  shows "CPlugin k' = CPlugin k \<and> CInFlight k' = CInFlight k"
  using assms by (auto elim!: consume_stepE)

lemma source_step_in_flight: "source_step k k' \<Longrightarrow> CInFlight k' = CInFlight k"
  by (erule source_stepE) simp_all

lemma scanned_inv:
  assumes "system_inv L w c s" and "SysScan s = Some a"
    and "run_task L c idx virtual emu (ScanAt a) (SysPackets s) = (t, packets, sent)"
  shows "system_inv L w c (scanned a t s)"
proof -
  let ?p = "reveal_plugin L c"
  have a: "scan_ok L c (SysExec s) a" and bound: "all_bound L c (SysPackets s)"
    using assms(1,2) by (simp_all add: system_inv_def)
  then have runs: "runs_plugin ?p (SysExec s) (ScanBy a)"
    by (simp add: scan_ok_def)
  have next_ok: "case t of None \<Rightarrow> True | Some (Solving m) \<Rightarrow> True
      | Some t' \<Rightarrow> scan_at L c (saw (ScanAt a) (SysPackets s) (ScanSeen a)) (ScanTx a) t'"
    using run_task_scan [OF assms(3)] a by (auto simp: scan_ok_def split: option.splits task.splits)
  have seen: "all_bound L c (saw (ScanAt a) (SysPackets s) (ScanSeen a) j)" for j
    using a bound by (simp add: scan_ok_def saw_def split: task.split)
  have goes_on: "system_inv L w c (s\<lparr>SysScan :=
      Some (a\<lparr>ScanSeen := saw (ScanAt a) (SysPackets s) (ScanSeen a), ScanAt := t'\<rparr>)\<rparr>)"
    if "scan_at L c (saw (ScanAt a) (SysPackets s) (ScanSeen a)) (ScanTx a) t'" for t'
    using assms(1) a seen that by (simp add: system_inv_def scan_ok_def)
  have jobs: "solves_of i (SysSolves s) = in_flight L c (SysExec s) i" for i
    using assms(1) by (simp add: system_inv_def)
  show ?thesis
    using next_ok goes_on assms(1) jobs runs
    by (auto simp: scanned_def Let_def system_inv_def in_flight_update in_flight_same
        in_flight_def [of L c "SysExec s" "ScanBy a"] split: option.splits task.splits)
qed

lemma system_inv_exec:
  assumes "system_inv L w c s"
    and "\<And>a. SysScan s = Some a \<Longrightarrow> scan_ok L c (SysExec s) a \<Longrightarrow> scan_ok L c e a"
    and "\<And>i. in_flight L c e i = in_flight L c (SysExec s) i"
  shows "system_inv L w c (s\<lparr>SysExec := e\<rparr>)"
  using assms by (simp add: system_inv_def)

lemma system_own_inv:
  assumes "system_own L w s s'" and "system_inv L w c s"
  shows "system_inv L w c s'"
  using assms(1)
proof (cases rule: system_own.cases)
  case (run e ks)
  show ?thesis
    unfolding run(1)
    by (intro system_inv_exec [OF assms(2)] in_flight_append [OF run(3)]
        own_step_consumers [OF run(2,3)] scan_ok_append [OF _ run(3)])
next
  case (leave i k)
  then show ?thesis
    using consume_step_idle [OF leave(4,5)] unfolding leave(1)
    by (intro system_inv_exec [OF assms(2)] in_flight_same scan_ok_update) (auto simp: matching_def)
next
  case (enc_take p i tx idx)
  note other = in_flight_other [OF enc_take(3)]
  show ?thesis
    using enc_take(3) plugins_differ [of L p c] unfolding enc_take(1)
    by (intro system_inv_exec [OF assms(2)] other scan_ok_update)
      (auto simp: scan_ok_def runs_plugin_def)
next
  case (enc_solve p i intent emu)
  note other = in_flight_other [OF enc_solve(3)]
  have "system_inv L w c (s\<lparr>SysExec := update_consumer i (ended intent) (SysExec s)\<rparr>)"
    using enc_solve(3) plugins_differ [of L p c]
    by (intro system_inv_exec [OF assms(2)] other scan_ok_update)
      (auto simp: scan_ok_def runs_plugin_def)
  then show ?thesis
    unfolding enc_solve(1) by (simp add: system_inv_def)
next
  case (skip c' i tx)
  then show ?thesis
    unfolding skip(1)
    by (intro system_inv_exec [OF assms(2)] in_flight_same scan_ok_update) (auto simp: matching_def)
next
  case (begin_match c' i tx t)
  then have "c' = c"
    using assms(2) by (simp add: system_inv_def wired_claimer_def)
  with begin_match assms(2) show ?thesis
    by (auto simp: system_inv_def scan_ok_def scan_at_def start_match_def split: option.splits)
next
  case (scan c' a idx virtual emu t packets sent)
  then have "c' = c"
    using assms(2) by (simp add: system_inv_def wired_claimer_def)
  with scan show ?thesis
    using scanned_inv [OF assms(2)] by blast
next
  case (solve c' i m t idx virtual emu t' packets sent)
  then have "c' = c"
    using assms(2) by (simp add: system_inv_def wired_claimer_def)
  with solve show ?thesis
    using assms(2) run_task_keeps_bound [OF solve(4)] solves_of_mem [OF solve(3)]
    by (auto simp: system_inv_def solves_of_remove)
next
  case (solve_end c' i m)
  from solves_of_mem [OF solve_end(3)] assms(2)
  have "runs_plugin (reveal_plugin L c) (SysExec s) i"
    by (auto simp: system_inv_def in_flight_def split: if_splits)
  then have flight: "in_flight L c (update_consumer i (ended (ClaimIntent m)) (SysExec s)) j =
      solves_of j (SysSolves s - {#(i, m, None)#})" for j
    using assms(2) by (simp add: in_flight_update solves_of_remove [OF solve_end(3)] system_inv_def)
      (auto simp: in_flight_def)
  have keep: "scan_ok L c (update_consumer i (ended (ClaimIntent m)) (SysExec s)) a"
    if "scan_ok L c (SysExec s) a" for a
    using that by (cases "i = ScanBy a")
      (auto simp: scan_ok_update, auto simp: scan_ok_def runs_plugin_def receiving_def ended_def)
  show ?thesis
    using assms(2) flight keep unfolding solve_end(1) by (simp add: system_inv_def)
qed

lemma system_env_inv:
  assumes "system_env L w s s'" and "system_inv L w c s"
  shows "system_inv L w c s'"
  using assms(1)
proof (cases rule: system_env.cases)
  case (env e)
  from env(2) show ?thesis
  proof (cases rule: env_step.cases)
    case cancel
    then show ?thesis
      using assms(2) unfolding env(1)
      by (auto intro!: system_inv_exec simp: scan_ok_def runs_plugin_def receiving_def in_flight_def)
  next
    case (source j k)
    then have e: "e = update_consumer j (\<lambda>_. k) (SysExec s)"
      by (simp add: update_consumer_def)
    then show ?thesis
      using source(3) unfolding env(1) e
      by (intro system_inv_exec [OF assms(2)] in_flight_same)
        (simp_all add: scan_ok_source step_plugin source_step_in_flight)
  qed
next
  case (reveal_ok c' req key packets)
  then show ?thesis
    using assms(2) Reveal_all_bound [OF reveal_ok(3)]
    by (auto simp: system_inv_def wired_claimer_def)
next
  case (reveal_err c' req e packets)
  then show ?thesis
    using assms(2) Reveal_all_bound [OF reveal_err(3)]
    by (auto simp: system_inv_def wired_claimer_def)
next
  case (probe c' t idx virtual emu t' packets sent)
  then show ?thesis
    using assms(2) run_task_keeps_bound [OF probe(4)]
    by (auto simp: system_inv_def wired_claimer_def)
qed (use assms(2) in \<open>simp add: system_inv_def\<close>)

lemma system_step_inv:
  assumes "system_step L w s s'" and "system_inv L w c s"
  shows "system_inv L w c s'"
  using assms(1) system_own_inv [OF _ assms(2)] system_env_inv [OF _ assms(2)]
  unfolding system_step_def by blast

section \<open>The executor is a projection\<close>

lemma consume_step_worlds:
  "consume_step W x k k' \<Longrightarrow> (\<And>u. W u \<Longrightarrow> W' u) \<Longrightarrow> consume_step W' x k k'"
  by (erule consume_stepE) (auto intro: consume_step.intros)

lemma own_step_worlds: "own_step W e e' \<Longrightarrow> (\<And>u. W u \<Longrightarrow> W' u) \<Longrightarrow> own_step W' e e'"
  by (erule own_stepE) (auto intro: own_step.intros consume_step_worlds)

lemma own_run_step: "own_step W e e' \<Longrightarrow> run_step W e e'"
  by (simp add: run_step_def)

lemma receive_took:
  assumes "CQueue k = tx # rest"
  shows "receive u tx (k\<lparr>CQueue := rest\<rparr>) =
    took tx (case tx of None \<Rightarrow> None | Some t \<Rightarrow> safeMatch (CPlugin k) u t) k"
  using assms by (simp add: receive_def took_def split: option.split)

lemma take_step:
  assumes "i < length (XConsumers e)" and "receiving tx e i" and "W u"
    and "r = (case tx of None \<Rightarrow> None | Some t \<Rightarrow> safeMatch (CPlugin (XConsumers e ! i)) u t)"
  shows "run_step W e (update_consumer i (took tx r) e)"
proof -
  from assms(2) obtain rest where k: "CPhase (XConsumers e ! i) = Looping"
    "CQueue (XConsumers e ! i) = tx # rest"
    by (auto simp: receiving_def)
  have "consume_step W (XCancelled e) (XConsumers e ! i) (took tx r (XConsumers e ! i))"
    using consume_step.take [where W = W and w = u, OF k assms(3)]
    by (simp add: receive_took [OF k(2)] assms(4))
  from own_step.consume [OF assms(1) this] show ?thesis
    by (simp add: own_run_step update_consumer_def)
qed

lemma solved_step:
  assumes "i < length (XConsumers e)" and "intent \<in># CInFlight (XConsumers e ! i)"
  shows "run_step W e (update_consumer i (ended intent) e)"
proof -
  have "consume_step W (XCancelled e) (XConsumers e ! i) (ended intent (XConsumers e ! i))"
    using consume_step.solved [OF assms(2)] by (simp add: ended_def)
  from own_step.consume [OF assms(1) this] show ?thesis
    by (simp add: own_run_step update_consumer_def)
qed

lemma safeMatch_plugins:
  "safeMatch (encrypted_plugin L p) u t = map_option ClaimIntent (enc_Match L p (WIndexer u) (Some t))"
  "safeMatch (reveal_plugin L c) u t =
     map_option ClaimIntent (reveal_Match L c (WSnapshot u) (WIndexer u) (Some t))"
  by (simp_all add: safeMatch_def encrypted_plugin_def reveal_plugin_def)

lemma scanned_exec:
  assumes "scan_ok L c (SysExec s) a"
    and "run_task L c idx virtual emu (ScanAt a) (SysPackets s) = (t, packets, sent)"
  shows "(run_step (bound_world L c))\<^sup>*\<^sup>* (SysExec s) (SysExec (scanned a t s))"
proof -
  let ?u = "\<lparr>WIndexer = idx, WSnapshot = ScanSeen a\<rparr>"
  have runs: "ScanBy a < length (XConsumers (SysExec s))"
      "CPlugin (XConsumers (SysExec s) ! ScanBy a) = reveal_plugin L c"
    and recv: "receiving (Some (ScanTx a)) (SysExec s) (ScanBy a)"
    and at: "scan_at L c (ScanSeen a) (ScanTx a) (ScanAt a)"
    using assms(1) by (simp_all add: scan_ok_def runs_plugin_def)
  have u: "bound_world L c ?u"
    using assms(1) by (simp add: bound_world_def scan_ok_def)
  have answers: "run_step (bound_world L c) (SysExec s)
      (update_consumer (ScanBy a) (took (Some (ScanTx a)) (map_option ClaimIntent r)) (SysExec s))"
    if "reveal_Match L c (ScanSeen a) idx (Some (ScanTx a)) = r" for r
    by (rule take_step [where W = "bound_world L c" and u = ?u, OF runs(1) recv u]) (simp add: runs(2) safeMatch_plugins that)
  show ?thesis
    using run_task_scan [OF assms(2) at] answers [of None] answers [of "Some m" for m]
    by (auto simp: scanned_def Let_def split: option.splits task.splits)
qed

lemma system_own_exec:
  assumes "system_own L w s s'" and "system_inv L w c s"
  shows "(run_step (bound_world L c))\<^sup>*\<^sup>* (SysExec s) (SysExec s')"
  using assms(1)
proof (cases rule: system_own.cases)
  case (run e ks)
  then show ?thesis
    by (simp add: own_run_step own_step_worlds r_into_rtranclp)
next
  case (leave i k)
  have "own_step (bound_world L c) (SysExec s) (update_consumer i (\<lambda>_. k) (SysExec s))"
    using own_step.consume [OF leave(2)] consume_step_worlds [OF leave(4), of "bound_world L c"]
    by (simp add: update_consumer_def)
  then show ?thesis
    unfolding leave(1) by (simp add: own_run_step r_into_rtranclp)
next
  case (enc_take p i tx idx)
  have "run_step (bound_world L c) (SysExec s) (update_consumer i (took tx
      (case tx of None \<Rightarrow> None | Some t \<Rightarrow> map_option ClaimIntent (enc_Match L p idx (Some t)))) (SysExec s))"
    by (rule take_step [where u = "\<lparr>WIndexer = idx, WSnapshot = (\<lambda>_. fmempty)\<rparr>"])
      (use enc_take in \<open>auto simp: runs_plugin_def bound_world_def safeMatch_plugins split: option.split\<close>)
  with enc_take(1) show ?thesis by (simp add: r_into_rtranclp)
next
  case (enc_solve p i intent emu)
  then show ?thesis
    by (simp add: solved_step runs_plugin_def r_into_rtranclp)
next
  case (skip c' i tx)
  have "run_step (bound_world L c) (SysExec s) (update_consumer i (took tx None) (SysExec s))"
    by (rule take_step [where u = "\<lparr>WIndexer = (\<lambda>_ _. Inl []), WSnapshot = (\<lambda>_. fmempty)\<rparr>"])
      (use skip in \<open>auto simp: runs_plugin_def bound_world_def safeMatch_plugins reveal_Match_def
        matchRegistered_def start_match_def split: option.splits\<close>)
  with skip(1) show ?thesis by (simp add: r_into_rtranclp)
next
  case (scan c' a idx virtual emu t packets sent)
  then have "c' = c" and "scan_ok L c (SysExec s) a"
    using assms(2) by (simp_all add: system_inv_def wired_claimer_def)
  with scan show ?thesis
    by (simp add: scanned_exec)
next
  case (solve_end c' i m)
  have "ClaimIntent m \<in># in_flight L c (SysExec s) i"
    using solves_of_mem [OF solve_end(3)] assms(2) by (simp add: system_inv_def)
  with solve_end show ?thesis
    by (auto simp: in_flight_def runs_plugin_def split: if_splits intro!: r_into_rtranclp solved_step)
qed simp_all

lemma system_env_exec:
  assumes "system_env L w s s'" and "system_inv L w c s"
  shows "(run_step (bound_world L c))\<^sup>*\<^sup>* (SysExec s) (SysExec s')"
  using assms(1)
proof (cases rule: system_env.cases)
  case (env e)
  then show ?thesis
    by (simp add: run_step_def r_into_rtranclp)
qed simp_all

lemma system_step_exec:
  assumes "system_step L w s s'" and "system_inv L w c s"
  shows "(run_step (bound_world L c))\<^sup>*\<^sup>* (SysExec s) (SysExec s')"
  using assms(1) system_own_exec [OF _ assms(2)] system_env_exec [OF _ assms(2)]
  unfolding system_step_def by blast

interpretation sys_exec: simulation
  "\<lambda>s. wired_claimer w c \<and> (\<exists>now. s = system_init L w now)" "system_step L w" "system_inv L w c"
  "\<lambda>e. e = run_init (executor_plugins L w)" "run_step (bound_world L c)" SysExec
  for L :: "('priv, 'pub) ext" and w :: "('priv, 'pub) wiring" and c :: "('priv, 'pub) claimer"
proof unfold_locales
  show "system_inv L w c s" if "wired_claimer w c \<and> (\<exists>now. s = system_init L w now)" for s
    using that
    by (auto simp: system_inv_def system_init_def in_flight_def runs_plugin_def run_init_def)
  show "SysExec s = run_init (executor_plugins L w)"
    if "wired_claimer w c \<and> (\<exists>now. s = system_init L w now)" for s
    using that by (auto simp: system_init_def)
qed (simp_all add: system_step_inv system_step_exec)

section \<open>The reveal system is a projection\<close>

text \<open>Its tasks are what the match in progress, the solves and the probes do next.\<close>

definition solve_tasks :: "solve_job multiset \<Rightarrow> task multiset" where
  "solve_tasks jobs = (\<Sum>\<^sub># (image_mset (\<lambda>(_, _, t). tasks_of t) jobs))"

definition reveal_of :: "system \<Rightarrow> reveal_state" where
  "reveal_of s = \<lparr>Packets = SysPackets s, Now = SysNow s,
     Tasks = tasks_of (map_option ScanAt (SysScan s)) + solve_tasks (SysSolves s) + SysProbes s,
     Sent = SysSent s\<rparr>"

lemma tasks_of_simps [simp]: "tasks_of None = {#}" "tasks_of (Some t) = {#t#}"
  by (simp_all add: tasks_of_def)

lemma solve_tasks_simps [simp]:
  "solve_tasks {#} = {#}"
  "solve_tasks (add_mset (i, m, t) jobs) = tasks_of t + solve_tasks jobs"
  by (simp_all add: solve_tasks_def)

lemma reveal_of_exec [simp]: "reveal_of (s\<lparr>SysExec := e\<rparr>) = reveal_of s"
  by (simp add: reveal_of_def)

lemma reveal_of_sel [simp]:
  "Packets (reveal_of s) = SysPackets s" "Now (reveal_of s) = SysNow s" "Sent (reveal_of s) = SysSent s"
  by (simp_all add: reveal_of_def)

lemma reveal_run:
  assumes "Tasks r = add_mset t ts"
    and "run_task L c idx virtual emu t (Packets r) = (t', packets, sent)"
    and "r' = \<lparr>Packets = packets, Now = Now r, Tasks = tasks_of t' + ts, Sent = Sent r @ sent\<rparr>"
  shows "reveal_step L c r r'"
proof -
  have "r' = r\<lparr>Packets := packets, Tasks := tasks_of t' + ts, Sent := Sent r @ sent\<rparr>"
    by (simp add: assms(3))
  then show ?thesis
    using task_step_reveal [OF run_step [OF assms(1,2)]] by (simp only:)
qed

lemma scanned_reveal:
  assumes "scan_ok L c (SysExec s) a" and "SysScan s = Some a"
    and "run_task L c idx virtual emu (ScanAt a) (SysPackets s) = (t, packets, sent)"
  shows "reveal_step L c (reveal_of s) (reveal_of (scanned a t s))"
proof (rule reveal_run)
  show "Tasks (reveal_of s) = add_mset (ScanAt a) (solve_tasks (SysSolves s) + SysProbes s)"
    using assms(2) by (simp add: reveal_of_def)
  show "run_task L c idx virtual emu (ScanAt a) (Packets (reveal_of s)) = (t, packets, sent)"
    using assms(3) by simp
  have "packets = SysPackets s" "sent = []"
    using run_task_scan [OF assms(3), of "ScanSeen a" "ScanTx a"] assms(1)
    by (simp_all only: scan_ok_def)
  then show "reveal_of (scanned a t s) = \<lparr>Packets = packets, Now = Now (reveal_of s),
      Tasks = tasks_of t + (solve_tasks (SysSolves s) + SysProbes s), Sent = Sent (reveal_of s) @ sent\<rparr>"
    using assms(2) by (simp add: scanned_def Let_def reveal_of_def split: option.split task.split)
qed

lemma reveal_request:
  assumes "Reveal L c (SysNow s) req (SysPackets s) = (res, packets)"
  shows "(reveal_step L c)\<^sup>=\<^sup>= (reveal_of s) (reveal_of (case res of
      Inl _ \<Rightarrow> s\<lparr>SysPackets := packets\<rparr>
    | Inr key \<Rightarrow> s\<lparr>SysPackets := packets, SysProbes := add_mset (Probing key) (SysProbes s)\<rparr>))"
proof (cases res)
  case (Inr key)
  with assms obtain addr taptree pkt where
    "Submit L c (SysNow s) addr taptree pkt (SysPackets s) = (Inr key, packets)"
    by (auto simp: Reveal_Inr)
  with Inr show ?thesis
    using reveal_step.submit_ok [of L c "reveal_of s" addr taptree pkt key packets]
    by (simp add: reveal_of_def)
next
  case (Inl e)
  with Reveal_Inl [of L c "SysNow s" req "SysPackets s" "fst e" "snd e" packets] assms
  have "packets = SysPackets s \<or> (\<exists>addr taptree pkt x.
      Submit L c (SysNow s) addr taptree pkt (SysPackets s) = (Inl x, packets))"
    by auto
  with Inl show ?thesis
    using reveal_step.submit_err [of L c "reveal_of s" _ _ _ _ packets]
    by (auto simp: reveal_of_def)
qed

lemma system_own_reveal:
  assumes "system_own L w s s'" and "system_inv L w c s"
  shows "(reveal_step L c)\<^sup>=\<^sup>= (reveal_of s) (reveal_of s')"
  using assms(1)
proof (cases rule: system_own.cases)
  case (enc_solve p i intent emu)
  then show ?thesis by (simp add: reveal_of_def)
next
  case (begin_match c' i tx t)
  then show ?thesis
    using reveal_step.stream [of L c "reveal_of s" tx] by (simp add: reveal_of_def)
next
  case (scan c' a idx virtual emu t packets sent)
  then have "c' = c" and "scan_ok L c (SysExec s) a"
    using assms(2) by (simp_all add: system_inv_def wired_claimer_def)
  with scan have "reveal_step L c (reveal_of s) (reveal_of s')"
    by (simp add: scanned_reveal)
  then show ?thesis by simp
next
  case (solve c' i m t idx virtual emu t' packets sent)
  then have c: "c' = c"
    using assms(2) by (simp add: system_inv_def wired_claimer_def)
  obtain jobs where jobs: "SysSolves s = add_mset (i, m, Some t) jobs"
    using multi_member_split [OF solve(3)] by blast
  have "reveal_step L c (reveal_of s) (reveal_of s')"
    by (rule reveal_run [where t = t
        and ts = "tasks_of (map_option ScanAt (SysScan s)) + solve_tasks jobs + SysProbes s"])
      (use solve c jobs in \<open>simp_all add: reveal_of_def\<close>)
  then show ?thesis by simp
next
  case (solve_end c' i m)
  then show ?thesis
    by (auto simp: reveal_of_def dest!: multi_member_split)
qed simp_all

lemma system_env_reveal:
  assumes "system_env L w s s'" and "system_inv L w c s"
  shows "(reveal_step L c)\<^sup>=\<^sup>= (reveal_of s) (reveal_of s')"
  using assms(1)
proof (cases rule: system_env.cases)
  case (tick t)
  then show ?thesis
    using reveal_step.tick [of "reveal_of s" t L c] by (simp add: reveal_of_def)
next
  case (reveal_ok c' req key packets)
  then have "c' = c"
    using assms(2) by (simp add: system_inv_def wired_claimer_def)
  with reveal_ok show ?thesis
    using reveal_request [of L c s req "Inr key" packets] by simp
next
  case (reveal_err c' req e packets)
  then have "c' = c"
    using assms(2) by (simp add: system_inv_def wired_claimer_def)
  with reveal_err show ?thesis
    using reveal_request [of L c s req "Inl e" packets] by simp
next
  case (probe c' t idx virtual emu t' packets sent)
  then have c: "c' = c"
    using assms(2) by (simp add: system_inv_def wired_claimer_def)
  obtain ts where ts: "SysProbes s = add_mset t ts"
    using multi_member_split [OF probe(3)] by blast
  have "reveal_step L c (reveal_of s) (reveal_of s')"
    by (rule reveal_run [where t = t
        and ts = "tasks_of (map_option ScanAt (SysScan s)) + solve_tasks (SysSolves s) + ts"])
      (use probe c ts in \<open>simp_all add: reveal_of_def ac_simps\<close>)
  then show ?thesis by simp
qed simp_all

lemma system_step_reveal:
  assumes "system_step L w s s'" and "system_inv L w c s"
  shows "(reveal_step L c)\<^sup>=\<^sup>= (reveal_of s) (reveal_of s')"
  using assms(1) system_own_reveal [OF _ assms(2)] system_env_reveal [OF _ assms(2)]
  unfolding system_step_def by blast

interpretation sys_reveal: simulation
  "\<lambda>s. wired_claimer w c \<and> (\<exists>now. s = system_init L w now)" "system_step L w" "system_inv L w c"
  "\<lambda>r. \<exists>now. r = reveal_init now" "reveal_step L c" reveal_of
  for L :: "('priv, 'pub) ext" and w :: "('priv, 'pub) wiring" and c :: "('priv, 'pub) claimer"
proof unfold_locales
  show "\<exists>now. reveal_of s = reveal_init now"
    if "wired_claimer w c \<and> (\<exists>now. s = system_init L w now)" for s
    using that by (auto simp: system_init_def reveal_of_def reveal_init_def)
  show "(reveal_step L c)\<^sup>*\<^sup>* (reveal_of s) (reveal_of s')"
    if "system_step L w s s'" and "system_inv L w c s" for s s'
    using system_step_reveal [OF that] by auto
qed

end
