(* ===== verification/SystemRuns.thy ===== *)
theory SystemRuns
  imports System
begin

text \<open>
  Runs of the daemon, and its properties as a whole. A registered output is claimed from end to end: the
  registration, the delivery of the funding transaction, the match and the solve compose.
\<close>

section \<open>Claiming a registered output\<close>

abbreviation scan_from :: "nat \<Rightarrow> psbt \<Rightarrow> (nat \<Rightarrow> registry) \<Rightarrow> task \<Rightarrow> system \<Rightarrow> system" where
  "scan_from i tx seen t s \<equiv> s\<lparr>SysScan := Some \<lparr>ScanBy = i, ScanTx = tx, ScanSeen = seen, ScanAt = t\<rparr>\<rparr>"

lemma scan_to:
  assumes "WReveal w = Some c"
    and "run_task L c idx virtual emu t (SysPackets s) = (t', SysPackets s, [])"
    and "scanned \<lparr>ScanBy = i, ScanTx = tx, ScanSeen = seen, ScanAt = t\<rparr> t' (scan_from i tx seen t s) = s'"
  shows "system_own L w (scan_from i tx seen t s) s'"
  unfolding assms(3) [symmetric]
  by (rule system_own.scan [OF assms(1), where idx = idx and virtual = virtual and emu = emu
        and packets = "SysPackets s" and sent = "[]"])
    (use assms(2) in simp_all)

text \<open>The match passes over the outputs that pay nothing registered.\<close>

lemma scan_passes:
  assumes "WReveal w = Some c" and "n \<le> length (TxOuts utx)"
    and "\<And>j. j < n \<Longrightarrow> scan_output L c (SysPackets s) utx j = None"
  shows "\<exists>seen'. (system_own L w)\<^sup>*\<^sup>* (scan_from i tx seen (Scanning utx 0) s)
    (scan_from i tx seen' (Scanning utx n) s)"
  using assms(2,3)
proof (induction n)
  case 0
  show ?case by blast
next
  case (Suc n)
  then obtain seen' where "(system_own L w)\<^sup>*\<^sup>* (scan_from i tx seen (Scanning utx 0) s)
      (scan_from i tx seen' (Scanning utx n) s)"
    by auto
  moreover have "system_own L w (scan_from i tx seen' (Scanning utx n) s)
      (scan_from i tx (seen'(n := SysPackets s)) (Scanning utx (Suc n)) s)"
    by (rule scan_to [OF assms(1), where t' = "Some (Scanning utx (Suc n))"])
      (use Suc.prems in \<open>simp_all add: scanned_def saw_def\<close>)
  ultimately show ?case
    by (meson rtranclp.rtrancl_into_rtrancl)
qed

text \<open>The consumer answers a transaction at the head of its queue that the plugin matches.\<close>

definition starting :: "nat \<Rightarrow> psbt \<Rightarrow> matched_claim \<Rightarrow> system \<Rightarrow> system" where
  "starting i tx m s =
     s\<lparr>SysExec := update_consumer i (took (Some tx) (Some (ClaimIntent m))) (SysExec s),
       SysScan := None, SysSolves := add_mset (i, m, Some (Solving m)) (SysSolves s)\<rparr>"

lemma match_runs:
  assumes "WReveal w = Some c" and "runs_plugin (reveal_plugin L c) (SysExec s) i"
    and "receiving (Some tx) (SysExec s) i" and "SysScan s = None"
    and "reveal_Match L c (\<lambda>_. SysPackets s) idx (Some tx) = Some m"
  shows "(system_own L w)\<^sup>*\<^sup>* s (starting i tx m s)"
proof -
  from assms(5) obtain utx n where u: "UnsignedTx tx = Some utx" and n: "n < length (TxOuts utx)"
    and hit: "scan_output L c (SysPackets s) utx n = Some m"
    and miss: "\<And>j. j < n \<Longrightarrow> scan_output L c (SysPackets s) utx j = None"
    and gate: "gateSpendable idx m = Some m"
    by (auto simp: reveal_Match_def gateSpendable_Some matchRegistered_Some split: option.splits)
  let ?s = "\<lambda>seen t. scan_from i tx seen t s"
  have "system_own L w s (?s (\<lambda>_. fmempty) (Scanning utx 0))"
    using system_own.begin_match [OF assms(1,2,4,3)] u by (simp add: start_match_def)
  moreover obtain seen where "(system_own L w)\<^sup>*\<^sup>* (?s (\<lambda>_. fmempty) (Scanning utx 0))
      (?s seen (Scanning utx n))"
    using scan_passes [OF assms(1), of n utx L s i tx "\<lambda>_. fmempty"] n miss by auto
  moreover have "system_own L w (?s seen (Scanning utx n)) (?s (seen(n := SysPackets s)) (Gating m))"
    by (rule scan_to [OF assms(1), where t' = "Some (Gating m)"])
      (use n hit in \<open>simp_all add: scanned_def saw_def\<close>)
  moreover have "system_own L w (?s (seen(n := SysPackets s)) (Gating m)) (starting i tx m s)"
    by (rule scan_to [OF assms(1), where t' = "Some (Solving m)" and idx = idx])
      (use gate in \<open>simp_all add: scanned_def starting_def\<close>)
  ultimately show ?thesis
    by (meson converse_rtranclp_into_rtranclp rtranclp.rtrancl_into_rtrancl)
qed

text \<open>A solve runs to its end as the plugin's \<open>Solve\<close> does.\<close>

definition solve_done ::
  "nat \<Rightarrow> matched_claim \<Rightarrow> registry \<Rightarrow> sent list \<Rightarrow> solve_job multiset \<Rightarrow> system \<Rightarrow> system" where
  "solve_done i m packets sent jobs s =
     s\<lparr>SysPackets := packets, SysSent := SysSent s @ sent,
       SysExec := update_consumer i (ended (ClaimIntent m)) (SysExec s), SysSolves := jobs\<rparr>"

lemma solve_to:
  assumes "WReveal w = Some c" and "SysSolves s = add_mset (i, m, Some t) jobs"
    and "run_task L c idx virtual emu t (SysPackets s) = (t', packets, sent)"
  shows "system_own L w s (s\<lparr>SysPackets := packets, SysSent := SysSent s @ sent,
    SysSolves := add_mset (i, m, t') jobs\<rparr>)"
  using system_own.solve [OF assms(1) _ assms(3), of i m] assms(2) by simp

lemma solve_runs:
  assumes "WReveal w = Some c" and "SysSolves s = add_mset (i, m, Some (Solving m)) jobs"
    and "reveal_Solve L c emu (ClaimIntent m) (SysPackets s) = (sub, packets)"
  shows "(system_own L w)\<^sup>*\<^sup>* s (solve_done i m packets (sent_of emu m sub) jobs s)"
proof -
  obtain err sub' where cl: "claim L c emu m = (err, sub')"
    by fastforce
  with assms(3) have sub: "sub' = sub"
    by (simp add: reveal_Solve_def Let_def split: sum.splits)
  let ?key = "hex_encode (CredPkScript (MCredentials m))"
  let ?s = "\<lambda>p t. s\<lparr>SysPackets := p, SysSent := SysSent s @ sent_of emu m sub,
    SysSolves := add_mset (i, m, t) jobs\<rparr>"
  have last: "system_own L w (?s packets None) (solve_done i m packets (sent_of emu m sub) jobs s)"
    using system_own.solve_end [OF assms(1), of i m "?s packets None" L] by (simp add: solve_done_def)
  have runs: "system_own L w s (?s p t')"
    if "run_task L c (\<lambda>_ _. Inl []) (\<lambda>_. Inl []) emu (Solving m) (SysPackets s) =
      (t', p, sent_of emu m sub)" for p t'
    by (rule solve_to [OF assms(1,2) that])
  show ?thesis
  proof (cases err)
    case (Inl e)
    with cl assms(3) sub have "packets = SysPackets s"
      "run_task L c (\<lambda>_ _. Inl []) (\<lambda>_. Inl []) emu (Solving m) (SysPackets s) =
        (None, packets, sent_of emu m sub)"
      by (simp_all add: reveal_Solve_def sent_of_def split: option.split)
    with runs last show ?thesis
      by (meson converse_rtranclp_into_rtranclp r_into_rtranclp)
  next
    case (Inr u)
    with cl assms(3) sub have p: "packets = unregister ?key (SysPackets s)"
      "run_task L c (\<lambda>_ _. Inl []) (\<lambda>_. Inl []) emu (Solving m) (SysPackets s) =
        (Some (Removing ?key), SysPackets s, sent_of emu m sub)"
      by (simp_all add: reveal_Solve_def Let_def sent_of_def split: option.split)
    have "system_own L w (?s (SysPackets s) (Some (Removing ?key))) (?s packets None)"
      using solve_to [OF assms(1), of "?s (SysPackets s) (Some (Removing ?key))" i m "Removing ?key" jobs
          L _ _ _ None packets "[]"] p(1) by simp
    with runs [OF p(2)] last show ?thesis
      by (meson converse_rtranclp_into_rtranclp r_into_rtranclp)
  qed
qed

lemma claim_runs:
  assumes "WReveal w = Some c" and "runs_plugin (reveal_plugin L c) (SysExec s) i"
    and "receiving (Some tx) (SysExec s) i" and "SysScan s = None"
    and "reveal_Match L c (\<lambda>_. SysPackets s) idx (Some tx) = Some m"
    and "reveal_Solve L c emu (ClaimIntent m) (SysPackets s) = (sub, packets)"
  shows "(system_own L w)\<^sup>*\<^sup>* s
    (solve_done i m packets (sent_of emu m sub) (SysSolves s) (starting i tx m s))"
proof -
  have "(system_own L w)\<^sup>*\<^sup>* (starting i tx m s)
      (solve_done i m packets (sent_of emu m sub) (SysSolves s) (starting i tx m s))"
    by (rule solve_runs [OF assms(1)]) (use assms(6) in \<open>simp_all add: starting_def\<close>)
  with match_runs [OF assms(1-5)] show ?thesis
    by (rule rtranclp_trans)
qed

lemma own_system: "system_own L w s s' \<Longrightarrow> system_step L w s s'"
  by (simp add: system_step_def)

lemma env_system: "system_env L w s s' \<Longrightarrow> system_step L w s s'"
  by (simp add: system_step_def)

lemma own_runs: "(system_own L w)\<^sup>*\<^sup>* s s' \<Longrightarrow> (system_step L w)\<^sup>*\<^sup>* s s'"
  by (induction rule: rtranclp_induct) (auto intro: own_system rtranclp.rtrancl_into_rtrancl)

section \<open>What holds in every state\<close>

lemma system_reachable_wired:
  "wired_claimer w c \<Longrightarrow> system_reachable L w s \<Longrightarrow>
     reachable_from (\<lambda>s. wired_claimer w c \<and> (\<exists>now. s = system_init L w now)) (system_step L w) s"
  by (auto simp: reachable_from_def)

lemmas system_reachable_inv = sys_exec.reachable_inv [OF system_reachable_wired]
lemmas system_reachable_exec = sys_exec.reachable_abs [OF system_reachable_wired]
lemmas system_reachable_reveal = sys_reveal.reachable_abs [OF system_reachable_wired]

text \<open>The intents handed to the encrypted plugin's \<open>Solve\<close> are sound, so what it submits is.\<close>

lemma enc_solve_sound:
  assumes "wired_claimer w c" and "system_reachable L w s" and "WEncrypted w = Some p"
    and "runs_plugin (encrypted_plugin L p) (SysExec s) i"
    and "intent \<in># CInFlight (XConsumers (SysExec s) ! i)"
    and "x \<in> set (sent_by emu intent (enc_Solve L p emu intent))"
  shows "sent_ok L c x"
proof -
  have c: "EncClaimer p = c"
    using assms(1,3) by (simp add: wired_claimer_def)
  have i: "i < length (XConsumers (SysExec s))" "CPlugin (XConsumers (SysExec s) ! i) = encrypted_plugin L p"
    using assms(4) by (simp_all add: runs_plugin_def)
  have "consumer_inv (bound_world L c) (XCancelled (SysExec s)) (XConsumers (SysExec s) ! i)"
    using consumer_of_plugins [OF system_reachable_exec [OF assms(1,2)] i(1)] by simp
  then have "sound_intent L c intent"
    using enc.started_sound [OF consumer_inv_worlds, OF _ _ i(2)] assms(5) c by fastforce
  then show ?thesis
    using assms(6) c
    by (auto simp: sound_intent_def sent_by_def sent_of_def enc_Solve_def sent_ok_def claim_bundle_of
        split: option.splits)
qed

lemma encrypted_sent_ok:
  assumes "system_reachable L w s" and "wired_claimer w c"
  shows "\<forall>x \<in> set (SysEncSent s). sent_ok L c x"
  using assms(1)
proof (induction rule: reachable_induct)
  case (init s)
  then show ?case by (auto simp: system_init_def)
next
  case (step s s')
  from step(2) consider "system_own L w s s'" | "SysEncSent s' = SysEncSent s"
    by (auto simp: system_step_def elim!: system_env.cases)
  then show ?case
  proof cases
    case 2
    with step(3) show ?thesis by simp
  next
    case 1
    then show ?thesis
    proof (cases rule: system_own.cases)
      case (enc_solve p i intent emu)
      then show ?thesis
        using step(3) enc_solve_sound [OF assms(2) step(1) enc_solve(2,3,4)] by auto
    next
      case (scan c' a idx virtual emu t packets sent)
      then show ?thesis
        using step(3) by (simp add: scanned_def Let_def split: option.split task.split)
    qed (use step(3) in simp_all)
  qed
qed

lemma solves_of_none: "(\<And>i. solves_of i jobs = {#}) \<Longrightarrow> jobs = {#}"
proof (rule ccontr)
  assume none: "\<And>i. solves_of i jobs = {#}" and "jobs \<noteq> {#}"
  then obtain i m t where "(i, m, t) \<in># jobs"
    by (metis multiset_nonemptyE surj_pair)
  from solves_of_mem [OF this] none show False by simp
qed

section \<open>Runs for the witnesses\<close>

text \<open>
  A daemon with the reveal plugin alone: subscribed, the sample packet registered by a request, its
  funding transaction delivered.
\<close>

definition sample_reveal_wiring :: "(u8, u8) wiring" where
  "sample_reveal_wiring = \<lparr>WEncrypted = None, WReveal = Some sample_claimer\<rparr>"

definition sample_reveal_run ::
  "(world, psbt, intent) consumer \<Rightarrow> bool \<Rightarrow> run_phase \<Rightarrow> (world, psbt, intent) executor" where
  "sample_reveal_run k x r = \<lparr>XPending = [], XTried = [(reveal_plugin toy sample_claimer, True)],
     XConsumers = [k], XCancelled = x, XRun = r\<rparr>"

abbreviation sample_reveal_idle :: "(world, psbt, intent) consumer" where
  "sample_reveal_idle \<equiv> start_consumer (reveal_plugin toy sample_claimer)"

definition sample_registered :: "(world, psbt, intent) executor \<Rightarrow> system" where
  "sample_registered e = \<lparr>SysExec = e, SysPackets = sample_open, SysNow = 0, SysScan = None,
     SysSolves = {#}, SysProbes = {#Probing (hex_encode sample_pkscript)#}, SysSent = [],
     SysEncSent = []\<rparr>"

definition sample_delivered_tx :: "(world, psbt, intent) consumer" where
  "sample_delivered_tx = sample_reveal_idle\<lparr>CQueue := [Some sample_tx], CDelivered := [Some sample_tx]\<rparr>"

definition sample_ready :: system where
  "sample_ready = sample_registered (sample_reveal_run sample_delivered_tx False Selecting)"

abbreviation sample_daemon :: "system \<Rightarrow> bool" where
  "sample_daemon \<equiv> system_reachable toy sample_reveal_wiring"

lemma sample_reveal_wired [simp]:
  "wired_claimer sample_reveal_wiring sample_claimer" "WReveal sample_reveal_wiring = Some sample_claimer"
  by (simp_all add: wired_claimer_def sample_reveal_wiring_def)

lemma sample_registered_reachable:
  "sample_daemon (sample_registered (sample_reveal_run sample_reveal_idle False Selecting))"
proof -
  let ?p = "reveal_plugin toy sample_claimer"
  let ?init = "system_init toy sample_reveal_wiring 0"
  let ?e = "sample_reveal_run sample_reveal_idle False Selecting"
  have plugins: "executor_plugins toy sample_reveal_wiring = [?p]"
    by (simp add: executor_plugins_def sample_reveal_wiring_def)
  have "own_step (\<lambda>_. False) (run_init [?p]) ?e"
    using own_step.subscribe [of "run_init [?p]" ?p "[]" "\<lambda>_. False" True]
    by (simp add: run_init_def subscribe_plugin_def sample_reveal_run_def)
  then have s1: "system_step toy sample_reveal_wiring ?init (?init\<lparr>SysExec := ?e\<rparr>)"
    using own_system [OF system_own.run [of ?init ?e "[sample_reveal_idle]" toy sample_reveal_wiring]]
    by (simp add: system_init_def plugins run_init_def sample_reveal_run_def)
  have s2: "system_step toy sample_reveal_wiring (?init\<lparr>SysExec := ?e\<rparr>) (sample_registered ?e)"
    using env_system [OF system_env.reveal_ok [of sample_reveal_wiring sample_claimer toy "?init\<lparr>SysExec := ?e\<rparr>"
        sample_request "hex_encode sample_pkscript" sample_open]] sample_Reveal
    by (simp add: system_init_def sample_registered_def)
  have "sample_daemon ?init"
    by (rule reachable_init) blast
  from reachable_step [OF reachable_step [OF this s1] s2] show ?thesis .
qed

lemma sample_ready_reachable: "sample_daemon sample_ready"
proof -
  let ?e = "sample_reveal_run sample_reveal_idle False Selecting"
  have "source_step sample_reveal_idle sample_delivered_tx"
    using source_step.deliver [of sample_reveal_idle "Some sample_tx"]
    by (simp add: sample_delivered_tx_def start_consumer_def)
  then have "env_step ?e (sample_reveal_run sample_delivered_tx False Selecting)"
    using env_step.source [of 0 ?e sample_delivered_tx] by (simp add: sample_reveal_run_def)
  then have "system_step toy sample_reveal_wiring (sample_registered ?e) sample_ready"
    using env_system [OF system_env.env [of "sample_registered ?e" _ toy sample_reveal_wiring]]
    by (fastforce simp: sample_registered_def sample_ready_def)
  then show ?thesis
    by (rule reachable_step [OF sample_registered_reachable])
qed

lemma sample_ready_sel [simp]:
  "SysPackets sample_ready = sample_open" "SysScan sample_ready = None" "SysSolves sample_ready = {#}"
  "SysSent sample_ready = []"
  by (simp_all add: sample_ready_def sample_registered_def)

lemma sample_ready_receives:
  "runs_plugin (reveal_plugin toy sample_claimer) (SysExec sample_ready) 0"
  "receiving (Some sample_tx) (SysExec sample_ready) 0"
  by (simp_all add: sample_ready_def sample_registered_def sample_reveal_run_def runs_plugin_def
      receiving_def sample_delivered_tx_def start_consumer_def)

lemma sample_open_Match:
  "reveal_Match toy sample_claimer (\<lambda>_. sample_open) (\<lambda>_ _. Inr [\<lparr>VtxoTxid = ''t''\<rparr>]) (Some sample_tx) =
     Some sample_match"
proof -
  have "scan_output toy sample_claimer sample_open utx i =
      scan_output toy sample_claimer sample_registry utx i" for utx i
    by (cases "sample_pkscript = TxPkScript (TxOuts utx ! i)")
      (simp_all add: scan_output_def Let_def sample_open_def sample_registry_def sample_registration_def
        sample_submitted packet_Decrypt_anonymous decodePacket_def underfunded_def Underfunds_def
        cong: option.case_cong)
  then show ?thesis
    using sample_reveal_Match by (simp add: reveal_Match_def matchRegistered_def cong: option.case_cong)
qed

lemma sample_open_Solve:
  "reveal_Solve toy sample_claimer (\<lambda>_. Inr ()) (ClaimIntent sample_match) sample_open =
     (Some sample_bundle, unregister (hex_encode sample_pkscript) sample_open)"
  by (simp add: reveal_Solve_def claim_def sample_bundle map_err_def)
    (simp add: sample_match_def sample_creds_def)

definition sample_claimed :: system where
  "sample_claimed = solve_done 0 sample_match (unregister (hex_encode sample_pkscript) sample_open)
     [(sample_match, sample_bundle, Inr ())] {#} (starting 0 sample_tx sample_match sample_ready)"

lemma sample_claimed_reachable: "sample_daemon sample_claimed"
proof -
  have "(system_own toy sample_reveal_wiring)\<^sup>*\<^sup>* sample_ready sample_claimed"
    using claim_runs [OF sample_reveal_wired(2) sample_ready_receives sample_ready_sel(2),
        of "\<lambda>_ _. Inr [\<lparr>VtxoTxid = ''t''\<rparr>]" sample_match "\<lambda>_. Inr ()" "Some sample_bundle"]
      sample_open_Match sample_open_Solve
    by (simp add: sample_claimed_def sent_of_def)
  from reachable_run [OF sample_ready_reachable own_runs [OF this]] show ?thesis .
qed

text \<open>The claim has been accepted, its registration not yet deleted.\<close>

definition sample_deleting :: system where
  "sample_deleting = (starting 0 sample_tx sample_match sample_ready)
     \<lparr>SysPackets := sample_open, SysSent := [(sample_match, sample_bundle, Inr ())],
      SysSolves := {#(0, sample_match, Some (Removing (hex_encode sample_pkscript)))#}\<rparr>"

lemma sample_deleting_sel [simp]:
  "SysSolves sample_deleting =
     {#(0, sample_match, Some (Removing (hex_encode sample_pkscript)))#}"
  "SysPackets sample_deleting = sample_open"
  by (simp_all add: sample_deleting_def)

lemma sample_deleting_reachable: "sample_daemon sample_deleting"
proof -
  let ?s = "starting 0 sample_tx sample_match sample_ready"
  have "(system_own toy sample_reveal_wiring)\<^sup>*\<^sup>* sample_ready ?s"
    by (rule match_runs [OF sample_reveal_wired(2) sample_ready_receives sample_ready_sel(2),
          of "\<lambda>_ _. Inr [\<lparr>VtxoTxid = ''t''\<rparr>]"])
      (simp add: sample_open_Match)
  then have "sample_daemon ?s"
    by (rule reachable_run [OF sample_ready_reachable own_runs])
  moreover have "run_task toy sample_claimer (\<lambda>_ _. Inl []) (\<lambda>_. Inl []) (\<lambda>_. Inr ()) (Solving sample_match)
      (SysPackets ?s) =
      (Some (Removing (hex_encode sample_pkscript)), SysPackets ?s, [(sample_match, sample_bundle, Inr ())])"
    by (simp add: claim_def sample_bundle map_err_def) (simp add: sample_match_def sample_creds_def)
  then have "system_step toy sample_reveal_wiring ?s sample_deleting"
    using own_system [OF solve_to [OF sample_reveal_wired(2), of ?s 0 sample_match "Solving sample_match" "{#}"]]
    by (fastforce simp: sample_deleting_def starting_def)
  ultimately show ?thesis
    by (rule reachable_step)
qed

text \<open>The daemon stops before any transaction arrives: the probe is still there when \<open>Run\<close> has returned.\<close>

definition sample_stopping :: "consume_phase \<Rightarrow> bool \<Rightarrow> run_phase \<Rightarrow> system" where
  "sample_stopping ph x r = sample_registered (sample_reveal_run (sample_reveal_idle\<lparr>CPhase := ph\<rparr>) x r)"

abbreviation sample_cancelling :: system where
  "sample_cancelling \<equiv> sample_stopping Looping True Selecting"

abbreviation sample_halted :: system where
  "sample_halted \<equiv> sample_stopping Finished True (Returned CtxErr)"

lemma sample_stopping_sel [simp]:
  "SysExec (sample_stopping ph x r) = sample_reveal_run (sample_reveal_idle\<lparr>CPhase := ph\<rparr>) x r"
  "SysScan (sample_stopping ph x r) = None" "SysSolves (sample_stopping ph x r) = {#}"
  "SysProbes (sample_stopping ph x r) = {#Probing (hex_encode sample_pkscript)#}"
  "XConsumers (sample_reveal_run k x r) = [k]" "XCancelled (sample_reveal_run k x r) = x"
  "XRun (sample_reveal_run k x r) = r" "XPending (sample_reveal_run k x r) = []"
  by (simp_all add: sample_stopping_def sample_registered_def sample_reveal_run_def)

lemma sample_cancelling_reachable: "sample_daemon sample_cancelling"
proof -
  let ?s = "\<lambda>x. sample_stopping Looping x Selecting"
  have "sample_reveal_idle = sample_reveal_idle\<lparr>CPhase := Looping\<rparr>"
    by (simp add: start_consumer_def)
  then have s0: "sample_daemon (?s False)"
    using sample_registered_reachable by (simp add: sample_stopping_def)
  have "env_step (SysExec (?s False)) (SysExec (?s True))"
    using env_step.cancel [of "SysExec (?s False)"] by (simp add: returned_def) (simp add: sample_reveal_run_def)
  then have "system_step toy sample_reveal_wiring (?s False) (?s True)"
    using env_system [OF system_env.env [of "?s False" _ toy sample_reveal_wiring]]
    by (fastforce simp: sample_stopping_def sample_registered_def)
  from reachable_step [OF s0 this] show ?thesis .
qed

lemma sample_halting: "(system_own toy sample_reveal_wiring ^^ 3) sample_cancelling sample_halted"
proof -
  let ?w = sample_reveal_wiring and ?s = "\<lambda>ph. sample_stopping ph True Selecting"
  have leave: "system_own toy ?w (?s ph) (?s ph')"
    if "consume_step (\<lambda>_. False) True (sample_reveal_idle\<lparr>CPhase := ph\<rparr>) (sample_reveal_idle\<lparr>CPhase := ph'\<rparr>)"
    for ph ph'
    using system_own.leave [of 0 "?s ph" "sample_reveal_idle\<lparr>CPhase := ph'\<rparr>" toy ?w] that
    by (simp add: matching_def) (simp add: sample_stopping_def sample_registered_def sample_reveal_run_def
        update_consumer_def start_consumer_def)
  have "system_own toy ?w (?s Looping) (?s Draining)"
    using leave consume_step.ctx_done [of "sample_reveal_idle\<lparr>CPhase := Looping\<rparr>" True "\<lambda>_. False"] by simp
  moreover have "system_own toy ?w (?s Draining) (?s Finished)"
    using leave consume_step.wait_done [of "sample_reveal_idle\<lparr>CPhase := Draining\<rparr>" "\<lambda>_. False" True]
    by (simp add: start_consumer_def)
  moreover have "own_step (\<lambda>_. False) (SysExec (?s Finished)) (SysExec sample_halted)"
    using own_step.done_chosen [of "SysExec (?s Finished)" "\<lambda>_. False"]
    by (simp add: all_finished_def done_result_def) (simp add: sample_reveal_run_def)
  then have "system_own toy ?w (?s Finished) sample_halted"
    using system_own.run [of "?s Finished" "SysExec sample_halted" "[]" toy ?w]
    by (simp add: sample_stopping_def sample_registered_def)
  ultimately show ?thesis
    by (auto simp: eval_nat_numeral)
qed

lemma sample_halted_reachable: "sample_daemon sample_halted"
  using reachable_run [OF sample_cancelling_reachable own_runs [OF relpowp_imp_rtranclp [OF sample_halting]]] .

lemma sample_halted_stuck: "\<not> system_own toy sample_reveal_wiring sample_halted s"
  by (auto elim!: system_own.cases own_stepE consume_stepE
      simp: runs_plugin_def receiving_def start_consumer_def sample_reveal_wiring_def)

section \<open>Properties\<close>

text \<open>
  C5: the daemon refines its parts: in every run, the executor is in a state its own steps reach, over
  worlds whose registries are bound, and the registry with the goroutines on it is in a state the
  reveal system reaches. The reveal solves the executor waits for are those in progress.
\<close>

theorem daemon_refines_parts:
  assumes "wired_claimer w c" and "system_reachable L w s"
  shows "run_reachable (bound_world L c) (executor_plugins L w) (SysExec s) \<and>
    reveal_reachable L c (reveal_of s) \<and>
    (\<forall>i. in_flight L c (SysExec s) i = solves_of i (SysSolves s))"
  using system_reachable_exec [OF assms] system_reachable_reveal [OF assms]
    system_reachable_inv [OF assms] by (simp add: system_inv_def)

theorem daemon_refines_parts_witness:
  "reveal_reachable toy sample_claimer (reveal_of sample_ready)"
  using daemon_refines_parts [OF sample_reveal_wired(1) sample_ready_reachable] by simp

text \<open>
  C10: a registration leaves the daemon's registry only because it has expired or because a claim of its
  script has been accepted by the emulator. No failed claim, panic, refused request or shutdown ever
  removes it.
\<close>

theorem daemon_keeps_registrations:
  assumes "wired_claimer w c" and "system_reachable L w s" and "system_step L w s s'"
    and "fmlookup (SysPackets s) key = Some r" and "fmlookup (SysPackets s') key = None"
  shows "expired (SysNow s) r \<or>
    (\<exists>m b. (m, b, Inr ()) \<in> set (SysSent s) \<and> key = hex_encode (CredPkScript (MCredentials m)))"
proof -
  have "(reveal_step L c)\<^sup>=\<^sup>= (reveal_of s) (reveal_of s')"
    by (rule system_step_reveal [OF assms(3) system_reachable_inv [OF assms(1,2)]])
  moreover have "reveal_of s \<noteq> reveal_of s'"
    using assms(4,5) by (auto dest: arg_cong [where f = Packets])
  ultimately show ?thesis
    using reveal_step_drops [OF system_reachable_reveal [OF assms(1,2)], of "reveal_of s'" key r] assms(4,5)
    by simp
qed

theorem daemon_keeps_registrations_witness:
  "\<exists>s s' m b. sample_daemon s \<and> system_step toy sample_reveal_wiring s s' \<and>
     fmlookup (SysPackets s') (hex_encode sample_pkscript) = None \<and> (m, b, Inr ()) \<in> set (SysSent s) \<and>
     hex_encode sample_pkscript = hex_encode (CredPkScript (MCredentials m))"
proof -
  note w = sample_reveal_wired
  let ?dropped = "unregister (hex_encode sample_pkscript) sample_open"
  let ?s' = "sample_deleting\<lparr>SysPackets := ?dropped, SysSent := SysSent sample_deleting,
      SysSolves := {#(0, sample_match, None)#}\<rparr>"
  have step: "system_step toy sample_reveal_wiring sample_deleting ?s'"
    using own_system [OF solve_to [OF w(2) sample_deleting_sel(1), of toy "\<lambda>_ _. Inl []" "\<lambda>_. Inl []"
        "\<lambda>_. Inr ()" None ?dropped "[]"]]
    by simp
  have "fmlookup (SysPackets sample_deleting) (hex_encode sample_pkscript) =
      Some \<lparr>RegPacket = submitted sample_msg, RegTaptree = sample_taptree, RegExpireAt = registrationTTL\<rparr>"
    by (simp add: sample_deleting_def starting_def sample_open_def)
  from daemon_keeps_registrations [OF w(1) sample_deleting_reachable step this]
  obtain m b where "(m, b, Inr ()) \<in> set (SysSent sample_deleting)"
    "hex_encode sample_pkscript = hex_encode (CredPkScript (MCredentials m))"
    by (auto simp: expired_def registrationTTL_def sample_deleting_def starting_def sample_ready_def
        sample_registered_def unregister_def)
  moreover have "fmlookup (SysPackets ?s') (hex_encode sample_pkscript) = None"
    by (simp add: unregister_def)
  ultimately show ?thesis
    using step sample_deleting_reachable by blast
qed



text \<open>
  C17: when the daemon's \<open>Run\<close> has returned, no match and no solve of either plugin is in progress, and
  each claim ever matched has been solved. Only the probes that requests have started may remain.
\<close>

theorem stopped_daemon_leaves_only_probes:
  assumes "wired_claimer w c" and "system_reachable L w s" and "XRun (SysExec s) = Returned e"
  shows "SysScan s = None \<and> SysSolves s = {#} \<and> Tasks (reveal_of s) = SysProbes s \<and>
    list_all (\<lambda>k. CInFlight k = {#} \<and> CSolved k = mset (intents_of (CTaken k))) (XConsumers (SysExec s))"
proof -
  have inv: "run_inv (bound_world L c) (executor_plugins L w) (SysExec s)"
    by (rule run_reachable_inv [OF system_reachable_exec [OF assms(1,2)]])
  then have fin: "list_all (\<lambda>k. CPhase k = Finished \<and> CInFlight k = {#} \<and>
      CSolved k = mset (intents_of (CTaken k))) (XConsumers (SysExec s))"
    using assms(3) by (auto simp: run_inv_def all_finished_def consumer_inv_def list_all_iff)
  have sys: "system_inv L w c s"
    by (rule system_reachable_inv [OF assms(1,2)])
  have scan: "SysScan s = None"
  proof (rule ccontr)
    assume "SysScan s \<noteq> None"
    with sys obtain a where "scan_ok L c (SysExec s) a"
      by (auto simp: system_inv_def)
    with fin show False
      by (auto simp: scan_ok_def runs_plugin_def receiving_def list_all_length)
  qed
  have "solves_of i (SysSolves s) = {#}" for i
    using sys fin by (simp add: system_inv_def in_flight_def runs_plugin_def list_all_length)
  then have "SysSolves s = {#}"
    by (rule solves_of_none)
  with scan fin show ?thesis
    by (simp add: reveal_of_def list_all_iff)
qed

theorem stopped_daemon_leaves_only_probes_witness:
  "Tasks (reveal_of sample_halted) = SysProbes sample_halted \<and>
   Probing (hex_encode sample_pkscript) \<in># SysProbes sample_halted"
  using stopped_daemon_leaves_only_probes [OF sample_reveal_wired(1) sample_halted_reachable, of CtxErr]
  by simp

end
