(* ===== verification/SystemStop.thy ===== *)
theory SystemStop
  imports SystemRuns
begin

text \<open>
  The running daemon stops: once its context is cancelled, a cost bounds the number of its own steps,
  over the executor, the match in progress and the solves, and it cannot get stuck before \<open>Run\<close> has
  returned.
\<close>

section \<open>A cost for the daemon's own steps\<close>

text \<open>
  A transaction costs more than looking at all its outputs and solving a claim of it; the match in
  progress counts by how far it has come.
\<close>

definition outputs :: "psbt option \<Rightarrow> nat" where
  "outputs tx = (case tx of None \<Rightarrow> 0
     | Some t \<Rightarrow> (case UnsignedTx t of None \<Rightarrow> 0 | Some utx \<Rightarrow> length (TxOuts utx)))"

definition tx_cost :: "psbt option \<Rightarrow> nat" where
  "tx_cost tx = outputs tx + 8"

definition consumer_cost :: "('w, psbt, 'i) consumer \<Rightarrow> nat" where
  "consumer_cost k =
     (case CPhase k of Looping \<Rightarrow> 2 | Draining \<Rightarrow> 1 | Finished \<Rightarrow> 0) +
     sum_list (map tx_cost (CQueue k)) + size (CInFlight k)"

definition exec_cost :: "('w, psbt, 'i) executor \<Rightarrow> nat" where
  "exec_cost e = 3 * length (XPending e) + sum_list (map consumer_cost (XConsumers e)) +
     (case XRun e of Selecting \<Rightarrow> 2 | CtxDoneChosen \<Rightarrow> 1 | Returned _ \<Rightarrow> 0)"

definition stage_cost :: "task option \<Rightarrow> nat" where
  "stage_cost t = (case t of None \<Rightarrow> 0 | Some (Removing _) \<Rightarrow> 1 | Some _ \<Rightarrow> 2)"

definition jobs_cost :: "solve_job multiset \<Rightarrow> nat" where
  "jobs_cost jobs = (\<Sum>(_, _, t)\<in>#jobs. stage_cost t)"

definition scan_progress :: "scan option \<Rightarrow> nat" where
  "scan_progress x = (case x of None \<Rightarrow> 0
     | Some a \<Rightarrow> (case ScanAt a of Scanning _ i \<Rightarrow> Suc i | _ \<Rightarrow> outputs (Some (ScanTx a)) + 2))"

definition work :: "system \<Rightarrow> nat" where
  "work s = exec_cost (SysExec s) + jobs_cost (SysSolves s)"

definition system_cost :: "system \<Rightarrow> nat" where
  "system_cost s = work s - scan_progress (SysScan s)"

section \<open>Stages\<close>

text \<open>A match never looks past the outputs; a solve claims, then deletes, then ends.\<close>

definition solve_stage :: "task option \<Rightarrow> bool" where
  "solve_stage t = (case t of None \<Rightarrow> True | Some (Solving _) \<Rightarrow> True | Some (Removing _) \<Rightarrow> True | _ \<Rightarrow> False)"

definition in_range :: "task \<Rightarrow> bool" where
  "in_range t = (case t of Scanning utx i \<Rightarrow> i \<le> length (TxOuts utx) | _ \<Rightarrow> True)"

definition staged :: "system \<Rightarrow> bool" where
  "staged s \<longleftrightarrow> (\<forall>(_, _, t) \<in># SysSolves s. solve_stage t) \<and>
     (\<forall>a. SysScan s = Some a \<longrightarrow> in_range (ScanAt a))"

lemma solve_stage_simps [simp]:
  "solve_stage None" "solve_stage (Some (Solving m))" "solve_stage (Some (Removing key))"
  by (simp_all add: solve_stage_def)

lemma run_task_in_range:
  "run_task L c idx virtual emu t packets = (Some t', packets', sent) \<Longrightarrow> in_range t'"
  by (cases t) (auto simp: in_range_def start_match_def split: option.splits if_splits prod.splits sum.splits)

lemma run_task_stage:
  assumes "run_task L c idx virtual emu t packets = (t', packets', sent)" and "solve_stage (Some t)"
  shows "solve_stage t' \<and> stage_cost t' < stage_cost (Some t)"
  using assms
  by (cases t) (auto simp: solve_stage_def stage_cost_def split: prod.splits sum.splits option.splits)

lemma system_step_staged:
  assumes "system_step L w s s'" and "staged s"
  shows "staged s'"
  using assms(1) unfolding system_step_def
proof
  assume "system_own L w s s'"
  then show ?thesis
  proof (cases rule: system_own.cases)
    case (begin_match c i tx t)
    with assms(2) show ?thesis
      by (auto simp: staged_def in_range_def start_match_def split: option.splits)
  next
    case (scan c a idx virtual emu t packets sent)
    then have "\<And>t'. t = Some t' \<Longrightarrow> in_range t'"
      using run_task_in_range by blast
    with scan(1) assms(2) show ?thesis
      by (auto simp: staged_def scanned_def Let_def split: option.splits task.splits)
  next
    case (solve c i m t idx virtual emu t' packets sent)
    with assms(2) have "solve_stage t'"
      using run_task_stage [OF solve(4)] by (auto simp: staged_def)
    with solve(1) assms(2) show ?thesis
      by (auto simp: staged_def dest: in_diffD)
  qed (use assms(2) in \<open>auto simp: staged_def dest: in_diffD\<close>)
next
  assume "system_env L w s s'"
  then show ?thesis
    by (cases rule: system_env.cases) (use assms(2) in \<open>simp_all add: staged_def\<close>)
qed

interpretation stages: invariant_system "\<lambda>s. \<exists>now. s = system_init L w now" "system_step L w" staged
  for L :: "('priv, 'pub) ext" and w :: "('priv, 'pub) wiring"
  by unfold_locales (auto simp: system_step_staged, auto simp: staged_def system_init_def)

section \<open>Every step of the daemon's own costs something\<close>

lemma sum_list_update_cost:
  "i < length xs \<Longrightarrow>
     sum_list (map f (xs[i := x])) + f (xs ! i) = sum_list (map f xs) + (f x :: nat)"
  by (induction xs arbitrary: i) (auto split: nat.splits)

lemma exec_cost_update:
  assumes "i < length (XConsumers e)"
  shows "exec_cost (update_consumer i f e) + consumer_cost (XConsumers e ! i) =
    exec_cost e + consumer_cost (f (XConsumers e ! i))"
  using sum_list_update_cost [OF assms, of consumer_cost "f (XConsumers e ! i)"]
  by (simp add: exec_cost_def update_consumer_def)

lemma consumer_cost_le:
  assumes "i < length (XConsumers e)"
  shows "consumer_cost (XConsumers e ! i) \<le> exec_cost e"
proof -
  have "consumer_cost (XConsumers e ! i) \<le> sum_list (map consumer_cost (XConsumers e))"
    by (rule member_le_sum_list) (use assms in simp_all)
  then show ?thesis by (simp add: exec_cost_def)
qed

lemma consumer_cost_took:
  assumes "CQueue k = tx # rest"
  shows "consumer_cost (took tx r k) + tx_cost tx =
    consumer_cost k + (case r of None \<Rightarrow> 0 | Some _ \<Rightarrow> 1)"
  using assms by (simp add: consumer_cost_def took_def split: option.split)

lemma exec_cost_took:
  assumes "i < length (XConsumers e)" and "receiving tx e i"
  shows "exec_cost (update_consumer i (took tx r) e) + tx_cost tx =
    exec_cost e + (case r of None \<Rightarrow> 0 | Some _ \<Rightarrow> 1)"
  using assms exec_cost_update [OF assms(1), of "took tx r"] consumer_cost_took [of "XConsumers e ! i" tx _ r]
  by (fastforce simp: receiving_def)

lemma exec_cost_ended:
  assumes "i < length (XConsumers e)" and "intent \<in># CInFlight (XConsumers e ! i)"
  shows "exec_cost (update_consumer i (ended intent) e) < exec_cost e"
proof -
  have "consumer_cost (ended intent (XConsumers e ! i)) < consumer_cost (XConsumers e ! i)"
    using assms(2) by (auto simp: consumer_cost_def ended_def dest!: multi_member_split)
  with exec_cost_update [OF assms(1), of "ended intent"] show ?thesis by linarith
qed

lemma exec_cost_run:
  assumes "own_step (\<lambda>_. False) e e'" and "XConsumers e' = XConsumers e @ ks"
  shows "exec_cost e' < exec_cost e"
  using assms(1)
proof (cases rule: own_step.cases)
  case (subscribe p ps ok)
  then show ?thesis
    by (simp add: exec_cost_def subscribe_plugin_def consumer_cost_def start_consumer_def)
next
  case (consume i c)
  then have "(XConsumers e)[i := c] = XConsumers e @ ks"
    using assms(2) by simp
  then have "(XConsumers e)[i := c] = XConsumers e"
    by (metis append_self_conv length_append length_list_update length_0_conv add_cancel_right_right)
  then have "c = XConsumers e ! i"
    using consume(2) by (metis nth_list_update_eq)
  with consume_step_measure [OF consume(3)] show ?thesis by simp
qed (simp_all add: exec_cost_def)

lemma exec_cost_leave:
  assumes "i < length (XConsumers e)" and "consume_step (\<lambda>_. False) x (XConsumers e ! i) k"
    and "CSolved k = CSolved (XConsumers e ! i)"
  shows "exec_cost (update_consumer i (\<lambda>_. k) e) < exec_cost e"
proof -
  have "consumer_cost k < consumer_cost (XConsumers e ! i)"
    using assms(2,3) by (auto elim!: consume_stepE simp: consumer_cost_def)
  with exec_cost_update [OF assms(1), of "\<lambda>_. k"] show ?thesis by linarith
qed

lemma jobs_cost_simps [simp]:
  "jobs_cost {#} = 0" "jobs_cost (add_mset (i, m, t) jobs) = stage_cost t + jobs_cost jobs"
  by (simp_all add: jobs_cost_def)

text \<open>The match in progress has its transaction still to pay for.\<close>

lemma scan_progress_bound:
  assumes "scan_ok L c e a" and "in_range (ScanAt a)"
  shows "scan_progress (Some a) + 6 \<le> tx_cost (Some (ScanTx a))" and "tx_cost (Some (ScanTx a)) \<le> exec_cost e"
proof -
  show "scan_progress (Some a) + 6 \<le> tx_cost (Some (ScanTx a))"
    using assms by (auto simp: scan_ok_def scan_at_def in_range_def scan_progress_def tx_cost_def outputs_def
        split: task.splits)
  have "ScanBy a < length (XConsumers e)" and "receiving (Some (ScanTx a)) e (ScanBy a)"
    using assms(1) by (simp_all add: scan_ok_def runs_plugin_def)
  from exec_cost_took [OF this, of None] show "tx_cost (Some (ScanTx a)) \<le> exec_cost e"
    by simp
qed

lemma scan_progress_le:
  assumes "system_inv L w c s" and "staged s"
  shows "scan_progress (SysScan s) \<le> work s"
proof (cases "SysScan s")
  case None
  then show ?thesis by (simp add: scan_progress_def)
next
  case (Some a)
  with assms have "scan_ok L c (SysExec s) a" "in_range (ScanAt a)"
    by (simp_all add: system_inv_def staged_def)
  from scan_progress_bound [OF this] Some show ?thesis
    by (simp add: work_def)
qed

lemma scanned_cost:
  assumes "system_inv L w c s" and "staged s" and "SysScan s = Some a"
    and "run_task L c idx virtual emu (ScanAt a) (SysPackets s) = (t, packets, sent)"
  shows "system_cost (scanned a t s) < system_cost s"
proof -
  have a: "scan_ok L c (SysExec s) a" and r: "in_range (ScanAt a)"
    using assms(1-3) by (simp_all add: system_inv_def staged_def)
  note bound = scan_progress_bound [OF a r]
  have i: "ScanBy a < length (XConsumers (SysExec s))" "receiving (Some (ScanTx a)) (SysExec s) (ScanBy a)"
    using a by (simp_all add: scan_ok_def runs_plugin_def)
  note took = exec_cost_took [OF i]
  have before: "system_cost s = exec_cost (SysExec s) + jobs_cost (SysSolves s) - scan_progress (Some a)"
    using assms(3) by (simp add: system_cost_def work_def)
  consider (none) "t = None" | (claim) m where "t = Some (Solving m)"
    | (on) t' where "t = Some t'" "\<nexists>m. t' = Solving m" "scanned a t s =
        s\<lparr>SysScan := Some (a\<lparr>ScanSeen := saw (ScanAt a) (SysPackets s) (ScanSeen a), ScanAt := t'\<rparr>)\<rparr>"
  proof (cases t)
    case (Some t')
    then show ?thesis
      using claim on by (cases t') (simp_all add: scanned_def)
  qed (rule none)
  then show ?thesis
  proof cases
    case none
    then have "system_cost (scanned a t s) =
        exec_cost (update_consumer (ScanBy a) (took (Some (ScanTx a)) None) (SysExec s)) + jobs_cost (SysSolves s)"
      by (simp add: scanned_def system_cost_def work_def scan_progress_def)
    with took [of None] bound before show ?thesis by simp
  next
    case (claim m)
    then have "system_cost (scanned a t s) =
        exec_cost (update_consumer (ScanBy a) (took (Some (ScanTx a)) (Some (ClaimIntent m))) (SysExec s)) +
        (2 + jobs_cost (SysSolves s))"
      by (simp add: scanned_def system_cost_def work_def scan_progress_def stage_cost_def)
    with took [of "Some (ClaimIntent m)"] bound before show ?thesis by simp
  next
    case (on t')
    have "scan_progress (Some a) < scan_progress (Some (a\<lparr>ScanSeen := seen, ScanAt := t'\<rparr>))" for seen
      using a assms(4) on(1,2)
      by (cases "ScanAt a") (auto simp: scan_ok_def scan_at_def scan_progress_def outputs_def
          split: if_splits option.splits)
    with on(3) bound before show ?thesis
      by (simp add: system_cost_def work_def diff_less_mono2)
  qed
qed

lemma work_decreases:
  assumes "work s' < work s" and "SysScan s' = SysScan s" and "system_inv L w c s'" and "staged s'"
  shows "system_cost s' < system_cost s"
  using assms(1,2) scan_progress_le [OF assms(3,4)] by (simp add: system_cost_def)

lemma system_own_cost:
  assumes "system_own L w s s'" and "system_inv L w c s" and "staged s"
  shows "system_cost s' < system_cost s"
proof -
  have inv': "system_inv L w c s'" and staged': "staged s'"
    using system_own_inv [OF assms(1,2)] system_step_staged [OF own_system [OF assms(1)] assms(3)] by simp_all
  note less = work_decreases [OF _ _ inv' staged']
  from assms(1) show ?thesis
  proof (cases rule: system_own.cases)
    case (run e ks)
    then show ?thesis
      using exec_cost_run [OF run(2,3)] by (intro less) (simp_all add: work_def)
  next
    case (leave i k)
    then show ?thesis
      using exec_cost_leave [OF leave(2,4,5)] by (intro less) (simp_all add: work_def)
  next
    case (enc_take p i tx idx)
    then have i: "i < length (XConsumers (SysExec s))"
      by (simp add: runs_plugin_def)
    show ?thesis
      using enc_take(1) exec_cost_took [OF i enc_take(4), of "case tx of None \<Rightarrow> None
          | Some t \<Rightarrow> map_option ClaimIntent (enc_Match L p idx (Some t))"]
      by (intro less) (auto simp: work_def tx_cost_def split: option.splits)
  next
    case (enc_solve p i intent emu)
    then show ?thesis
      using exec_cost_ended [OF _ enc_solve(4)] by (intro less) (simp_all add: work_def runs_plugin_def)
  next
    case (skip c' i tx)
    then have i: "i < length (XConsumers (SysExec s))"
      by (simp add: runs_plugin_def)
    show ?thesis
      using skip(1) exec_cost_took [OF i skip(5), of None] by (intro less) (simp_all add: work_def tx_cost_def)
  next
    case (begin_match c' i tx t)
    then have "i < length (XConsumers (SysExec s))"
      by (simp add: runs_plugin_def)
    with exec_cost_took [OF _ begin_match(5), of None] have "8 \<le> exec_cost (SysExec s)"
      by (simp add: tx_cost_def)
    with begin_match show ?thesis
      by (auto simp: system_cost_def work_def scan_progress_def start_match_def split: option.splits)
  next
    case (scan c' a idx virtual emu t packets sent)
    then have "c' = c"
      using assms(2) by (simp add: system_inv_def wired_claimer_def)
    with scan show ?thesis
      using scanned_cost [OF assms(2,3) scan(3)] by blast
  next
    case (solve c' i m t idx virtual emu t' packets sent)
    obtain jobs where jobs: "SysSolves s = add_mset (i, m, Some t) jobs"
      using multi_member_split [OF solve(3)] by blast
    then have "stage_cost t' < stage_cost (Some t)"
      using run_task_stage [OF solve(4)] assms(3) by (simp add: staged_def)
    with solve(1) jobs show ?thesis
      by (intro less) (simp_all add: work_def)
  next
    case (solve_end c' i m)
    obtain jobs where jobs: "SysSolves s = add_mset (i, m, None) jobs"
      using multi_member_split [OF solve_end(3)] by blast
    have "ClaimIntent m \<in># in_flight L c (SysExec s) i"
      using solves_of_mem [OF solve_end(3)] assms(2) by (simp add: system_inv_def)
    then have "exec_cost (update_consumer i (ended (ClaimIntent m)) (SysExec s)) < exec_cost (SysExec s)"
      by (intro exec_cost_ended) (auto simp: in_flight_def runs_plugin_def split: if_splits)
    with solve_end(1) jobs show ?thesis
      by (intro less) (simp_all add: work_def stage_cost_def)
  qed
qed

lemma own_steps_bounded_cost:
  assumes "(system_own L w ^^ k) s s'" and "system_inv L w c s" and "staged s"
  shows "k + system_cost s' \<le> system_cost s \<and> system_inv L w c s' \<and> staged s'"
  using assms(1)
proof (induction k arbitrary: s')
  case 0
  with assms(2,3) show ?case by simp
next
  case (Suc k)
  then obtain t where t: "(system_own L w ^^ k) s t" and step: "system_own L w t s'"
    by auto
  from Suc.IH [OF t] have IH: "k + system_cost t \<le> system_cost s" "system_inv L w c t" "staged t"
    by simp_all
  show ?case
    using system_own_cost [OF step IH(2,3)] system_own_inv [OF step IH(2)]
      system_step_staged [OF own_system [OF step] IH(3)] IH(1) by simp
qed

section \<open>The daemon is not stuck\<close>

lemma consumer_owner:
  assumes "run_reachable W (executor_plugins L w) e" and "i < length (XConsumers e)"
  obtains (encrypted) p where "WEncrypted w = Some p" "runs_plugin (encrypted_plugin L p) e i"
    | (reveal) c where "WReveal w = Some c" "runs_plugin (reveal_plugin L c) e i"
proof -
  have "CPlugin (XConsumers e ! i) \<in> set (executor_plugins L w)"
    using consumer_of_plugins [OF assms] by simp
  then show ?thesis
    using encrypted reveal assms(2)
    by (cases "WEncrypted w"; cases "WReveal w"; auto simp: executor_plugins_def runs_plugin_def)
qed

lemma reveal_owner:
  assumes "wired_claimer w c" and "run_reachable W (executor_plugins L w) e"
    and "runs_plugin (reveal_plugin L c) e i"
  shows "WReveal w = Some c"
proof -
  have i: "i < length (XConsumers e)"
    using assms(3) by (simp add: runs_plugin_def)
  from assms(2) i show ?thesis
  proof (cases rule: consumer_owner)
    case (encrypted p)
    then have "encrypted_plugin L p = reveal_plugin L c"
      using assms(3) by (simp add: runs_plugin_def)
    with plugins_differ show ?thesis by blast
  next
    case (reveal c')
    with assms(1) show ?thesis by (simp add: wired_claimer_def)
  qed
qed

lemma solves_of_job:
  assumes "solves_of i jobs \<noteq> {#}"
  obtains m t where "(i, m, t) \<in># jobs"
  using assms by (auto simp: solves_of_def elim!: multiset_nonemptyE)

lemma system_own_progress:
  assumes "wired_claimer w c" and "system_reachable L w s" and "XCancelled (SysExec s)"
    and "\<not> returned (XRun (SysExec s))"
  shows "\<exists>s'. system_own L w s s'"
proof (cases "XPending (SysExec s)")
  case (Cons p ps)
  have "own_step (\<lambda>_. False) (SysExec s) (subscribe_plugin False p ((SysExec s)\<lparr>XPending := ps\<rparr>))"
    by (rule own_step.subscribe) fact
  then show ?thesis
    using system_own.run [where ks = "[]"] by (fastforce simp: subscribe_plugin_def)
next
  case Nil
  have exec: "run_reachable (bound_world L c) (executor_plugins L w) (SysExec s)"
    by (rule system_reachable_exec [OF assms(1,2)])
  have inv: "system_inv L w c s"
    by (rule system_reachable_inv [OF assms(1,2)])
  show ?thesis
  proof (cases "all_finished (SysExec s)")
    case True
    then have "\<exists>e. own_step (\<lambda>_. False) (SysExec s) e \<and> XConsumers e = XConsumers (SysExec s)"
      using Nil assms(4) own_step.drained [of "SysExec s"] own_step.done_chosen [of "SysExec s"]
      by (cases "XRun (SysExec s)") (fastforce simp: returned_def)+
    then show ?thesis
      using system_own.run [where ks = "[]"] by fastforce
  next
    case False
    then obtain i where i: "i < length (XConsumers (SysExec s))"
      and running: "CPhase (XConsumers (SysExec s) ! i) \<noteq> Finished" (is "CPhase ?k \<noteq> _")
      by (auto simp: all_finished_def list_all_length)
    note leave = system_own.leave [OF i]
    show ?thesis
    proof (cases "matching s i")
      case True
      then obtain a where a: "SysScan s = Some a"
        by (auto simp: matching_def)
      with inv have "runs_plugin (reveal_plugin L c) (SysExec s) (ScanBy a)"
        by (simp add: system_inv_def scan_ok_def)
      then have "WReveal w = Some c"
        by (rule reveal_owner [OF assms(1) exec])
      obtain t packets sent where "run_task L c (\<lambda>_ _. Inl []) (\<lambda>_. Inl []) (\<lambda>_. Inr ()) (ScanAt a)
          (SysPackets s) = (t, packets, sent)"
        using prod_cases3 by blast
      from system_own.scan [OF \<open>WReveal w = Some c\<close> a this] show ?thesis ..
    next
      case not_matching: False
      show ?thesis
      proof (cases "CPhase ?k")
        case Looping
        then have "consume_step (\<lambda>_. False) True ?k (?k\<lparr>CPhase := Draining\<rparr>)"
          by (rule consume_step.ctx_done) simp
        with leave not_matching assms(3) show ?thesis by fastforce
      next
        case Draining
        show ?thesis
        proof (cases "CInFlight ?k = {#}")
          case True
          with Draining have "consume_step (\<lambda>_. False) True ?k (?k\<lparr>CPhase := Finished\<rparr>)"
            by (rule consume_step.wait_done)
          with leave not_matching assms(3) show ?thesis by fastforce
        next
          case False
          from exec i show ?thesis
          proof (cases rule: consumer_owner)
            case (encrypted p)
            with False show ?thesis
              using system_own.enc_solve by (metis multiset_nonemptyE)
          next
            case (reveal c')
            then have "c' = c"
              using assms(1) by (simp add: wired_claimer_def)
            with reveal False inv have "solves_of i (SysSolves s) \<noteq> {#}"
              by (simp add: system_inv_def in_flight_def)
            then obtain m t where job: "(i, m, t) \<in># SysSolves s"
              by (rule solves_of_job)
            show ?thesis
            proof (cases t)
              case None
              with system_own.solve_end [OF reveal(1)] job show ?thesis by blast
            next
              case (Some u)
              obtain u' packets sent where "run_task L c' (\<lambda>_ _. Inl []) (\<lambda>_. Inl []) (\<lambda>_. Inr ()) u
                  (SysPackets s) = (u', packets, sent)"
                using prod_cases3 by blast
              from system_own.solve [OF reveal(1) job [unfolded Some] this] show ?thesis ..
            qed
          qed
        qed
      qed (use running in simp)
    qed
  qed
qed

lemma own_step_cancelled: "own_step W e e' \<Longrightarrow> XCancelled e' = XCancelled e"
  by (erule own_stepE) (simp_all add: subscribe_plugin_def)

lemma system_own_cancelled: "system_own L w s s' \<Longrightarrow> XCancelled (SysExec s') = XCancelled (SysExec s)"
  by (erule system_own.cases)
    (simp_all add: own_step_cancelled scanned_def Let_def split: option.split task.split)

lemma own_runs_cancelled:
  "(system_own L w)\<^sup>*\<^sup>* s s' \<Longrightarrow> XCancelled (SysExec s') = XCancelled (SysExec s)"
  by (induction rule: rtranclp_induct) (simp_all add: system_own_cancelled)

section \<open>Properties\<close>

text \<open>
  The daemon stops. Once its context is cancelled, with matches, solves and probes anywhere in their
  course, it takes only finitely many more steps of its own, whatever their order, and cannot stop
  before \<open>Run\<close> has returned the context's error.
\<close>

theorem daemon_stops:
  assumes "wired_claimer w c" and "system_reachable L w s" and "XCancelled (SysExec s)"
  shows "(\<forall>k s'. (system_own L w ^^ k) s s' \<longrightarrow> k \<le> system_cost s) \<and>
    (\<forall>s'. (system_own L w)\<^sup>*\<^sup>* s s' \<longrightarrow> (\<nexists>s''. system_own L w s' s'') \<longrightarrow>
       XRun (SysExec s') = Returned CtxErr)"
proof (intro conjI allI impI)
  show "k \<le> system_cost s" if "(system_own L w ^^ k) s s'" for k s'
    using own_steps_bounded_cost [OF that system_reachable_inv [OF assms(1,2)] stages.reachable_inv [OF assms(2)]]
    by simp
  show "XRun (SysExec s') = Returned CtxErr"
    if run: "(system_own L w)\<^sup>*\<^sup>* s s'" and stuck: "\<nexists>s''. system_own L w s' s''" for s'
  proof -
    have r: "system_reachable L w s'"
      by (rule reachable_run [OF assms(2) own_runs [OF run]])
    have x: "XCancelled (SysExec s')"
      using own_runs_cancelled [OF run] assms(3) by simp
    have "returned (XRun (SysExec s'))"
      using system_own_progress [OF assms(1) r x] stuck by blast
    with run_reachable_inv [OF system_reachable_exec [OF assms(1) r]] x show ?thesis
      by (auto simp: run_inv_def returned_def done_result_def split: run_phase.splits)
  qed
qed

theorem daemon_stops_witness:
  "3 \<le> system_cost sample_cancelling \<and> (system_own toy sample_reveal_wiring)\<^sup>*\<^sup>* sample_cancelling sample_halted \<and>
   XRun (SysExec sample_halted) = Returned CtxErr"
proof -
  have "XCancelled (SysExec sample_cancelling)"
    by simp
  note stops = daemon_stops [OF sample_reveal_wired(1) sample_cancelling_reachable this]
  have "\<nexists>s. system_own toy sample_reveal_wiring sample_halted s"
    by (simp add: sample_halted_stuck)
  moreover have "(system_own toy sample_reveal_wiring)\<^sup>*\<^sup>* sample_cancelling sample_halted"
    using sample_halting by (rule relpowp_imp_rtranclp)
  ultimately show ?thesis
    using stops sample_halting by blast
qed

end
