(* ===== verification/ArkdSource.thy ===== *)
theory ArkdSource
  imports Instance
begin

text \<open>
  \<open>pkg/executor/arkdsource/arkdsource.go\<close>: the streams of transactions the executor subscribes to. What
  arkd and the context do is a list of the outcomes the code waits for, one for each time it waits;
  a list that has run out stands for waiting still. A subscription stream is the list of what
  \<open>Recv\<close> answers on it, with the watchdog of silent streams in force. Durations are integers in
  nanoseconds; the jitter of a wait, which changes only how long it takes, is in \<open>Backoff\<close>.
\<close>

section \<open>Model\<close>

definition reconnectInitialDelay :: int where "reconnectInitialDelay = 1000000000"
definition reconnectMaxDelay :: int where "reconnectMaxDelay = 10 * 1000000000"
definition reconnectMultiplier :: int where "reconnectMultiplier = 2"
definition streamStaleTimeout :: int where "streamStaleTimeout = 3 * 60 * 1000000000"

text \<open>An error with a gRPC status, or one without, like \<open>io.EOF\<close>.\<close>

datatype stream_error = StatusError code string | PlainError string

fun status_code :: "stream_error \<Rightarrow> code" where
  "status_code (StatusError c _) = c"
| "status_code (PlainError _) = Unknown"

definition permanentCodes :: "code list" where
  "permanentCodes = [InvalidArgument, Unauthenticated, PermissionDenied, Unimplemented]"

definition isPermanent :: "stream_error \<Rightarrow> bool" where
  "isPermanent err \<longleftrightarrow> status_code err \<in> set permanentCodes"

record source =
  HasSubs :: bool
  ReconnectDelay :: int
  ReconnectMaxDelay :: int

definition New :: source where
  "New = \<lparr>HasSubs = False, ReconnectDelay = reconnectInitialDelay,
     ReconnectMaxDelay = reconnectMaxDelay\<rparr>"

definition WithSubscriptions :: "source \<Rightarrow> source" where
  "WithSubscriptions s = s\<lparr>HasSubs := True\<rparr>"

subsection \<open>The unfiltered stream\<close>

text \<open>An event is an error, an event without an ark transaction, or the text of one.\<close>

datatype tx_event = EventErr | NoArkTx | ArkTx string

text \<open>
  What the \<open>select\<close> of \<open>subscribeAll\<close> finds; with an event, whether the \<open>send\<close> of its transaction went
  through, which is false when the context has ended instead.
\<close>

datatype all_input = CtxDone | EventsClosed | Event tx_event bool

datatype stream_end = Waiting | CtxEnded | Ended | Broke stream_error

fun subscribeAll ::
  "('priv, 'pub) ext \<Rightarrow> all_input list \<Rightarrow> psbt list \<times> stream_end" where
  "subscribeAll L [] = ([], Waiting)"
| "subscribeAll L (CtxDone # ins) = ([], CtxEnded)"
| "subscribeAll L (EventsClosed # ins) = ([], Ended)"
| "subscribeAll L (Event ev sent # ins) =
     (case ev of
        EventErr \<Rightarrow> subscribeAll L ins
      | NoArkTx \<Rightarrow> subscribeAll L ins
      | ArkTx tx \<Rightarrow>
          (case psbt_from_raw L tx of
             Inl _ \<Rightarrow> subscribeAll L ins
           | Inr pkt \<Rightarrow>
               if \<not> sent then ([], CtxEnded)
               else (let (out, e) = subscribeAll L ins in (pkt # out, e))))"

subsection \<open>The filtered stream\<close>

text \<open>
  An answer of \<open>Recv\<close>: an error, with whether the context has ended by then; or an event, which may be
  absent or carry an empty transaction, with whether its \<open>send\<close> went through.
\<close>

datatype recv = RecvErr stream_error bool | RecvEvent "string option" bool

type_synonym stream = "recv list"

fun readStream :: "('priv, 'pub) ext \<Rightarrow> stream \<Rightarrow> psbt list \<times> stream_end" where
  "readStream L [] = ([], Waiting)"
| "readStream L (RecvErr err ctxErr # rs) = ([], if ctxErr then CtxEnded else Broke err)"
| "readStream L (RecvEvent ev sent # rs) =
     (if ev = None \<or> ev = Some [] then readStream L rs
      else (case psbt_from_raw L (the ev) of
              Inl _ \<Rightarrow> readStream L rs
            | Inr pkt \<Rightarrow>
                if \<not> sent then ([], CtxEnded)
                else (let (out, e) = readStream L rs in (pkt # out, e))))"

text \<open>
  The watchdog: what \<open>Recv\<close> answers on a stream whose messages come with the given gaps, each counted
  from the one before (or from the start). A gap longer than the timeout, or none but silence, has
  the timer cancel the stream's own context, and \<open>Recv\<close> fails with \<open>Canceled\<close>.
\<close>

fun watch :: "string \<Rightarrow> (int \<times> recv) list \<Rightarrow> stream" where
  "watch msg [] = [RecvErr (StatusError Canceled msg) False]"
| "watch msg ((gap, r) # rs) =
     (if gap > streamStaleTimeout then [RecvErr (StatusError Canceled msg) False]
      else r # watch msg rs)"

text \<open>
  What one round of the loop of \<open>reopenSubscription\<close> finds: the context ended during the wait, a stream,
  or an error, with whether the context has ended by then. The result has the waits taken.
\<close>

datatype attempt = WaitCtxDone | Opened stream | OpenErr stream_error bool

datatype reopened = StillTrying | ReopenCtxEnded | Reopened stream | Rejected stream_error

fun reopen_loop :: "source \<Rightarrow> int \<Rightarrow> attempt list \<Rightarrow> int list \<times> reopened" where
  "reopen_loop s delay [] = ([delay], StillTrying)"
| "reopen_loop s delay (WaitCtxDone # ats) = ([delay], ReopenCtxEnded)"
| "reopen_loop s delay (Opened st # ats) = ([delay], Reopened st)"
| "reopen_loop s delay (OpenErr err ctxErr # ats) =
     (if ctxErr then ([delay], ReopenCtxEnded)
      else if isPermanent err then ([delay], Rejected err)
      else (let (ds, r) = reopen_loop s (min (delay * reconnectMultiplier) (ReconnectMaxDelay s)) ats
            in (delay # ds, r)))"

definition reopenSubscription :: "source \<Rightarrow> attempt list \<Rightarrow> int list \<times> reopened" where
  "reopenSubscription s ats = reopen_loop s (ReconnectDelay s) ats"

text \<open>
  The goroutine of \<open>subscribeFiltered\<close>, from its current stream, if it has one, and the rounds each
  reopening will see: what it forwards, and how it ends, at which it closes the channel. \<open>Broke e\<close>
  is an end with the error \<open>e\<close> logged.
\<close>

function filtered_loop ::
  "('priv, 'pub) ext \<Rightarrow> source \<Rightarrow> stream option \<Rightarrow> attempt list list \<Rightarrow> psbt list \<times> stream_end" where
  "filtered_loop L s None [] = ([], Waiting)"
| "filtered_loop L s None (ats # rest) =
     (case snd (reopenSubscription s ats) of
        StillTrying \<Rightarrow> ([], Waiting)
      | ReopenCtxEnded \<Rightarrow> ([], CtxEnded)
      | Rejected e \<Rightarrow> ([], Broke e)
      | Reopened st \<Rightarrow> filtered_loop L s (Some st) rest)"
| "filtered_loop L s (Some st) rest =
     (case readStream L st of
        (out, Broke e) \<Rightarrow>
          if isPermanent e then (out, Broke e)
          else (let (out', r) = filtered_loop L s None rest in (out @ out', r))
      | (out, r) \<Rightarrow> (out, r))"
  by pat_completeness auto
termination
  by (relation "measure (\<lambda>(L, s, st, rest). 2 * length rest + (case st of None \<Rightarrow> 0 | Some _ \<Rightarrow> 1))")
    auto

definition subscribeFiltered ::
  "('priv, 'pub) ext \<Rightarrow> source \<Rightarrow> (stream_error + stream) \<Rightarrow> attempt list list \<Rightarrow>
   stream_error + (psbt list \<times> stream_end)" where
  "subscribeFiltered L s opened script =
     (case opened of
        Inl err \<Rightarrow> if isPermanent err then Inl err else Inr (filtered_loop L s None script)
      | Inr st \<Rightarrow> Inr (filtered_loop L s (Some st) script))"

text \<open>Which of the two a filter gets.\<close>

datatype route = FullStream | FilteredStream string

definition Subscribe :: "source \<Rightarrow> string \<Rightarrow> route" where
  "Subscribe s flt =
     (if flt = [] then FullStream
      else if \<not> HasSubs s then FullStream
      else FilteredStream flt)"

section \<open>What is forwarded\<close>

definition decoded :: "('priv, 'pub) ext \<Rightarrow> string \<Rightarrow> psbt option" where
  "decoded L tx = (case psbt_from_raw L tx of Inl _ \<Rightarrow> None | Inr pkt \<Rightarrow> Some pkt)"

definition event_packet :: "('priv, 'pub) ext \<Rightarrow> tx_event \<Rightarrow> psbt option" where
  "event_packet L ev = (case ev of ArkTx tx \<Rightarrow> decoded L tx | _ \<Rightarrow> None)"

definition sub_packet :: "('priv, 'pub) ext \<Rightarrow> string option \<Rightarrow> psbt option" where
  "sub_packet L ev = (if ev = None \<or> ev = Some [] then None else decoded L (the ev))"

lemma map_filter_Cons:
  "List.map_filter f (x # xs) =
     (case f x of None \<Rightarrow> List.map_filter f xs | Some y \<Rightarrow> y # List.map_filter f xs)"
  by (simp add: List.map_filter_def split: option.split)

text \<open>
  Both loops forward: an input with its send done adds the packet of its event, if it has one, to what
  the rest gives. What that makes of a run of events is the same for both.
\<close>

locale forwarder =
  fixes loop :: "'in list \<Rightarrow> 'out list \<times> 'end"
    and input :: "'ev \<Rightarrow> 'in"
    and packet :: "'ev \<Rightarrow> 'out option"
  assumes forward: "loop (input ev # ins) =
      (case packet ev of None \<Rightarrow> loop ins | Some p \<Rightarrow> (p # fst (loop ins), snd (loop ins)))"
begin

lemma forward_events:
  "loop (map input evs @ ins) = (List.map_filter packet evs @ fst (loop ins), snd (loop ins))"
proof (induction evs)
  case (Cons ev evs)
  then show ?case
    by (simp add: forward map_filter_Cons split: option.split)
qed (simp add: List.map_filter_def)

lemma forward_end: "snd (loop (map input evs @ ins)) = snd (loop ins)"
  by (simp add: forward_events)

end

interpretation full: forwarder "subscribeAll L" "\<lambda>ev. Event ev True" "event_packet L"
  for L :: "('priv, 'pub) ext"
  by unfold_locales
    (auto simp: event_packet_def decoded_def split: tx_event.split sum.split option.split prod.split)

interpretation sub: forwarder "readStream L" "\<lambda>ev. RecvEvent ev True" "sub_packet L"
  for L :: "('priv, 'pub) ext"
  by unfold_locales (auto simp: sub_packet_def decoded_def split: sum.split option.split prod.split)

lemma readStream_not_Ended: "snd (readStream L st) \<noteq> Ended"
  by (induction L st rule: readStream.induct) (auto split: sum.split prod.split)

text \<open>The waits of a reopening: the delay doubles up to the maximum.\<close>

lemma reopen_loop_delays:
  assumes "reopen_loop s d ats = (ds, r)" and "i < length ds" and "0 \<le> d" and "0 \<le> ReconnectMaxDelay s"
  shows "ds ! i = (if i = 0 then d else min (d * 2 ^ i) (ReconnectMaxDelay s))"
  using assms
proof (induction s d ats arbitrary: ds r i rule: reopen_loop.induct)
  case (4 s delay err ctxErr ats)
  let ?d = "min (delay * reconnectMultiplier) (ReconnectMaxDelay s)"
  show ?case
  proof (cases "i = 0 \<or> ctxErr \<or> isPermanent err")
    case True
    with 4(2,3) show ?thesis
      by (auto split: if_splits prod.splits)
  next
    case False
    then obtain j ds' where i: "i = Suc j" and ds': "reopen_loop s ?d ats = (ds', r)" "ds = delay # ds'"
      using 4(2) by (cases i) (auto split: prod.splits)
    have "ds' ! j = (if j = 0 then ?d else min (?d * 2 ^ j) (ReconnectMaxDelay s))"
      using 4(1) [OF _ _ ds'(1)] False 4(3-5) i ds'(2) by (simp add: reconnectMultiplier_def)
    also have "\<dots> = min (delay * 2 ^ Suc j) (ReconnectMaxDelay s)"
    proof -
      have "ReconnectMaxDelay s \<le> ReconnectMaxDelay s * 2 ^ j"
        using 4(5) mult_left_mono [of 1 "2 ^ j :: int" "ReconnectMaxDelay s"] by simp
      then show ?thesis
        by (simp add: reconnectMultiplier_def min_mult_distrib_right min.assoc min_absorb2 mult.assoc)
    qed
    finally show ?thesis
      using i ds'(2) by simp
  qed
qed auto

text \<open>Reopening after some transient failures.\<close>

definition attempts_until :: "stream_error list \<Rightarrow> stream \<Rightarrow> attempt list" where
  "attempts_until fails st = map (\<lambda>e. OpenErr e False) fails @ [Opened st]"

lemma reopen_attempts:
  "list_all (\<lambda>e. \<not> isPermanent e) fails \<Longrightarrow> snd (reopen_loop s d (attempts_until fails st)) = Reopened st"
  by (induction fails arbitrary: d) (auto simp: attempts_until_def split: prod.split, metis snd_conv)

definition broken_stream :: "string option list \<Rightarrow> stream_error \<Rightarrow> stream" where
  "broken_stream evs e = map (\<lambda>ev. RecvEvent ev True) evs @ [RecvErr e False]"

lemma read_broken_stream:
  "readStream L (broken_stream evs e) = (List.map_filter (sub_packet L) evs, Broke e)"
  by (simp add: broken_stream_def sub.forward_events)

text \<open>A watched stream that delivers in time and then falls silent breaks with a transient error.\<close>

definition in_time :: "(int \<times> string option) list \<Rightarrow> bool" where
  "in_time evs \<longleftrightarrow> list_all (\<lambda>(gap, _). gap \<le> streamStaleTimeout) evs"

definition falls_silent :: "(int \<times> recv) list \<Rightarrow> bool" where
  "falls_silent rs \<longleftrightarrow> (case rs of [] \<Rightarrow> True | (gap, _) # _ \<Rightarrow> gap > streamStaleTimeout)"

lemma watch_silent:
  assumes "in_time evs" and "falls_silent rest"
  shows "watch msg (map (\<lambda>(gap, ev). (gap, RecvEvent ev True)) evs @ rest) =
    broken_stream (map snd evs) (StatusError Canceled msg)"
  using assms
  by (induction evs) (auto simp: in_time_def falls_silent_def broken_stream_def split: list.splits)

text \<open>For the witnesses: a decoder that takes texts of one length.\<close>

definition sample_ext :: "(u8, u8) ext" where
  "sample_ext = toy\<lparr>psbt_from_raw := (\<lambda>raw. if length raw = 2
     then Inr \<lparr>UnsignedTx = None, POutputs = [], PsbtRest = map of_char raw\<rparr> else Inl ''not a psbt'')\<rparr>"

definition sample_pkt :: "string \<Rightarrow> psbt" where
  "sample_pkt raw = \<lparr>UnsignedTx = None, POutputs = [], PsbtRest = map of_char raw\<rparr>"

lemma sample_ext_decodes:
  "psbt_from_raw sample_ext raw = (if length raw = 2 then Inr (sample_pkt raw) else Inl ''not a psbt'')"
  by (simp add: sample_ext_def sample_pkt_def)

section \<open>Properties\<close>

text \<open>
  The unfiltered stream forwards every event that carries a decodable ark transaction, in order; an
  error event, an event without a transaction or one that does not decode is skipped and never ends
  the stream.
\<close>

theorem unfiltered_forwards_all:
  "subscribeAll L (map (\<lambda>ev. Event ev True) evs @ rest) =
     (List.map_filter (event_packet L) evs @ fst (subscribeAll L rest), snd (subscribeAll L rest))"
  by (rule full.forward_events)

text \<open>
  C28: a filtered subscription survives every transient failure. However often its stream breaks and
  however many attempts each reopening takes, it forwards the decodable transactions of all its
  streams, in order, and stays open.
\<close>

theorem filtered_reconnects:
  assumes "list_all (\<lambda>(fails, evs, e). list_all (\<lambda>x. \<not> isPermanent x) fails \<and> \<not> isPermanent e) rounds"
  shows "filtered_loop L s None (map (\<lambda>(fails, evs, e). attempts_until fails (broken_stream evs e)) rounds) =
    (concat (map (\<lambda>(fails, evs, e). List.map_filter (sub_packet L) evs) rounds), Waiting)"
  using assms
proof (induction rounds)
  case (Cons x rounds)
  obtain fails evs e where x: "x = (fails, evs, e)" by (cases x) auto
  with Cons show ?case
    by (simp add: reopenSubscription_def reopen_attempts read_broken_stream)
qed simp

theorem filtered_reconnects_witness:
  "filtered_loop sample_ext New None
     [attempts_until [PlainError ''refused''] (broken_stream [Some ''aa'', Some ''bbb''] (PlainError ''EOF'')),
      attempts_until [] (broken_stream [None, Some ''cc''] (StatusError Unavailable ''down''))] =
   ([sample_pkt ''aa'', sample_pkt ''cc''], Waiting)"
  using filtered_reconnects [of "[([PlainError ''refused''], [Some ''aa'', Some ''bbb''], PlainError ''EOF''),
      ([], [None, Some ''cc''], StatusError Unavailable ''down'')]" sample_ext New]
  by (simp add: isPermanent_def permanentCodes_def List.map_filter_def sub_packet_def decoded_def
      sample_ext_decodes)

text \<open>
  C31: a subscription ends with an error, before its channel exists or by closing it, only on a code that
  is permanent; it otherwise closes only because the context has ended.
\<close>

theorem filtered_ends_permanently:
  "case subscribeFiltered L s opened script of
     Inl e \<Rightarrow> isPermanent e
   | Inr (out, r) \<Rightarrow> (case r of Broke e \<Rightarrow> isPermanent e | Ended \<Rightarrow> False | _ \<Rightarrow> True)"
proof -
  have loop: "case snd (filtered_loop L s st script) of Broke e \<Rightarrow> isPermanent e | Ended \<Rightarrow> False | _ \<Rightarrow> True"
    for st
  proof (induction L s st script rule: filtered_loop.induct)
    case (2 L s ats rest)
    have "isPermanent e" if "snd (reopen_loop s d ats) = Rejected e" for d e
      using that by (induction s d ats rule: reopen_loop.induct) (auto split: if_splits prod.splits)
    with 2 show ?case
      by (auto simp: reopenSubscription_def split: reopened.split)
  next
    case (3 L s st rest)
    obtain out r where st: "readStream L st = (out, r)" by fastforce
    show ?case
    proof (cases "\<exists>e. r = Broke e \<and> \<not> isPermanent e")
      case True
      with 3 st show ?thesis
        by (auto split: prod.split)
    next
      case False
      with st readStream_not_Ended [of L st] show ?thesis
        by (cases r) auto
    qed
  qed simp
  have loop': "case filtered_loop L s st script of (out, r) \<Rightarrow>
      (case r of Broke e \<Rightarrow> isPermanent e | Ended \<Rightarrow> False | _ \<Rightarrow> True)" for st
    using loop [of st] by (simp add: case_prod_beta)
  show ?thesis
  proof (cases opened)
    case (Inl e)
    with loop' [of None] show ?thesis by (simp add: subscribeFiltered_def)
  next
    case (Inr st)
    with loop' [of "Some st"] show ?thesis by (simp add: subscribeFiltered_def del: filtered_loop.simps)
  qed
qed

text \<open>
  C29: a stream on which nothing arrives for three minutes is given up and the subscription reopened:
  what was delivered before is forwarded, and the loop goes on with a reopening, whatever follows.
\<close>

theorem silent_stream_is_reopened:
  assumes "in_time evs" and "falls_silent rest"
  shows "filtered_loop L s (Some (watch msg (map (\<lambda>(gap, ev). (gap, RecvEvent ev True)) evs @ rest))) script =
    (List.map_filter (sub_packet L) (map snd evs) @ fst (filtered_loop L s None script),
     snd (filtered_loop L s None script))"
  by (simp add: watch_silent [OF assms] read_broken_stream isPermanent_def permanentCodes_def
      split: prod.split del: filtered_loop.simps(1,2))

theorem silent_stream_is_reopened_witness:
  "filtered_loop sample_ext New (Some (watch ''idle''
      (map (\<lambda>(gap, ev). (gap, RecvEvent ev True)) [(1000000000, Some ''aa''), (2000000000, None)] @
        [(200 * 1000000000, RecvEvent None True)])))
     [attempts_until [PlainError ''refused''] (broken_stream [Some ''cc''] (PlainError ''EOF'')), [WaitCtxDone]] =
   ([sample_pkt ''aa'', sample_pkt ''cc''], CtxEnded)"
  by (subst silent_stream_is_reopened)
    (simp_all add: in_time_def falls_silent_def streamStaleTimeout_def reopenSubscription_def
      attempts_until_def isPermanent_def permanentCodes_def broken_stream_def sub_packet_def decoded_def
      List.map_filter_def sample_ext_decodes)

text \<open>
  The waits between attempts to reopen start at the initial delay and double up to the maximum,
  which they never exceed: one second, two, four, eight, then ten.
\<close>

theorem backoff_doubles:
  assumes "reopenSubscription s ats = (ds, r)" and "i < length ds"
    and "0 \<le> ReconnectDelay s" and "ReconnectDelay s \<le> ReconnectMaxDelay s"
  shows "ds ! i = min (ReconnectDelay s * 2 ^ i) (ReconnectMaxDelay s)"
  using reopen_loop_delays [OF assms(1) [unfolded reopenSubscription_def] assms(2,3)] assms(3,4)
  by simp

theorem backoff_doubles_witness:
  "fst (reopenSubscription New (replicate 5 (OpenErr (PlainError ''refused'') False))) ! 5 = 10 * 1000000000 \<and>
   fst (reopenSubscription New (replicate 5 (OpenErr (PlainError ''refused'') False))) ! 3 = 8 * 1000000000"
proof -
  let ?ats = "replicate 5 (OpenErr (PlainError ''refused'') False)"
  obtain ds r where d: "reopenSubscription New ?ats = (ds, r)"
    by fastforce
  then have "length ds = 6"
    by (auto simp: reopenSubscription_def isPermanent_def permanentCodes_def eval_nat_numeral)
  with backoff_doubles [OF d, of 5] backoff_doubles [OF d, of 3] show ?thesis
    unfolding d fst_conv
    by (simp add: New_def reconnectInitialDelay_def reconnectMaxDelay_def)
qed

end
