(* ===== verification/ArkdStream.thy ===== *)
theory ArkdStream
  imports ArkdSource Transition "HOL-Library.Sublist"
begin

text \<open>
  The goroutines behind \<open>Subscribe\<close> of \<open>pkg/executor/arkdsource/arkdsource.go\<close>, one labelled step for each
  of their actions: what they send into the channel, when they close it, and the contexts and streams
  they hold meanwhile. \<open>ArkdSource\<close> has the same code as functions of what it waits for; here what it
  waits for happens in between.
\<close>

section \<open>Model\<close>

text \<open>What a step does to the goroutine's channel.\<close>

datatype action = Quiet | Send psbt | CloseChan

subsection \<open>The filtered stream\<close>

text \<open>
  A stream of arkd as its reader sees it: the events that have arrived and are not read, and the error
  that \<open>Recv\<close> answers after them once the stream has failed.
\<close>

record conn =
  Unread :: "string option list"
  Failure :: "stream_error option"

definition fresh_conn :: conn where
  "fresh_conn = \<lparr>Unread = [], Failure = None\<rparr>"

text \<open>
  The goroutine of \<open>subscribeFiltered\<close>: waiting before an attempt and making it, both with the delay of
  the round, in \<open>Recv\<close> on a stream with the number of its context, in \<open>send\<close>, or ended with the channel
  closed. The contexts \<open>openSubscription\<close> derives are numbered; those not cancelled are kept. The last two
  fields keep what has happened: the events that arrived on its streams, and the packets sent.
\<close>

datatype sub_phase =
    Backing int
  | Opening int
  | Reading nat conn
  | Sending nat conn psbt
  | SubEnded

record subscription =
  SubFilter :: string
  SubPhase :: sub_phase
  SubOpened :: nat
  SubLive :: "nat set"
  SubArrived :: "string option list"
  SubSent :: "psbt list"

definition cancel_ctx :: "nat \<Rightarrow> subscription \<Rightarrow> subscription" where
  "cancel_ctx n g = g\<lparr>SubLive := SubLive g - {n}\<rparr>"

text \<open>\<open>answer\<close> is arkd's to a request, which holds the list of expressions to filter by.\<close>

definition openSubscription ::
  "(string list \<Rightarrow> stream_error option) \<Rightarrow> subscription \<Rightarrow> stream_error option \<times> nat \<times> subscription" where
  "openSubscription answer g =
     (let n = SubOpened g;
          g1 = g\<lparr>SubOpened := Suc n, SubLive := insert n (SubLive g)\<rparr>
      in case answer [SubFilter g] of
           Some err \<Rightarrow> (Some err, n, cancel_ctx n g1)
         | None \<Rightarrow> (None, n, g1))"

text \<open>An attempt of \<open>reopenSubscription\<close>, made after a wait of the given delay.\<close>

definition attempt_reopen ::
  "source \<Rightarrow> bool \<Rightarrow> (string list \<Rightarrow> stream_error option) \<Rightarrow> int \<Rightarrow> subscription \<Rightarrow>
   action \<times> subscription" where
  "attempt_reopen s cancelled answer delay g =
     (case openSubscription answer g of
        (None, n, g1) \<Rightarrow> (Quiet, g1\<lparr>SubPhase := Reading n fresh_conn\<rparr>)
      | (Some err, n, g1) \<Rightarrow>
          if cancelled then (CloseChan, g1\<lparr>SubPhase := SubEnded\<rparr>)
          else if isPermanent err then (CloseChan, g1\<lparr>SubPhase := SubEnded\<rparr>)
          else (Quiet, g1\<lparr>SubPhase := Backing (min (delay * reconnectMultiplier) (ReconnectMaxDelay s))\<rparr>))"

text \<open>
  \<open>Recv\<close> has failed: \<open>readStream\<close> returns, which cancels its stream's context, and the loop of
  \<open>subscribeFiltered\<close> decides.
\<close>

definition stream_broke :: "source \<Rightarrow> bool \<Rightarrow> nat \<Rightarrow> stream_error \<Rightarrow> subscription \<Rightarrow> action \<times> subscription" where
  "stream_broke s cancelled n err g =
     (let g1 = cancel_ctx n g in
      if cancelled then (CloseChan, g1\<lparr>SubPhase := SubEnded\<rparr>)
      else if isPermanent err then (CloseChan, g1\<lparr>SubPhase := SubEnded\<rparr>)
      else (Quiet, g1\<lparr>SubPhase := Backing (ReconnectDelay s)\<rparr>))"

text \<open>
  What \<open>Recv\<close> may fail with: the stream's error, after all that has arrived, or, once the stream's
  context is done, that.
\<close>

definition recv_fails :: "bool \<Rightarrow> nat set \<Rightarrow> nat \<Rightarrow> conn \<Rightarrow> stream_error \<Rightarrow> bool" where
  "recv_fails cancelled live n c err \<longleftrightarrow>
     (Unread c = [] \<and> Failure c = Some err) \<or>
     ((cancelled \<or> n \<notin> live) \<and> status_code err = Canceled)"

text \<open>
  \<open>cancelled\<close> is whether the context given to \<open>Subscribe\<close> has ended, \<open>room\<close> whether the channel has room;
  which of the results the \<open>select\<close> of \<open>send\<close> may have, true for a packet sent.
\<close>

definition send :: "bool \<Rightarrow> bool \<Rightarrow> bool \<Rightarrow> bool" where
  "send cancelled room ok \<longleftrightarrow> (if ok then room else cancelled)"

lemma send_simps [simp]: "send cancelled room True \<longleftrightarrow> room" "send cancelled room False \<longleftrightarrow> cancelled"
  by (simp_all add: send_def)

inductive sub_step ::
  "('priv, 'pub) ext \<Rightarrow> source \<Rightarrow> bool \<Rightarrow> bool \<Rightarrow> subscription \<Rightarrow> action \<Rightarrow> subscription \<Rightarrow> bool"
  for L :: "('priv, 'pub) ext" and s :: source and cancelled :: bool and room :: bool where
  wait_ctx: "SubPhase g = Backing d \<Longrightarrow> cancelled \<Longrightarrow>
    sub_step L s cancelled room g CloseChan (g\<lparr>SubPhase := SubEnded\<rparr>)"
| wait_over: "SubPhase g = Backing d \<Longrightarrow>
    sub_step L s cancelled room g Quiet (g\<lparr>SubPhase := Opening d\<rparr>)"
| attempted: "SubPhase g = Opening d \<Longrightarrow> attempt_reopen s cancelled answer d g = (a, g') \<Longrightarrow>
    sub_step L s cancelled room g a g'"
| recv_skip: "SubPhase g = Reading n c \<Longrightarrow> Unread c = ev # evs \<Longrightarrow> sub_packet L ev = None \<Longrightarrow>
    sub_step L s cancelled room g Quiet (g\<lparr>SubPhase := Reading n (c\<lparr>Unread := evs\<rparr>)\<rparr>)"
| recv_packet: "SubPhase g = Reading n c \<Longrightarrow> Unread c = ev # evs \<Longrightarrow> sub_packet L ev = Some pkt \<Longrightarrow>
    sub_step L s cancelled room g Quiet (g\<lparr>SubPhase := Sending n (c\<lparr>Unread := evs\<rparr>) pkt\<rparr>)"
| recv_err: "SubPhase g = Reading n c \<Longrightarrow> recv_fails cancelled (SubLive g) n c err \<Longrightarrow>
    stream_broke s cancelled n err g = (a, g') \<Longrightarrow> sub_step L s cancelled room g a g'"
| send_done: "SubPhase g = Sending n c pkt \<Longrightarrow> send cancelled room True \<Longrightarrow>
    sub_step L s cancelled room g (Send pkt) (g\<lparr>SubPhase := Reading n c, SubSent := SubSent g @ [pkt]\<rparr>)"
| send_ctx: "SubPhase g = Sending n c pkt \<Longrightarrow> send cancelled room False \<Longrightarrow>
    sub_step L s cancelled room g CloseChan ((cancel_ctx n g)\<lparr>SubPhase := SubEnded\<rparr>)"

text \<open>
  Meanwhile events arrive on the stream, it fails, or the watchdog of silent streams cancels its
  context; the timer's clock is left out, so it may do so at any time.
\<close>

fun stream_of :: "sub_phase \<Rightarrow> (nat \<times> conn) option" where
  "stream_of (Reading n c) = Some (n, c)"
| "stream_of (Sending n c _) = Some (n, c)"
| "stream_of _ = None"

fun with_conn :: "conn \<Rightarrow> sub_phase \<Rightarrow> sub_phase" where
  "with_conn c (Reading n _) = Reading n c"
| "with_conn c (Sending n _ pkt) = Sending n c pkt"
| "with_conn c ph = ph"

inductive sub_env :: "subscription \<Rightarrow> subscription \<Rightarrow> bool" where
  arrive: "stream_of (SubPhase g) = Some (n, c) \<Longrightarrow> n \<in> SubLive g \<Longrightarrow> Failure c = None \<Longrightarrow>
    sub_env g (g\<lparr>SubPhase := with_conn (c\<lparr>Unread := Unread c @ [ev]\<rparr>) (SubPhase g),
      SubArrived := SubArrived g @ [ev]\<rparr>)"
| break: "stream_of (SubPhase g) = Some (n, c) \<Longrightarrow> Failure c = None \<Longrightarrow>
    sub_env g (g\<lparr>SubPhase := with_conn (c\<lparr>Failure := Some err\<rparr>) (SubPhase g)\<rparr>)"
| stale: "stream_of (SubPhase g) = Some (n, c) \<Longrightarrow> sub_env g (cancel_ctx n g)"

subsection \<open>The unfiltered stream\<close>

text \<open>
  The goroutine of \<open>subscribeAll\<close>, with the channel of events it reads, whether the client gave it a
  function to stop its stream by, and whether it has called it; then again what has arrived and been
  sent.
\<close>

datatype all_phase = AllSelect | AllSending psbt | AllEnded

record all_txs =
  AllPhase :: all_phase
  AllEvents :: "tx_event list"
  AllClosed :: bool
  AllHasStop :: bool
  AllStopped :: bool
  AllArrived :: "tx_event list"
  AllSent :: "psbt list"

definition all_return :: "all_txs \<Rightarrow> all_txs" where
  "all_return g = g\<lparr>AllPhase := AllEnded, AllStopped := AllHasStop g\<rparr>"

inductive all_step ::
  "('priv, 'pub) ext \<Rightarrow> bool \<Rightarrow> bool \<Rightarrow> all_txs \<Rightarrow> action \<Rightarrow> all_txs \<Rightarrow> bool"
  for L :: "('priv, 'pub) ext" and cancelled :: bool and room :: bool where
  select_ctx: "AllPhase g = AllSelect \<Longrightarrow> cancelled \<Longrightarrow> all_step L cancelled room g CloseChan (all_return g)"
| events_closed: "AllPhase g = AllSelect \<Longrightarrow> AllEvents g = [] \<Longrightarrow> AllClosed g \<Longrightarrow>
    all_step L cancelled room g CloseChan (all_return g)"
| event_skip: "AllPhase g = AllSelect \<Longrightarrow> AllEvents g = ev # evs \<Longrightarrow> event_packet L ev = None \<Longrightarrow>
    all_step L cancelled room g Quiet (g\<lparr>AllEvents := evs\<rparr>)"
| event_packet: "AllPhase g = AllSelect \<Longrightarrow> AllEvents g = ev # evs \<Longrightarrow> event_packet L ev = Some pkt \<Longrightarrow>
    all_step L cancelled room g Quiet (g\<lparr>AllEvents := evs, AllPhase := AllSending pkt\<rparr>)"
| all_send_done: "AllPhase g = AllSending pkt \<Longrightarrow> send cancelled room True \<Longrightarrow>
    all_step L cancelled room g (Send pkt) (g\<lparr>AllPhase := AllSelect, AllSent := AllSent g @ [pkt]\<rparr>)"
| all_send_ctx: "AllPhase g = AllSending pkt \<Longrightarrow> cancelled \<Longrightarrow>
    all_step L cancelled room g CloseChan (all_return g)"

inductive all_env :: "all_txs \<Rightarrow> all_txs \<Rightarrow> bool" where
  all_arrive: "\<not> AllClosed g \<Longrightarrow>
    all_env g (g\<lparr>AllEvents := AllEvents g @ [ev], AllArrived := AllArrived g @ [ev]\<rparr>)"
| all_close: "\<not> AllClosed g \<Longrightarrow> all_env g (g\<lparr>AllClosed := True\<rparr>)"

subsection \<open>Subscribe\<close>

datatype goroutine = AllTxs all_txs | Filtered subscription

text \<open>
  What \<open>Subscribe\<close> returns, given the answers to the one request it makes: an error, or the goroutine
  it starts. The first attempt of a filtered subscription is not a reason to give up unless its
  error is permanent.
\<close>

definition start_stream ::
  "source \<Rightarrow> string \<Rightarrow> (stream_error + bool) \<Rightarrow> (string list \<Rightarrow> stream_error option) \<Rightarrow>
   stream_error + goroutine" where
  "start_stream s flt all_answer answer =
     (case Subscribe s flt of
        FullStream \<Rightarrow>
          (case all_answer of
             Inl err \<Rightarrow> Inl err
           | Inr has_stop \<Rightarrow> Inr (AllTxs \<lparr>AllPhase = AllSelect, AllEvents = [], AllClosed = False,
               AllHasStop = has_stop, AllStopped = False, AllArrived = [], AllSent = []\<rparr>))
      | FilteredStream expr \<Rightarrow>
          (case openSubscription answer
              \<lparr>SubFilter = expr, SubPhase = Backing (ReconnectDelay s), SubOpened = 0, SubLive = {},
                SubArrived = [], SubSent = []\<rparr> of
             (Some err, n, g) \<Rightarrow> if isPermanent err then Inl err else Inr (Filtered g)
           | (None, n, g) \<Rightarrow> Inr (Filtered (g\<lparr>SubPhase := Reading n fresh_conn\<rparr>))))"

definition arkd_starts :: "source \<Rightarrow> string \<Rightarrow> goroutine \<Rightarrow> bool" where
  "arkd_starts s flt g \<longleftrightarrow> (\<exists>all_answer answer. start_stream s flt all_answer answer = Inr g)"

definition arkd_refuses :: "source \<Rightarrow> string \<Rightarrow> bool" where
  "arkd_refuses s flt \<longleftrightarrow> (\<exists>all_answer answer err. start_stream s flt all_answer answer = Inl err)"

inductive arkd_step ::
  "('priv, 'pub) ext \<Rightarrow> source \<Rightarrow> bool \<Rightarrow> bool \<Rightarrow> goroutine \<Rightarrow> action \<Rightarrow> goroutine \<Rightarrow> bool"
  for L :: "('priv, 'pub) ext" and s :: source and cancelled :: bool and room :: bool where
  all: "all_step L cancelled room g a g' \<Longrightarrow> arkd_step L s cancelled room (AllTxs g) a (AllTxs g')"
| filtered: "sub_step L s cancelled room g a g' \<Longrightarrow>
    arkd_step L s cancelled room (Filtered g) a (Filtered g')"

inductive arkd_env :: "goroutine \<Rightarrow> goroutine \<Rightarrow> bool" where
  env_all: "all_env g g' \<Longrightarrow> arkd_env (AllTxs g) (AllTxs g')"
| env_filtered: "sub_env g g' \<Longrightarrow> arkd_env (Filtered g) (Filtered g')"

section \<open>The contract of a source\<close>

text \<open>
  What the executor's \<open>Source\<close> interface asks of the goroutine behind a channel: it sends only into room,
  closes the channel exactly when it ends, does nothing afterwards, holds nothing then, and ends
  after finitely many steps of its own once its context has. \<open>sent\<close> is what it has sent so far, \<open>weight\<close>
  what the reader of the channel spends on a packet.
\<close>

locale stream_contract =
  fixes starts :: "string \<Rightarrow> 'g \<Rightarrow> bool"
    and refuses :: "string \<Rightarrow> bool"
    and step :: "bool \<Rightarrow> bool \<Rightarrow> 'g \<Rightarrow> action \<Rightarrow> 'g \<Rightarrow> bool"
    and env :: "'g \<Rightarrow> 'g \<Rightarrow> bool"
    and inv :: "'g \<Rightarrow> bool"
    and over :: "'g \<Rightarrow> bool"
    and clean :: "'g \<Rightarrow> bool"
    and sent :: "'g \<Rightarrow> psbt list"
    and weight :: "psbt \<Rightarrow> nat"
    and cost :: "'g \<Rightarrow> nat"
  assumes answered: "(\<exists>g. starts flt g) \<or> refuses flt"
    and started: "starts flt g \<Longrightarrow> inv g \<and> \<not> over g \<and> sent g = [] \<and> cost g \<le> 3"
    and step_inv: "step cancelled room g a g' \<Longrightarrow> inv g \<Longrightarrow> inv g'"
    and env_inv: "env g g' \<Longrightarrow> inv g \<Longrightarrow> inv g'"
    and running: "step cancelled room g a g' \<Longrightarrow> \<not> over g"
    and closing: "step cancelled room g a g' \<Longrightarrow> over g' \<longleftrightarrow> a = CloseChan"
    and sending: "step cancelled room g (Send pkt) g' \<Longrightarrow> room"
    and sent_step: "step cancelled room g a g' \<Longrightarrow>
      sent g' = sent g @ (case a of Send pkt \<Rightarrow> [pkt] | _ \<Rightarrow> [])"
    and env_over: "env g g' \<Longrightarrow> (over g' \<longleftrightarrow> over g) \<and> sent g' = sent g"
    and over_clean: "inv g \<Longrightarrow> over g \<Longrightarrow> clean g"
    and stops: "\<not> over g \<Longrightarrow> \<exists>a g'. step True room g a g'"
    and step_cost: "step True room g a g' \<Longrightarrow>
      cost g' + (case a of Send pkt \<Rightarrow> weight pkt | _ \<Rightarrow> 0) < cost g"

subsection \<open>The filtered stream keeps it\<close>

definition msg_cost :: "('priv, 'pub) ext \<Rightarrow> (psbt \<Rightarrow> nat) \<Rightarrow> string option \<Rightarrow> nat" where
  "msg_cost L weight ev = 2 + (case sub_packet L ev of None \<Rightarrow> 0 | Some pkt \<Rightarrow> weight pkt)"

definition sub_cost :: "('priv, 'pub) ext \<Rightarrow> (psbt \<Rightarrow> nat) \<Rightarrow> subscription \<Rightarrow> nat" where
  "sub_cost L weight g =
     (case SubPhase g of
        Backing _ \<Rightarrow> 3
      | Opening _ \<Rightarrow> 2
      | Reading _ c \<Rightarrow> 1 + sum_list (map (msg_cost L weight) (Unread c))
      | Sending _ c pkt \<Rightarrow> 2 + weight pkt + sum_list (map (msg_cost L weight) (Unread c))
      | SubEnded \<Rightarrow> 0)"

text \<open>
  The only context that is not cancelled is that of the stream being read. What has been sent and what
  is still to be are packets of events that arrived, in their order; a stream given up may lose some.
\<close>

definition sub_pending :: "('priv, 'pub) ext \<Rightarrow> sub_phase \<Rightarrow> psbt list" where
  "sub_pending L ph =
     (case ph of
        Reading _ c \<Rightarrow> List.map_filter (sub_packet L) (Unread c)
      | Sending _ c pkt \<Rightarrow> pkt # List.map_filter (sub_packet L) (Unread c)
      | _ \<Rightarrow> [])"

definition sub_inv :: "('priv, 'pub) ext \<Rightarrow> subscription \<Rightarrow> bool" where
  "sub_inv L g \<longleftrightarrow>
     SubLive g \<subseteq> (case stream_of (SubPhase g) of None \<Rightarrow> {} | Some (n, _) \<Rightarrow> {n}) \<and>
     subseq (SubSent g @ sub_pending L (SubPhase g)) (List.map_filter (sub_packet L) (SubArrived g))"

definition sub_over :: "subscription \<Rightarrow> bool" where
  "sub_over g \<longleftrightarrow> SubPhase g = SubEnded"

definition sub_clean :: "subscription \<Rightarrow> bool" where
  "sub_clean g \<longleftrightarrow> SubLive g = {}"

lemma stream_of_with_conn [simp]:
  "stream_of (with_conn c ph) = map_option (\<lambda>(n, _). (n, c)) (stream_of ph)"
  by (cases ph) simp_all

lemma with_conn_SubEnded [simp]: "with_conn c ph = SubEnded \<longleftrightarrow> ph = SubEnded"
  by (cases ph) simp_all

lemma map_filter_snoc:
  "List.map_filter f (xs @ [x]) = List.map_filter f xs @ (case f x of None \<Rightarrow> [] | Some y \<Rightarrow> [y])"
  by (simp add: List.map_filter_def split: option.split)

lemma subseq_append_drop: "subseq (xs @ ys) zs \<Longrightarrow> subseq xs zs"
  by (meson prefixI prefix_imp_subseq subseq_order.order_trans)

lemma subseq_snoc: "subseq (xs @ ys) zs \<Longrightarrow> subseq (xs @ ys @ [z]) (zs @ [z])"
  using list_emb_append_mono [of "(=)" "xs @ ys" zs "[z]" "[z]"] by simp

lemma sub_step_inv: "sub_step L s cancelled room g a g' \<Longrightarrow> sub_inv L g \<Longrightarrow> sub_inv L g'"
  by (erule sub_step.cases)
    (auto simp: sub_inv_def sub_pending_def cancel_ctx_def attempt_reopen_def stream_broke_def
      openSubscription_def fresh_conn_def map_filter_Cons Let_def
      dest: subseq_append_drop split: option.splits if_splits)

lemma sub_env_inv: "sub_env g g' \<Longrightarrow> sub_inv L g \<Longrightarrow> sub_inv L g'"
proof (erule sub_env.cases)
  fix h n c ev
  assume g: "g = h" "g' = h\<lparr>SubPhase := with_conn (c\<lparr>Unread := Unread c @ [ev]\<rparr>) (SubPhase h),
      SubArrived := SubArrived h @ [ev]\<rparr>"
    and c: "stream_of (SubPhase h) = Some (n, c)" and inv: "sub_inv L g"
  have "sub_pending L (with_conn (c\<lparr>Unread := Unread c @ [ev]\<rparr>) (SubPhase h)) =
      sub_pending L (SubPhase h) @ (case sub_packet L ev of None \<Rightarrow> [] | Some pkt \<Rightarrow> [pkt])"
    using c by (cases "SubPhase h") (auto simp: sub_pending_def map_filter_snoc)
  with inv c show "sub_inv L g'"
    unfolding g by (auto simp: sub_inv_def map_filter_snoc split: option.split intro: subseq_snoc)
next
  fix h n c err
  assume g: "g = h" "g' = h\<lparr>SubPhase := with_conn (c\<lparr>Failure := Some err\<rparr>) (SubPhase h)\<rparr>"
    and c: "stream_of (SubPhase h) = Some (n, c)" and inv: "sub_inv L g"
  have "sub_pending L (with_conn (c\<lparr>Failure := Some err\<rparr>) (SubPhase h)) = sub_pending L (SubPhase h)"
    using c by (cases "SubPhase h") (auto simp: sub_pending_def)
  with inv c show "sub_inv L g'"
    unfolding g by (simp add: sub_inv_def)
qed (auto simp: sub_inv_def cancel_ctx_def split: option.splits)

lemma sub_step_sent:
  "sub_step L s cancelled room g a g' \<Longrightarrow> SubSent g' = SubSent g @ (case a of Send pkt \<Rightarrow> [pkt] | _ \<Rightarrow> [])"
  by (erule sub_step.cases)
    (auto simp: cancel_ctx_def attempt_reopen_def stream_broke_def openSubscription_def Let_def
      split: option.splits if_splits)

lemma sub_step_over: "sub_step L s cancelled room g a g' \<Longrightarrow> \<not> sub_over g \<and> (sub_over g' \<longleftrightarrow> a = CloseChan)"
  by (erule sub_step.cases)
    (auto simp: sub_over_def cancel_ctx_def attempt_reopen_def stream_broke_def openSubscription_def
      Let_def split: option.splits if_splits)

lemma sub_step_send: "sub_step L s cancelled room g (Send pkt) g' \<Longrightarrow> room"
  by (erule sub_step.cases)
    (auto simp: attempt_reopen_def stream_broke_def Let_def split: option.splits if_splits prod.splits)

lemma sub_step_cost:
  "sub_step L s True room g a g' \<Longrightarrow>
     sub_cost L weight g' + (case a of Send pkt \<Rightarrow> weight pkt | _ \<Rightarrow> 0) < sub_cost L weight g"
  by (erule sub_step.cases)
    (auto simp: sub_cost_def msg_cost_def cancel_ctx_def attempt_reopen_def stream_broke_def
      openSubscription_def fresh_conn_def Let_def split: option.splits)

lemma sub_step_stops:
  assumes "\<not> sub_over g"
  shows "\<exists>a g'. sub_step L s True room g a g'"
proof (cases "SubPhase g")
  case (Backing d)
  then show ?thesis by (blast intro: wait_ctx)
next
  case (Opening d)
  obtain a g' where "attempt_reopen s True (\<lambda>_. None) d g = (a, g')" by fastforce
  with Opening show ?thesis by (blast intro: attempted)
next
  case (Reading n c)
  obtain a g' where broke: "stream_broke s True n (StatusError Canceled []) g = (a, g')" by fastforce
  have "recv_fails True (SubLive g) n c (StatusError Canceled [])"
    by (simp add: recv_fails_def)
  from recv_err [OF Reading this broke] show ?thesis by blast
next
  case (Sending n c pkt)
  then show ?thesis by (fastforce intro: send_ctx)
qed (use assms in \<open>simp add: sub_over_def\<close>)

subsection \<open>The unfiltered stream keeps it\<close>

definition event_cost :: "('priv, 'pub) ext \<Rightarrow> (psbt \<Rightarrow> nat) \<Rightarrow> tx_event \<Rightarrow> nat" where
  "event_cost L weight ev = 2 + (case event_packet L ev of None \<Rightarrow> 0 | Some pkt \<Rightarrow> weight pkt)"

definition all_cost :: "('priv, 'pub) ext \<Rightarrow> (psbt \<Rightarrow> nat) \<Rightarrow> all_txs \<Rightarrow> nat" where
  "all_cost L weight g =
     (case AllPhase g of
        AllSelect \<Rightarrow> 1 + sum_list (map (event_cost L weight) (AllEvents g))
      | AllSending pkt \<Rightarrow> 2 + weight pkt + sum_list (map (event_cost L weight) (AllEvents g))
      | AllEnded \<Rightarrow> 0)"

definition all_over :: "all_txs \<Rightarrow> bool" where
  "all_over g \<longleftrightarrow> AllPhase g = AllEnded"

definition all_clean :: "all_txs \<Rightarrow> bool" where
  "all_clean g \<longleftrightarrow> AllStopped g = AllHasStop g"

definition all_pending :: "('priv, 'pub) ext \<Rightarrow> all_txs \<Rightarrow> psbt list" where
  "all_pending L g = (case AllPhase g of AllSending pkt \<Rightarrow> [pkt] | _ \<Rightarrow> []) @
     List.map_filter (event_packet L) (AllEvents g)"

text \<open>Here nothing is lost before the end.\<close>

definition all_inv :: "('priv, 'pub) ext \<Rightarrow> all_txs \<Rightarrow> bool" where
  "all_inv L g \<longleftrightarrow> (all_over g \<longrightarrow> all_clean g) \<and>
     (if all_over g then prefix (AllSent g) (List.map_filter (event_packet L) (AllArrived g))
      else List.map_filter (event_packet L) (AllArrived g) = AllSent g @ all_pending L g)"

lemmas all_defs = all_inv_def all_pending_def all_over_def all_clean_def all_return_def

lemma all_step_inv: "all_step L cancelled room g a g' \<Longrightarrow> all_inv L g \<Longrightarrow> all_inv L g'"
  by (erule all_step.cases) (auto simp: all_defs map_filter_Cons)

lemma all_env_inv: "all_env g g' \<Longrightarrow> all_inv L g \<Longrightarrow> all_inv L g'"
  by (erule all_env.cases) (auto simp: all_defs map_filter_snoc split: option.split)

lemma all_step_sent:
  "all_step L cancelled room g a g' \<Longrightarrow> AllSent g' = AllSent g @ (case a of Send pkt \<Rightarrow> [pkt] | _ \<Rightarrow> [])"
  by (erule all_step.cases) (simp_all add: all_defs)

lemma all_step_over: "all_step L cancelled room g a g' \<Longrightarrow> \<not> all_over g \<and> (all_over g' \<longleftrightarrow> a = CloseChan)"
  by (erule all_step.cases) (simp_all add: all_defs)

lemma all_step_cost:
  "all_step L True room g a g' \<Longrightarrow>
     all_cost L weight g' + (case a of Send pkt \<Rightarrow> weight pkt | _ \<Rightarrow> 0) < all_cost L weight g"
  by (erule all_step.cases) (simp_all add: all_cost_def event_cost_def all_defs)

lemma all_step_stops: "\<not> all_over g \<Longrightarrow> \<exists>a g'. all_step L True room g a g'"
  by (cases "AllPhase g") (auto simp: all_over_def intro: select_ctx all_send_ctx)

subsection \<open>Both\<close>

definition arkd_over :: "goroutine \<Rightarrow> bool" where
  "arkd_over g \<longleftrightarrow> (case g of AllTxs g \<Rightarrow> all_over g | Filtered g \<Rightarrow> sub_over g)"

text \<open>The goroutine holds no context that is not cancelled, and no stream it could stop.\<close>

definition arkd_clean :: "goroutine \<Rightarrow> bool" where
  "arkd_clean g \<longleftrightarrow> (case g of AllTxs g \<Rightarrow> all_clean g | Filtered g \<Rightarrow> sub_clean g)"

definition arkd_inv :: "('priv, 'pub) ext \<Rightarrow> goroutine \<Rightarrow> bool" where
  "arkd_inv L g \<longleftrightarrow> (case g of AllTxs g \<Rightarrow> all_inv L g | Filtered g \<Rightarrow> sub_inv L g)"

definition arkd_sent :: "goroutine \<Rightarrow> psbt list" where
  "arkd_sent g = (case g of AllTxs g \<Rightarrow> AllSent g | Filtered g \<Rightarrow> SubSent g)"

text \<open>The packets of the events that have arrived.\<close>

definition arkd_packets :: "('priv, 'pub) ext \<Rightarrow> goroutine \<Rightarrow> psbt list" where
  "arkd_packets L g =
     (case g of
        AllTxs g \<Rightarrow> List.map_filter (event_packet L) (AllArrived g)
      | Filtered g \<Rightarrow> List.map_filter (sub_packet L) (SubArrived g))"

definition arkd_cost :: "('priv, 'pub) ext \<Rightarrow> (psbt \<Rightarrow> nat) \<Rightarrow> goroutine \<Rightarrow> nat" where
  "arkd_cost L weight g = (case g of AllTxs g \<Rightarrow> all_cost L weight g | Filtered g \<Rightarrow> sub_cost L weight g)"

lemma start_stream_Inr:
  assumes "start_stream s flt all_answer answer = Inr g"
  shows "arkd_inv L g \<and> \<not> arkd_over g \<and> arkd_sent g = [] \<and> arkd_cost L weight g \<le> 3"
  using assms
  by (auto simp: start_stream_def openSubscription_def cancel_ctx_def fresh_conn_def arkd_inv_def
      arkd_over_def arkd_cost_def arkd_sent_def sub_inv_def sub_pending_def sub_over_def sub_cost_def all_defs all_cost_def Let_def
      split: route.splits sum.splits option.splits if_splits)

interpretation arkd: stream_contract
  "arkd_starts s" "arkd_refuses s" "arkd_step L s" arkd_env "arkd_inv L" arkd_over arkd_clean
  arkd_sent weight "arkd_cost L weight"
  for L :: "('priv, 'pub) ext" and s :: source and weight :: "psbt \<Rightarrow> nat"
proof unfold_locales
  show "(\<exists>g. arkd_starts s flt g) \<or> arkd_refuses s flt" for flt
    by (cases "start_stream s flt (Inr True) (\<lambda>_. None)") (auto simp: arkd_starts_def arkd_refuses_def)
  show "arkd_inv L g \<and> \<not> arkd_over g \<and> arkd_sent g = [] \<and> arkd_cost L weight g \<le> 3" if "arkd_starts s flt g" for flt g
    using that start_stream_Inr unfolding arkd_starts_def by blast
  show "arkd_inv L g'" if "arkd_step L s cancelled room g a g'" and "arkd_inv L g" for cancelled room g a g'
    using that by (auto elim!: arkd_step.cases simp: arkd_inv_def intro: all_step_inv sub_step_inv)
  show "arkd_inv L g'" if "arkd_env g g'" and "arkd_inv L g" for g g'
    using that by (auto elim!: arkd_env.cases simp: arkd_inv_def intro: all_env_inv sub_env_inv)
  show "\<not> arkd_over g" if "arkd_step L s cancelled room g a g'" for cancelled room g a g'
    using that by (auto elim!: arkd_step.cases simp: arkd_over_def dest: all_step_over sub_step_over)
  show "arkd_over g' \<longleftrightarrow> a = CloseChan" if "arkd_step L s cancelled room g a g'" for cancelled room g a g'
    using that by (auto elim!: arkd_step.cases simp: arkd_over_def dest: all_step_over sub_step_over)
  show "room" if "arkd_step L s cancelled room g (Send pkt) g'" for cancelled room g pkt g'
    using that by (auto elim!: arkd_step.cases elim: all_step.cases dest: sub_step_send)
  show "arkd_sent g' = arkd_sent g @ (case a of Send pkt \<Rightarrow> [pkt] | _ \<Rightarrow> [])"
    if "arkd_step L s cancelled room g a g'" for cancelled room g a g'
    using that by (auto elim!: arkd_step.cases simp: arkd_sent_def dest: all_step_sent sub_step_sent)
  show "(arkd_over g' \<longleftrightarrow> arkd_over g) \<and> arkd_sent g' = arkd_sent g" if "arkd_env g g'" for g g'
    using that by (auto elim!: arkd_env.cases all_env.cases sub_env.cases
        simp: arkd_over_def arkd_sent_def all_over_def sub_over_def cancel_ctx_def)
  show "arkd_clean g" if "arkd_inv L g" and "arkd_over g" for g
    using that by (auto simp: arkd_clean_def arkd_inv_def arkd_over_def all_inv_def sub_inv_def
        sub_over_def sub_clean_def split: goroutine.splits)
  show "\<exists>a g'. arkd_step L s True room g a g'" if "\<not> arkd_over g" for room g
    using that all_step_stops sub_step_stops
    by (cases g) (fastforce simp: arkd_over_def intro: arkd_step.intros)+
  show "arkd_cost L weight g' + (case a of Send pkt \<Rightarrow> weight pkt | _ \<Rightarrow> 0) < arkd_cost L weight g"
    if "arkd_step L s True room g a g'" for room g a g'
    using that by (auto elim!: arkd_step.cases simp: arkd_cost_def intro: all_step_cost sub_step_cost)
qed

end
