(* ===== verification/StreamSystem.thy ===== *)
theory StreamSystem
  imports SystemStop ArkdStream
begin

text \<open>
  The running daemon with the streams it subscribes to: every consumer of the executor reads a channel of
  capacity one that a goroutine of the source fills. The daemon of \<open>System\<close>, whose streams deliver and
  close at will, is what this one looks like without its goroutines.
\<close>

section \<open>Model\<close>

text \<open>The goroutine at each place of the list is the one behind the consumer at that place.\<close>

record 'g streamed =
  StDaemon :: system
  StStreams :: "'g list"

definition streamed_init :: "('priv, 'pub) ext \<Rightarrow> ('priv, 'pub) wiring \<Rightarrow> int \<Rightarrow> 'g streamed" where
  "streamed_init L w now = \<lparr>StDaemon = system_init L w now, StStreams = []\<rparr>"

text \<open>What a goroutine's action does to the channel its consumer reads.\<close>

definition on_channel :: "action \<Rightarrow> ('w, psbt, 'i) consumer \<Rightarrow> ('w, psbt, 'i) consumer" where
  "on_channel a k =
     (case a of
        Quiet \<Rightarrow> k
      | Send pkt \<Rightarrow> k\<lparr>CQueue := CQueue k @ [Some pkt], CDelivered := CDelivered k @ [Some pkt]\<rparr>
      | CloseChan \<Rightarrow> k\<lparr>CClosed := True\<rparr>)"

text \<open>The capacity is that of \<open>make(chan *psbt.Packet, 1)\<close>.\<close>

definition has_room :: "('w, 'tx, 'i) consumer \<Rightarrow> bool" where
  "has_room k \<longleftrightarrow> length (CQueue k) < 1"

text \<open>
  The steps of the daemon's own: those it has without its streams, a subscription, which starts a
  goroutine or fails, and the goroutines'. Around it: the cancellation, what \<open>System\<close> has beside the
  executor, and what the goroutines wait for.
\<close>

inductive streamed_own ::
  "('priv, 'pub) ext \<Rightarrow> ('priv, 'pub) wiring \<Rightarrow> (string \<Rightarrow> 'g \<Rightarrow> bool) \<Rightarrow> (string \<Rightarrow> bool) \<Rightarrow>
   (bool \<Rightarrow> bool \<Rightarrow> 'g \<Rightarrow> action \<Rightarrow> 'g \<Rightarrow> bool) \<Rightarrow> 'g streamed \<Rightarrow> 'g streamed \<Rightarrow> bool"
  for L :: "('priv, 'pub) ext" and w :: "('priv, 'pub) wiring"
    and starts :: "string \<Rightarrow> 'g \<Rightarrow> bool" and refuses :: "string \<Rightarrow> bool"
    and step :: "bool \<Rightarrow> bool \<Rightarrow> 'g \<Rightarrow> action \<Rightarrow> 'g \<Rightarrow> bool" where
  work: "system_own L w d d' \<Longrightarrow> XPending (SysExec d') = XPending (SysExec d) \<Longrightarrow>
    streamed_own L w starts refuses step \<lparr>StDaemon = d, StStreams = gs\<rparr> \<lparr>StDaemon = d', StStreams = gs\<rparr>"
| subscribed: "XPending (SysExec d) = p # ps \<Longrightarrow> starts (PFilter p) g \<Longrightarrow>
    streamed_own L w starts refuses step \<lparr>StDaemon = d, StStreams = gs\<rparr>
      \<lparr>StDaemon = d\<lparr>SysExec := subscribe_plugin True p ((SysExec d)\<lparr>XPending := ps\<rparr>)\<rparr>, StStreams = gs @ [g]\<rparr>"
| refused: "XPending (SysExec d) = p # ps \<Longrightarrow> refuses (PFilter p) \<Longrightarrow>
    streamed_own L w starts refuses step \<lparr>StDaemon = d, StStreams = gs\<rparr>
      \<lparr>StDaemon = d\<lparr>SysExec := subscribe_plugin False p ((SysExec d)\<lparr>XPending := ps\<rparr>)\<rparr>, StStreams = gs\<rparr>"
| stream: "i < length gs \<Longrightarrow>
    step (XCancelled (SysExec d)) (has_room (XConsumers (SysExec d) ! i)) (gs ! i) a g \<Longrightarrow>
    streamed_own L w starts refuses step \<lparr>StDaemon = d, StStreams = gs\<rparr>
      \<lparr>StDaemon = d\<lparr>SysExec := update_consumer i (on_channel a) (SysExec d)\<rparr>, StStreams = gs[i := g]\<rparr>"

inductive streamed_env ::
  "('priv, 'pub) ext \<Rightarrow> ('priv, 'pub) wiring \<Rightarrow> ('g \<Rightarrow> 'g \<Rightarrow> bool) \<Rightarrow> 'g streamed \<Rightarrow> 'g streamed \<Rightarrow> bool"
  for L :: "('priv, 'pub) ext" and w :: "('priv, 'pub) wiring" and env :: "'g \<Rightarrow> 'g \<Rightarrow> bool" where
  cancelled: "\<not> returned (XRun (SysExec d)) \<Longrightarrow>
    streamed_env L w env \<lparr>StDaemon = d, StStreams = gs\<rparr>
      \<lparr>StDaemon = d\<lparr>SysExec := (SysExec d)\<lparr>XCancelled := True\<rparr>\<rparr>, StStreams = gs\<rparr>"
| outside: "system_env L w d d' \<Longrightarrow> SysExec d' = SysExec d \<Longrightarrow>
    streamed_env L w env \<lparr>StDaemon = d, StStreams = gs\<rparr> \<lparr>StDaemon = d', StStreams = gs\<rparr>"
| upstream: "i < length gs \<Longrightarrow> env (gs ! i) g \<Longrightarrow>
    streamed_env L w env \<lparr>StDaemon = d, StStreams = gs\<rparr> \<lparr>StDaemon = d, StStreams = gs[i := g]\<rparr>"

definition streamed_step ::
  "('priv, 'pub) ext \<Rightarrow> ('priv, 'pub) wiring \<Rightarrow> (string \<Rightarrow> 'g \<Rightarrow> bool) \<Rightarrow> (string \<Rightarrow> bool) \<Rightarrow>
   (bool \<Rightarrow> bool \<Rightarrow> 'g \<Rightarrow> action \<Rightarrow> 'g \<Rightarrow> bool) \<Rightarrow> ('g \<Rightarrow> 'g \<Rightarrow> bool) \<Rightarrow> 'g streamed \<Rightarrow> 'g streamed \<Rightarrow> bool" where
  "streamed_step L w starts refuses step env s s' \<longleftrightarrow>
     streamed_own L w starts refuses step s s' \<or> streamed_env L w env s s'"

text \<open>The daemon on arkd's streams.\<close>

abbreviation arkd_own ::
  "('priv, 'pub) ext \<Rightarrow> ('priv, 'pub) wiring \<Rightarrow> source \<Rightarrow> goroutine streamed \<Rightarrow> goroutine streamed \<Rightarrow> bool" where
  "arkd_own L w src \<equiv> streamed_own L w (arkd_starts src) (arkd_refuses src) (arkd_step L src)"

abbreviation arkd_reachable ::
  "('priv, 'pub) ext \<Rightarrow> ('priv, 'pub) wiring \<Rightarrow> source \<Rightarrow> goroutine streamed \<Rightarrow> bool" where
  "arkd_reachable L w src \<equiv> reachable_from (\<lambda>s. \<exists>now. s = streamed_init L w now)
     (streamed_step L w (arkd_starts src) (arkd_refuses src) (arkd_step L src) arkd_env)"

section \<open>The channels\<close>

text \<open>The daemon's own work leaves channels closed or open, and only takes from them.\<close>

definition drains :: "('w, 'tx, 'i) executor \<Rightarrow> ('w, 'tx, 'i) executor \<Rightarrow> bool" where
  "drains e e' \<longleftrightarrow> length (XConsumers e') = length (XConsumers e) \<and>
     (\<forall>i < length (XConsumers e).
        CClosed (XConsumers e' ! i) = CClosed (XConsumers e ! i) \<and>
        CDelivered (XConsumers e' ! i) = CDelivered (XConsumers e ! i) \<and>
        length (CQueue (XConsumers e' ! i)) \<le> length (CQueue (XConsumers e ! i)))"

lemma drains_refl [simp]: "drains e e"
  by (simp add: drains_def)

lemma drains_update:
  assumes "CClosed (f (XConsumers e ! i)) = CClosed (XConsumers e ! i)"
    and "CDelivered (f (XConsumers e ! i)) = CDelivered (XConsumers e ! i)"
    and "length (CQueue (f (XConsumers e ! i))) \<le> length (CQueue (XConsumers e ! i))"
  shows "drains e (update_consumer i f e)"
  using assms by (cases "i < length (XConsumers e)") (auto simp: drains_def nth_list_update)

lemma drains_took [simp]: "drains e (update_consumer i (took tx r) e)"
  by (rule drains_update) (simp_all add: took_def)

lemma drains_ended [simp]: "drains e (update_consumer i (ended intent) e)"
  by (rule drains_update) (simp_all add: ended_def)

lemma consume_step_drains:
  assumes "consume_step (\<lambda>_. False) x k k'"
  shows "CClosed k' = CClosed k \<and> CDelivered k' = CDelivered k \<and> length (CQueue k') \<le> length (CQueue k)"
  using assms by (auto elim: consume_stepE)

lemma own_step_drains:
  assumes "own_step (\<lambda>_. False) e e'" and "XPending e' = XPending e"
  shows "drains e e'"
  using assms(1)
proof (cases rule: own_step.cases)
  case (consume i c)
  then show ?thesis
    using drains_update [of "\<lambda>_. c" e i] consume_step_drains [OF consume(3)]
    by (simp add: update_consumer_def)
qed (use assms(2) in \<open>simp_all add: subscribe_plugin_def drains_def split: if_splits\<close>)

lemma scanned_drains: "drains (SysExec d) (SysExec (scanned a t d))"
  by (simp add: scanned_def Let_def split: option.split task.split)

lemma system_own_drains:
  assumes "system_own L w d d'" and "XPending (SysExec d') = XPending (SysExec d)"
  shows "drains (SysExec d) (SysExec d')"
  using assms(1)
proof (cases rule: system_own.cases)
  case (run e ks)
  then show ?thesis
    using assms(2) own_step_drains [OF run(2)] by simp
next
  case (leave i k)
  then show ?thesis
    using drains_update [of "\<lambda>_. k"] consume_step_drains [OF leave(4)] by simp
qed (simp_all add: scanned_drains)

text \<open>
  Every consumer has a goroutine; its channel is closed exactly when that has ended, never holds more
  than its capacity, and has been given what the goroutine has sent.
\<close>

definition channel_ok ::
  "('g \<Rightarrow> bool) \<Rightarrow> ('g \<Rightarrow> bool) \<Rightarrow> ('g \<Rightarrow> psbt list) \<Rightarrow> ('w, psbt, 'i) consumer \<Rightarrow> 'g \<Rightarrow> bool" where
  "channel_ok I over sent k g \<longleftrightarrow>
     I g \<and> (CClosed k \<longleftrightarrow> over g) \<and> length (CQueue k) \<le> 1 \<and> CDelivered k = map Some (sent g)"

definition channels_ok ::
  "('g \<Rightarrow> bool) \<Rightarrow> ('g \<Rightarrow> bool) \<Rightarrow> ('g \<Rightarrow> psbt list) \<Rightarrow> 'g streamed \<Rightarrow> bool" where
  "channels_ok I over sent s \<longleftrightarrow>
     list_all2 (channel_ok I over sent) (XConsumers (SysExec (StDaemon s))) (StStreams s)"

lemma channels_ok_length:
  "channels_ok I over sent s \<Longrightarrow> length (StStreams s) = length (XConsumers (SysExec (StDaemon s)))"
  by (simp add: channels_ok_def list_all2_lengthD)

lemma channels_ok_nth:
  "channels_ok I over sent s \<Longrightarrow> i < length (StStreams s) \<Longrightarrow>
     channel_ok I over sent (XConsumers (SysExec (StDaemon s)) ! i) (StStreams s ! i)"
  by (simp add: channels_ok_def list_all2_conv_all_nth)

lemma channels_ok_drains:
  assumes "channels_ok I over sent \<lparr>StDaemon = d, StStreams = gs\<rparr>" and "drains (SysExec d) (SysExec d')"
  shows "channels_ok I over sent \<lparr>StDaemon = d', StStreams = gs\<rparr>"
  using assms by (fastforce simp: channels_ok_def drains_def list_all2_conv_all_nth channel_ok_def)

lemma channels_ok_update:
  assumes "channels_ok I over sent \<lparr>StDaemon = d, StStreams = gs\<rparr>" and "i < length gs"
    and "channel_ok I over sent (f (XConsumers (SysExec d) ! i)) g"
  shows "channels_ok I over sent
    \<lparr>StDaemon = d\<lparr>SysExec := update_consumer i f (SysExec d)\<rparr>, StStreams = gs[i := g]\<rparr>"
  using assms by (auto simp: channels_ok_def intro: list_all2_update_cong)

lemma subscribe_own:
  assumes "XPending (SysExec d) = p # ps"
  shows "system_own L w d (d\<lparr>SysExec := subscribe_plugin ok p ((SysExec d)\<lparr>XPending := ps\<rparr>)\<rparr>)"
  by (rule system_own.run [where ks = "if ok then [start_consumer p] else []",
        OF own_step.subscribe [OF assms]])
    (simp add: subscribe_plugin_def)

context stream_contract
begin

lemma on_channel_ok:
  assumes "channel_ok inv over sent k g" and "step cancelled (has_room k) g a g'"
  shows "channel_ok inv over sent (on_channel a k) g'"
  using assms step_inv [OF assms(2)] running [OF assms(2)] closing [OF assms(2)] sent_step [OF assms(2)]
  by (cases a) (auto simp: channel_ok_def on_channel_def has_room_def dest: sending)

lemma own_channels:
  assumes "streamed_own L w starts refuses step s s'" and "channels_ok inv over sent s"
  shows "channels_ok inv over sent s'"
  using assms
proof (cases rule: streamed_own.cases)
  case (work d d' gs)
  with assms(2) show ?thesis
    by (simp add: channels_ok_drains system_own_drains)
next
  case (subscribed d p ps g gs)
  with assms(2) started show ?thesis
    by (auto simp: channels_ok_def subscribe_plugin_def start_consumer_def channel_ok_def
        intro!: list_all2_appendI)
next
  case (refused d p ps gs)
  with assms(2) show ?thesis
    by (simp add: channels_ok_def subscribe_plugin_def)
next
  case (stream i gs d a g)
  have "channel_ok inv over sent (XConsumers (SysExec d) ! i) (gs ! i)"
    using channels_ok_nth [OF assms(2), of i] stream(1,3) by simp
  from on_channel_ok [OF this stream(4)] show ?thesis
    using channels_ok_update [of inv over sent d gs i "on_channel a" g] assms(2) stream(1-3) by simp
qed

lemma env_channels:
  assumes "streamed_env L w env s s'" and "channels_ok inv over sent s"
  shows "channels_ok inv over sent s'"
  using assms(1)
proof (cases rule: streamed_env.cases)
  case (upstream i gs g d)
  have "channel_ok inv over sent (XConsumers (SysExec d) ! i) g"
    using channels_ok_nth [OF assms(2), of i] upstream env_inv env_over by (simp add: channel_ok_def)
  then show ?thesis
    using channels_ok_update [of inv over sent d gs i "\<lambda>k. k" g] assms(2) upstream
    by (simp add: update_consumer_def)
qed (use assms(2) in \<open>simp_all add: channels_ok_def\<close>)

lemma streamed_channels:
  "streamed_step L w starts refuses step env s s' \<Longrightarrow> channels_ok inv over sent s \<Longrightarrow> channels_ok inv over sent s'"
  using own_channels env_channels by (auto simp: streamed_step_def)

text \<open>An action on a channel is one the streams of \<open>System\<close> may take: it never meets a closed one.\<close>

lemma on_channel_step:
  assumes "channel_ok inv over sent (XConsumers (SysExec d) ! i) g" and "i < length (XConsumers (SysExec d))"
    and "step x (has_room (XConsumers (SysExec d) ! i)) g a g'"
  shows "(system_step L w)\<^sup>*\<^sup>* d (d\<lparr>SysExec := update_consumer i (on_channel a) (SysExec d)\<rparr>)"
proof (cases "a = Quiet")
  case True
  then show ?thesis by (simp add: on_channel_def update_consumer_def)
next
  case False
  have "\<not> CClosed (XConsumers (SysExec d) ! i)"
    using assms(1) running [OF assms(3)] by (simp add: channel_ok_def)
  then have "source_step (XConsumers (SysExec d) ! i) (on_channel a (XConsumers (SysExec d) ! i))"
    using False by (cases a) (auto simp: on_channel_def intro: source_step.intros)
  then have "env_step (SysExec d) (update_consumer i (on_channel a) (SysExec d))"
    using env_step.source [OF assms(2)] by (simp add: update_consumer_def)
  then show ?thesis
    by (intro r_into_rtranclp env_system system_env.env)
qed

lemma own_daemon:
  assumes "streamed_own L w starts refuses step s s'" and "channels_ok inv over sent s"
  shows "(system_step L w)\<^sup>*\<^sup>* (StDaemon s) (StDaemon s')"
  using assms(1)
proof (cases rule: streamed_own.cases)
  case (work d d' gs)
  then show ?thesis by (auto intro: own_system)
next
  case (subscribed d p ps g gs)
  then show ?thesis by (auto intro: own_system subscribe_own)
next
  case (refused d p ps gs)
  then show ?thesis by (auto intro: own_system subscribe_own)
next
  case (stream i gs d a g)
  then show ?thesis
    using on_channel_step [OF _ _ stream(4)] channels_ok_nth [OF assms(2), of i]
      channels_ok_length [OF assms(2)] by simp
qed

lemma env_daemon:
  assumes "streamed_env L w env s s'"
  shows "(system_step L w)\<^sup>*\<^sup>* (StDaemon s) (StDaemon s')"
  using assms
proof (cases rule: streamed_env.cases)
  case (cancelled d gs)
  then show ?thesis by (auto intro: env_system system_env.env env_step.cancel)
next
  case (outside d d' gs)
  then show ?thesis by (auto intro: env_system)
qed simp

lemma streamed_daemon:
  "streamed_step L w starts refuses step env s s' \<Longrightarrow> channels_ok inv over sent s \<Longrightarrow>
     (system_step L w)\<^sup>*\<^sup>* (StDaemon s) (StDaemon s')"
  using own_daemon env_daemon by (auto simp: streamed_step_def)

end

sublocale stream_contract \<subseteq> daemon: simulation
  "\<lambda>s. \<exists>now. s = streamed_init L w now" "streamed_step L w starts refuses step env" "channels_ok inv over sent"
  "\<lambda>d. \<exists>now. d = system_init L w now" "system_step L w" StDaemon
  for L :: "('priv, 'pub) ext" and w :: "('priv, 'pub) wiring"
proof unfold_locales
  show "channels_ok inv over sent s" if "\<exists>now. s = streamed_init L w now" for s
    using that by (auto simp: channels_ok_def streamed_init_def system_init_def run_init_def)
  show "\<exists>now. StDaemon s = system_init L w now" if "\<exists>now. s = streamed_init L w now" for s
    using that by (auto simp: streamed_init_def)
qed (simp_all add: streamed_channels streamed_daemon)

end
