(* ===== verification/StreamRuns.thy ===== *)
theory StreamRuns
  imports StreamSystem
begin

text \<open>
  The daemon on arkd's streams: what holds in each of its states, and that it stops with its streams.
\<close>

section \<open>A cost for the steps of the daemon and its streams\<close>

text \<open>A plugin to subscribe pays for the goroutine it gets.\<close>

definition streamed_cost :: "('g \<Rightarrow> nat) \<Rightarrow> 'g streamed \<Rightarrow> nat" where
  "streamed_cost cost s = system_cost (StDaemon s) + sum_list (map cost (StStreams s)) +
     4 * length (XPending (SysExec (StDaemon s)))"

lemma consumer_cost_on_channel:
  "consumer_cost (on_channel a k) =
     consumer_cost k + (case a of Send pkt \<Rightarrow> tx_cost (Some pkt) | _ \<Rightarrow> 0)"
  by (simp add: on_channel_def consumer_cost_def split: action.split)

lemma system_cost_on_channel:
  assumes "i < length (XConsumers (SysExec d))"
  shows "system_cost (d\<lparr>SysExec := update_consumer i (on_channel a) (SysExec d)\<rparr>) \<le>
    system_cost d + (case a of Send pkt \<Rightarrow> tx_cost (Some pkt) | _ \<Rightarrow> 0)"
  using exec_cost_update [OF assms, of "on_channel a"]
  by (simp add: consumer_cost_on_channel system_cost_def work_def)

lemma own_pending:
  assumes "system_own L w d d'" and "XPending (SysExec d) = []"
  shows "XPending (SysExec d') = []"
  using assms
  by (cases rule: system_own.cases)
    (auto simp: scanned_def Let_def elim!: own_stepE split: option.split task.split)

text \<open>Streams whose costs are weighed by the daemon's for a transaction.\<close>

locale daemon_streams =
  stream_contract starts refuses step env inv over clean sent "\<lambda>pkt. tx_cost (Some pkt)" cost
  for starts :: "string \<Rightarrow> 'g \<Rightarrow> bool" and refuses :: "string \<Rightarrow> bool"
    and step :: "bool \<Rightarrow> bool \<Rightarrow> 'g \<Rightarrow> action \<Rightarrow> 'g \<Rightarrow> bool" and env :: "'g \<Rightarrow> 'g \<Rightarrow> bool"
    and inv :: "'g \<Rightarrow> bool" and over :: "'g \<Rightarrow> bool" and clean :: "'g \<Rightarrow> bool"
    and sent :: "'g \<Rightarrow> psbt list" and cost :: "'g \<Rightarrow> nat"
begin

abbreviation reachable :: "('priv, 'pub) ext \<Rightarrow> ('priv, 'pub) wiring \<Rightarrow> 'g streamed \<Rightarrow> bool" where
  "reachable L w \<equiv> reachable_from (\<lambda>s. \<exists>now. s = streamed_init L w now)
     (streamed_step L w starts refuses step env)"

lemma own_reachable:
  "reachable L w s \<Longrightarrow> streamed_own L w starts refuses step s s' \<Longrightarrow> reachable L w s'"
  by (erule reachable_step) (simp add: streamed_step_def)

lemma own_cancelled:
  "streamed_own L w starts refuses step s s' \<Longrightarrow>
     XCancelled (SysExec (StDaemon s')) = XCancelled (SysExec (StDaemon s))"
  by (erule streamed_own.cases) (simp_all add: system_own_cancelled subscribe_plugin_def)

lemma own_cost:
  assumes "wired_claimer w c" and "reachable L w s" and "XCancelled (SysExec (StDaemon s))"
    and "streamed_own L w starts refuses step s s'"
  shows "streamed_cost cost s' < streamed_cost cost s"
proof -
  have ok: "channels_ok inv over sent s"
    by (rule daemon.reachable_inv [OF assms(2)])
  have sys: "system_reachable L w (StDaemon s)"
    by (rule daemon.reachable_abs [OF assms(2)])
  have less: "system_cost d' < system_cost (StDaemon s)" if "system_own L w (StDaemon s) d'" for d'
    by (rule system_own_cost [OF that system_reachable_inv [OF assms(1) sys] stages.reachable_inv [OF sys]])
  from assms(4) show ?thesis
  proof (cases rule: streamed_own.cases)
    case (work d d' gs)
    then show ?thesis
      using less by (simp add: streamed_cost_def)
  next
    case (subscribed d p ps g gs)
    have "system_own L w d (d\<lparr>SysExec := subscribe_plugin True p ((SysExec d)\<lparr>XPending := ps\<rparr>)\<rparr>)"
      by (rule subscribe_own [OF subscribed(3)])
    with subscribed less started [OF subscribed(4)] show ?thesis
      by (fastforce simp: streamed_cost_def subscribe_plugin_def)
  next
    case (refused d p ps gs)
    have "system_own L w d (d\<lparr>SysExec := subscribe_plugin False p ((SysExec d)\<lparr>XPending := ps\<rparr>)\<rparr>)"
      by (rule subscribe_own [OF refused(3)])
    with refused less show ?thesis
      by (fastforce simp: streamed_cost_def subscribe_plugin_def)
  next
    case (stream i gs d a g)
    have "i < length (XConsumers (SysExec d))"
      using channels_ok_length [OF ok] stream by simp
    moreover have "step True (has_room (XConsumers (SysExec d) ! i)) (gs ! i) a g"
      using stream assms(3) by simp
    ultimately show ?thesis
      using system_cost_on_channel [of i d a] sum_list_update_cost [OF stream(3), of cost g]
        step_cost [of _ "gs ! i" a g] stream by (fastforce simp: streamed_cost_def)
  qed
qed

lemma own_within_cost:
  assumes "wired_claimer w c" and "reachable L w s" and "XCancelled (SysExec (StDaemon s))"
    and "(streamed_own L w starts refuses step ^^ k) s s'"
  shows "k + streamed_cost cost s' \<le> streamed_cost cost s \<and> reachable L w s' \<and>
    XCancelled (SysExec (StDaemon s'))"
  using assms(4)
proof (induction k arbitrary: s')
  case 0
  with assms(2,3) show ?case by simp
next
  case (Suc k)
  then obtain t where t: "(streamed_own L w starts refuses step ^^ k) s t"
    and last: "streamed_own L w starts refuses step t s'"
    by auto
  from Suc.IH [OF t] show ?case
    using own_cost [OF assms(1) _ _ last] own_cancelled [OF last] own_reachable [OF _ last] by force
qed

text \<open>A cancelled daemon moves on until \<open>Run\<close> has returned and every stream is over.\<close>

lemma own_progress:
  assumes "wired_claimer w c" and "reachable L w s" and "XCancelled (SysExec (StDaemon s))"
    and "\<not> (returned (XRun (SysExec (StDaemon s))) \<and> list_all over (StStreams s))"
  shows "\<exists>s'. streamed_own L w starts refuses step s s'"
proof -
  obtain d gs where s: "s = \<lparr>StDaemon = d, StStreams = gs\<rparr>"
    by (cases s) simp
  have sys: "system_reachable L w d"
    using daemon.reachable_abs [OF assms(2)] s by simp
  show ?thesis
  proof (cases "list_all over gs")
    case False
    then obtain i where i: "i < length gs" "\<not> over (gs ! i)"
      by (auto simp: list_all_length)
    then show ?thesis
      using stops streamed_own.stream [OF i(1)] assms(3) s by (metis streamed.simps(1))
  next
    case True
    with assms(4) s have running: "\<not> returned (XRun (SysExec d))"
      by simp
    show ?thesis
    proof (cases "XPending (SysExec d)")
      case (Cons p ps)
      then show ?thesis
        using answered [of "PFilter p"] streamed_own.subscribed streamed_own.refused s by metis
    next
      case Nil
      then show ?thesis
        using system_own_progress [OF assms(1) sys _ running] own_pending streamed_own.work assms(3) s
        by (metis streamed.simps(1))
    qed
  qed
qed

lemma stuck_is_over:
  assumes "wired_claimer w c" and "reachable L w s" and "XCancelled (SysExec (StDaemon s))"
    and "\<nexists>s'. streamed_own L w starts refuses step s s'"
  shows "XRun (SysExec (StDaemon s)) = Returned CtxErr \<and>
    list_all CClosed (XConsumers (SysExec (StDaemon s))) \<and>
    list_all (\<lambda>g. over g \<and> clean g) (StStreams s)"
proof -
  have "returned (XRun (SysExec (StDaemon s)))" and over: "list_all over (StStreams s)"
    using own_progress [OF assms(1-3)] assms(4) by blast+
  moreover have "run_inv (bound_world L c) (executor_plugins L w) (SysExec (StDaemon s))"
    by (rule run_reachable_inv [OF system_reachable_exec [OF assms(1) daemon.reachable_abs [OF assms(2)]]])
  ultimately have "XRun (SysExec (StDaemon s)) = Returned CtxErr"
    using assms(3) by (auto simp: run_inv_def returned_def done_result_def split: run_phase.splits)
  then show ?thesis
    using daemon.reachable_inv [OF assms(2)] over over_clean
    by (auto simp: channels_ok_def channel_ok_def list_all2_conv_all_nth list_all_length)
qed

end

interpretation arkd_streams: daemon_streams
  "arkd_starts s" "arkd_refuses s" "arkd_step L s" arkd_env "arkd_inv L" arkd_over arkd_clean
  arkd_sent "arkd_cost L (\<lambda>pkt. tx_cost (Some pkt))"
  for L :: "('priv, 'pub) ext" and s :: source
  by unfold_locales

section \<open>What a consumer is given\<close>

lemma arkd_inv_sent:
  assumes "arkd_inv L g"
  shows "subseq (arkd_sent g) (arkd_packets L g) \<and>
    (\<forall>h. g = AllTxs h \<longrightarrow> prefix (arkd_sent g) (arkd_packets L g))"
proof (cases g)
  case (AllTxs h)
  with assms have "prefix (AllSent h) (List.map_filter (event_packet L) (AllArrived h))"
    by (auto simp: arkd_inv_def all_inv_def split: if_splits)
  with AllTxs show ?thesis
    by (simp add: arkd_sent_def arkd_packets_def prefix_imp_subseq)
next
  case (Filtered f)
  with assms show ?thesis
    by (auto simp: arkd_inv_def sub_inv_def arkd_sent_def arkd_packets_def dest: subseq_append_drop)
qed

text \<open>A source without a subscription client has unfiltered streams only.\<close>

lemma unfiltered_streams:
  assumes "arkd_reachable L w src s" and "\<not> HasSubs src"
  shows "list_all (\<lambda>g. \<exists>h. g = AllTxs h) (StStreams s)"
  using assms(1)
proof (induction rule: reachable_induct)
  case (init s)
  then show ?case by (auto simp: streamed_init_def)
next
  case (step s s')
  have "\<exists>h. g = AllTxs h" if "start_stream src flt all_answer answer = Inr g" for flt all_answer answer g
    using that assms(2) by (cases all_answer) (auto simp: start_stream_def Subscribe_def split: if_splits)
  then have "\<exists>h. g = AllTxs h" if "arkd_starts src flt g" for flt g
    using that by (auto simp: arkd_starts_def)
  with step(2,3) show ?case
    by (auto simp: streamed_step_def elim!: streamed_own.cases streamed_env.cases arkd_step.cases
        arkd_env.cases dest: list_all_nthD intro!: list_all_update)
qed

section \<open>A run for the witnesses\<close>

text \<open>
  A daemon with the encrypted plugin alone, on a filtered subscription that has brought one packet: with
  its consumer, its context, its \<open>Run\<close>, and its goroutine.
\<close>

definition sample_stream_source :: source where
  "sample_stream_source = WithSubscriptions New"

definition sample_enc_wiring :: "(u8, u8) wiring" where
  "sample_enc_wiring = \<lparr>WEncrypted = Some sample_plugin, WReveal = None\<rparr>"

abbreviation sample_enc_runs :: "(world, psbt, intent) plugin" where
  "sample_enc_runs \<equiv> encrypted_plugin sample_ext sample_plugin"

definition sample_streams ::
  "(world, psbt, intent) consumer \<Rightarrow> bool \<Rightarrow> run_phase \<Rightarrow> subscription \<Rightarrow> goroutine streamed" where
  "sample_streams k x r f =
     \<lparr>StDaemon = \<lparr>SysExec = \<lparr>XPending = [], XTried = [(sample_enc_runs, True)], XConsumers = [k],
          XCancelled = x, XRun = r\<rparr>, SysPackets = fmempty, SysNow = 0, SysScan = None, SysSolves = {#},
        SysProbes = {#}, SysSent = [], SysEncSent = []\<rparr>,
      StStreams = [Filtered f]\<rparr>"

abbreviation sample_aa :: psbt where
  "sample_aa \<equiv> sample_pkt ''aa''"

definition sample_sub :: "sub_phase \<Rightarrow> nat set \<Rightarrow> string option list \<Rightarrow> psbt list \<Rightarrow> subscription" where
  "sample_sub ph live arrived sent = \<lparr>SubFilter = enc_Filter sample_plugin, SubPhase = ph, SubOpened = 1,
     SubLive = live, SubArrived = arrived, SubSent = sent\<rparr>"

abbreviation sample_conn :: "string option list \<Rightarrow> conn" where
  "sample_conn evs \<equiv> \<lparr>Unread = evs, Failure = None\<rparr>"

abbreviation sample_arkd :: "goroutine streamed \<Rightarrow> bool" where
  "sample_arkd \<equiv> arkd_reachable sample_ext sample_enc_wiring sample_stream_source"

abbreviation sample_arkd_own :: "goroutine streamed \<Rightarrow> goroutine streamed \<Rightarrow> bool" where
  "sample_arkd_own \<equiv> arkd_own sample_ext sample_enc_wiring sample_stream_source"

lemma sample_enc_wired [simp]: "wired_claimer sample_enc_wiring sample_claimer"
  by (simp add: wired_claimer_def sample_enc_wiring_def)

lemma sample_streams_sel [simp]:
  "StStreams (sample_streams k x r f) = [Filtered f]"
  "XConsumers (SysExec (StDaemon (sample_streams k x r f))) = [k]"
  "XCancelled (SysExec (StDaemon (sample_streams k x r f))) = x"
  "XRun (SysExec (StDaemon (sample_streams k x r f))) = r"
  by (simp_all add: sample_streams_def)

lemma sample_stream_step:
  assumes "sub_step sample_ext sample_stream_source x (has_room k) f a f'"
  shows "sample_arkd_own (sample_streams k x r f) (sample_streams (on_channel a k) x r f')"
  using streamed_own.stream [of 0 "[Filtered f]" "arkd_step sample_ext sample_stream_source"
      "StDaemon (sample_streams k x r f)" a "Filtered f'"] assms
  by (simp add: sample_streams_def update_consumer_def arkd_step.filtered)

lemma sample_subscribed: "sample_arkd (sample_streams (start_consumer sample_enc_runs) False Selecting
    (sample_sub (Reading 0 (sample_conn [])) {0} [] []))"
proof -
  let ?g = "Filtered (sample_sub (Reading 0 (sample_conn [])) {0} [] [])"
  have "start_stream sample_stream_source (enc_Filter sample_plugin) (Inr False) (\<lambda>_. None) = Inr ?g"
    by (simp add: start_stream_def Subscribe_def sample_stream_source_def WithSubscriptions_def
        openSubscription_def sample_sub_def fresh_conn_def Let_def) (simp add: enc_Filter_def)
  then have g: "arkd_starts sample_stream_source (PFilter sample_enc_runs) ?g"
    unfolding arkd_starts_def by (auto simp: encrypted_plugin_def)
  have "executor_plugins sample_ext sample_enc_wiring = [sample_enc_runs]"
    by (simp add: executor_plugins_def sample_enc_wiring_def)
  then have "sample_arkd_own (streamed_init sample_ext sample_enc_wiring 0)
      (sample_streams (start_consumer sample_enc_runs) False Selecting
        (sample_sub (Reading 0 (sample_conn [])) {0} [] []))"
    using streamed_own.subscribed [of "system_init sample_ext sample_enc_wiring 0" sample_enc_runs "[]"
        "arkd_starts sample_stream_source" ?g _ _ _ _ "[]"] g
    by (simp add: streamed_init_def system_init_def run_init_def sample_streams_def subscribe_plugin_def)
  then show ?thesis
    by (intro arkd_streams.own_reachable [OF reachable_init]) blast
qed

text \<open>The packet has been read and is about to be sent.\<close>

abbreviation sample_sending :: "bool \<Rightarrow> goroutine streamed" where
  "sample_sending x \<equiv> sample_streams (start_consumer sample_enc_runs) x Selecting
     (sample_sub (Sending 0 (sample_conn []) sample_aa) {0} [Some ''aa''] [])"

lemma sample_sending_reachable: "sample_arkd (sample_sending False)"
proof -
  let ?k = "start_consumer sample_enc_runs"
  let ?f = "\<lambda>evs. sample_sub (Reading 0 (sample_conn evs)) {0} evs []"
  have "sub_env (?f []) (?f [Some ''aa''])"
    using sub_env.arrive [of "?f []" 0 "sample_conn []" "Some ''aa''"] by (simp add: sample_sub_def)
  then have "streamed_env sample_ext sample_enc_wiring arkd_env
      (sample_streams ?k False Selecting (?f [])) (sample_streams ?k False Selecting (?f [Some ''aa'']))"
    using streamed_env.upstream [of 0 "[Filtered (?f [])]" arkd_env "Filtered (?f [Some ''aa''])"
        sample_ext sample_enc_wiring]
    by (simp add: sample_streams_def arkd_env.env_filtered)
  then have arrived: "sample_arkd (sample_streams ?k False Selecting (?f [Some ''aa'']))"
    by (intro reachable_step [OF sample_subscribed]) (simp add: streamed_step_def)
  have "sub_packet sample_ext (Some ''aa'') = Some sample_aa"
    by (simp add: sub_packet_def decoded_def sample_ext_decodes)
  then have "sub_step sample_ext sample_stream_source False True (?f [Some ''aa'']) Quiet
      (sample_sub (Sending 0 (sample_conn []) sample_aa) {0} [Some ''aa''] [])"
    using sub_step.recv_packet [of "?f [Some ''aa'']" 0 "sample_conn [Some ''aa'']" "Some ''aa''" "[]"]
    by (simp add: sample_sub_def)
  then show ?thesis
    using arkd_streams.own_reachable [OF arrived sample_stream_step [of False ?k _ Quiet]]
    by (simp add: on_channel_def has_room_def start_consumer_def)
qed

text \<open>Then it has been sent, and matched by the plugin, which has no use for it.\<close>

definition sample_declined :: "(world, psbt, intent) consumer" where
  "sample_declined = (start_consumer sample_enc_runs)
     \<lparr>CDelivered := [Some sample_aa], CTaken := [(Some sample_aa, None)]\<rparr>"

abbreviation sample_sent :: subscription where
  "sample_sent \<equiv> sample_sub (Reading 0 (sample_conn [])) {0} [Some ''aa''] [sample_aa]"

lemma sample_send:
  "sub_step sample_ext sample_stream_source x True (sample_sub (Sending 0 (sample_conn []) sample_aa) {0} [Some ''aa''] [])
     (Send sample_aa) sample_sent"
  using sub_step.send_done [where room = True and n = 0 and c = "sample_conn []" and pkt = sample_aa
      and g = "sample_sub (Sending 0 (sample_conn []) sample_aa) {0} [Some ''aa''] []"]
  by (simp add: sample_sub_def)

lemma sample_declined_reachable: "sample_arkd (sample_streams sample_declined False Selecting sample_sent)"
proof -
  let ?k = "start_consumer sample_enc_runs"
  let ?k1 = "?k\<lparr>CQueue := [Some sample_aa], CDelivered := [Some sample_aa]\<rparr>"
  have "sample_arkd_own (sample_sending False) (sample_streams (on_channel (Send sample_aa) ?k) False Selecting sample_sent)"
    by (rule sample_stream_step) (simp add: has_room_def start_consumer_def sample_send [simplified])
  then have sent: "sample_arkd (sample_streams ?k1 False Selecting sample_sent)"
    using arkd_streams.own_reachable [OF sample_sending_reachable]
    by (simp add: on_channel_def start_consumer_def)
  let ?s = "\<lambda>k. sample_streams k False Selecting sample_sent"
  have "system_own sample_ext sample_enc_wiring (StDaemon (?s ?k1)) (StDaemon (?s sample_declined))"
    using system_own.enc_take [of sample_enc_wiring sample_plugin sample_ext "StDaemon (?s ?k1)" 0
        "Some sample_aa" "\<lambda>_ _. Inl []"]
    by (simp add: sample_enc_wiring_def runs_plugin_def receiving_def start_consumer_def enc_Match_def
        sample_pkt_def update_consumer_def took_def)
      (simp add: sample_streams_def sample_declined_def start_consumer_def sample_pkt_def)
  then have "sample_arkd_own (?s ?k1) (?s sample_declined)"
    using streamed_own.work [of sample_ext sample_enc_wiring "StDaemon (?s ?k1)" "StDaemon (?s sample_declined)"]
    by (simp add: sample_streams_def)
  from arkd_streams.own_reachable [OF sent this] show ?thesis .
qed

text \<open>Or the daemon is cancelled while the packet waits to be sent.\<close>

definition sample_over :: subscription where
  "sample_over = sample_sub SubEnded {} [Some ''aa''] []"

definition sample_leaving :: "consume_phase \<Rightarrow> run_phase \<Rightarrow> goroutine streamed" where
  "sample_leaving ph r = sample_streams
     ((start_consumer sample_enc_runs)\<lparr>CPhase := ph, CClosed := True\<rparr>) True r sample_over"

lemma sample_cancelled_reachable: "sample_arkd (sample_sending True)"
proof -
  have "streamed_env sample_ext sample_enc_wiring arkd_env (sample_sending False) (sample_sending True)"
    using streamed_env.cancelled [of "StDaemon (sample_sending False)"]
    by (simp add: returned_def) (simp add: sample_streams_def)
  then show ?thesis
    by (intro reachable_step [OF sample_sending_reachable]) (simp add: streamed_step_def)
qed

lemma sample_leaves: "(sample_arkd_own ^^ 4) (sample_sending True) (sample_leaving Finished (Returned CtxErr))"
proof -
  let ?k = "\<lambda>ph. (start_consumer sample_enc_runs)\<lparr>CPhase := ph, CClosed := True\<rparr>"
  let ?d = "\<lambda>ph r. StDaemon (sample_leaving ph r)"
  have "sub_step sample_ext sample_stream_source True room
      (sample_sub (Sending 0 (sample_conn []) sample_aa) {0} [Some ''aa''] []) CloseChan sample_over" for room
    using sub_step.send_ctx [of "sample_sub (Sending 0 (sample_conn []) sample_aa) {0} [Some ''aa''] []"
        0 "sample_conn []" sample_aa True]
    by (simp add: sample_sub_def sample_over_def cancel_ctx_def)
  then have s1: "sample_arkd_own (sample_sending True) (sample_leaving Looping Selecting)"
    using sample_stream_step [of True "start_consumer sample_enc_runs" _ CloseChan sample_over Selecting]
    by (simp add: sample_leaving_def on_channel_def start_consumer_def)
  have work: "sample_arkd_own (sample_leaving ph r) (sample_leaving ph' r')"
    if "system_own sample_ext sample_enc_wiring (?d ph r) (?d ph' r')" for ph r ph' r'
    using streamed_own.work [OF that, where gs = "[Filtered sample_over]"]
    by (simp add: sample_leaving_def sample_streams_def)
  have leave: "system_own sample_ext sample_enc_wiring (?d ph Selecting) (?d ph' Selecting)"
    if "consume_step (\<lambda>_. False) True (?k ph) (?k ph')" for ph ph'
    using system_own.leave [of 0 "?d ph Selecting" "?k ph'" sample_ext sample_enc_wiring] that
    by (simp add: sample_leaving_def matching_def sample_streams_def update_consumer_def start_consumer_def)
  have s2: "sample_arkd_own (sample_leaving Looping Selecting) (sample_leaving Draining Selecting)"
    by (intro work leave)
      (use consume_step.ctx_done [of "?k Looping" True] in \<open>simp add: start_consumer_def\<close>)
  have s3: "sample_arkd_own (sample_leaving Draining Selecting) (sample_leaving Finished Selecting)"
    by (intro work leave)
      (use consume_step.wait_done [of "?k Draining"] in \<open>simp add: start_consumer_def\<close>)
  have "own_step (\<lambda>_. False) (SysExec (?d Finished Selecting)) (SysExec (?d Finished (Returned CtxErr)))"
    using own_step.done_chosen [of "SysExec (?d Finished Selecting)" "\<lambda>_. False"]
    by (simp add: sample_leaving_def all_finished_def done_result_def) (simp add: sample_streams_def)
  then have "system_own sample_ext sample_enc_wiring (?d Finished Selecting) (?d Finished (Returned CtxErr))"
    using system_own.run [of "?d Finished Selecting" _ "[]" sample_ext sample_enc_wiring]
    by (fastforce simp: sample_leaving_def sample_streams_def)
  then have "sample_arkd_own (sample_leaving Finished Selecting) (sample_leaving Finished (Returned CtxErr))"
    by (rule work)
  with s1 s2 s3 show ?thesis
    by (auto simp: eval_nat_numeral)
qed

lemma sample_left_stuck: "\<not> sample_arkd_own (sample_leaving Finished (Returned CtxErr)) s"
  by (auto elim!: streamed_own.cases system_own.cases own_stepE consume_stepE arkd_step.cases sub_step.cases
      simp: sample_leaving_def sample_streams_def sample_over_def sample_sub_def runs_plugin_def
        receiving_def start_consumer_def sample_enc_wiring_def)

section \<open>Properties\<close>

text \<open>
  C12: the daemon on arkd's streams refines the daemon whose streams deliver and close at will, so that
  every theorem on that one holds of it. Each of its consumers reads the channel of one goroutine,
  which is closed exactly when the goroutine has ended, with its stream and its contexts released.
\<close>

theorem arkd_daemon_refines:
  assumes "arkd_reachable L w src s"
  shows "system_reachable L w (StDaemon s) \<and>
    list_all2 (\<lambda>k g. (CClosed k \<longleftrightarrow> arkd_over g) \<and> (arkd_over g \<longrightarrow> arkd_clean g))
      (XConsumers (SysExec (StDaemon s))) (StStreams s)"
proof -
  have "channels_ok (arkd_inv L) arkd_over arkd_sent s"
    by (rule arkd.daemon.reachable_inv [OF assms])
  then have "list_all2 (\<lambda>k g. (CClosed k \<longleftrightarrow> arkd_over g) \<and> (arkd_over g \<longrightarrow> arkd_clean g))
      (XConsumers (SysExec (StDaemon s))) (StStreams s)"
    unfolding channels_ok_def
    by (rule list_all2_mono) (auto simp: channel_ok_def arkd.over_clean)
  with arkd.daemon.reachable_abs [OF assms] show ?thesis by simp
qed

theorem arkd_daemon_refines_witness:
  "system_reachable sample_ext sample_enc_wiring (StDaemon (sample_sending False))"
  using arkd_daemon_refines [OF sample_sending_reachable] by blast

text \<open>
  C13: a goroutine never sends on a closed channel or closes one again, either of which would crash the
  daemon, and sends only into an empty channel. No reconnection leaks a context: of all the contexts a
  filtered subscription has derived, the only one that may not be cancelled is that of the stream it
  is reading.
\<close>

theorem streams_are_safe:
  assumes "arkd_reachable L w src s" and "i < length (StStreams s)"
    and "k = XConsumers (SysExec (StDaemon s)) ! i"
  shows "(\<forall>x a g. arkd_step L src x (has_room k) (StStreams s ! i) a g \<longrightarrow>
      (a = Quiet \<or> \<not> CClosed k) \<and> (\<forall>pkt. a = Send pkt \<longrightarrow> CQueue k = [])) \<and>
    (\<forall>f n. StStreams s ! i = Filtered f \<and> n \<in> SubLive f \<longrightarrow> (\<exists>c. stream_of (SubPhase f) = Some (n, c)))"
proof -
  have ok: "channel_ok (arkd_inv L) arkd_over arkd_sent k (StStreams s ! i)"
    using channels_ok_nth [OF arkd.daemon.reachable_inv [OF assms(1)] assms(2)] assms(3) by simp
  then have "(a = Quiet \<or> \<not> CClosed k) \<and> (\<forall>pkt. a = Send pkt \<longrightarrow> CQueue k = [])"
    if "arkd_step L src x (has_room k) (StStreams s ! i) a g" for x a g
    using arkd.running [OF that] arkd.sending that by (auto simp: channel_ok_def has_room_def)
  moreover have "\<exists>c. stream_of (SubPhase f) = Some (n, c)"
    if "StStreams s ! i = Filtered f \<and> n \<in> SubLive f" for f n
    using ok that by (auto simp: channel_ok_def arkd_inv_def sub_inv_def split: option.splits)
  ultimately show ?thesis by blast
qed

theorem streams_are_safe_witness:
  "\<not> CClosed (XConsumers (SysExec (StDaemon (sample_sending False))) ! 0) \<and>
   (\<exists>c. stream_of (SubPhase (sample_sub (Sending 0 (sample_conn []) sample_aa) {0} [Some ''aa''] [])) =
      Some (0, c))"
proof -
  let ?s = "sample_sending False"
  have "arkd_step sample_ext sample_stream_source False
      (has_room (XConsumers (SysExec (StDaemon ?s)) ! 0)) (StStreams ?s ! 0) (Send sample_aa)
      (Filtered sample_sent)"
    using sample_send by (simp add: arkd_step.filtered has_room_def start_consumer_def)
  moreover have "0 \<in> SubLive (sample_sub (Sending 0 (sample_conn []) sample_aa) {0} [Some ''aa''] [])"
    by (simp add: sample_sub_def)
  ultimately show ?thesis
    using streams_are_safe [OF sample_sending_reachable _ refl, of 0] by fastforce
qed

text \<open>
  C14: what a plugin is given to match are packets that arrived from arkd, each at most once and in the
  order of their arrival. On an unfiltered stream none is left out; a source without a subscription
  client, like the one \<open>main.go\<close> makes, has no other streams.
\<close>

theorem matched_in_arrival_order:
  assumes "wired_claimer w c" and "arkd_reachable L w src s" and "i < length (StStreams s)"
  shows "subseq (map fst (CTaken (XConsumers (SysExec (StDaemon s)) ! i)))
      (map Some (arkd_packets L (StStreams s ! i))) \<and>
    (\<not> HasSubs src \<or> (\<exists>h. StStreams s ! i = AllTxs h) \<longrightarrow>
      prefix (map fst (CTaken (XConsumers (SysExec (StDaemon s)) ! i)))
        (map Some (arkd_packets L (StStreams s ! i))))"
proof -
  let ?k = "XConsumers (SysExec (StDaemon s)) ! i" and ?g = "StStreams s ! i"
  have chans: "channels_ok (arkd_inv L) arkd_over arkd_sent s"
    by (rule arkd.daemon.reachable_inv [OF assms(2)])
  from channels_ok_nth [OF this assms(3)] have sent: "CDelivered ?k = map Some (arkd_sent ?g)"
    and inv: "arkd_inv L ?g"
    by (simp_all add: channel_ok_def)
  have "run_inv (bound_world L c) (executor_plugins L w) (SysExec (StDaemon s))"
    by (rule run_reachable_inv [OF system_reachable_exec
          [OF assms(1) arkd.daemon.reachable_abs [OF assms(2)]]])
  then have "map fst (CTaken ?k) @ CQueue ?k = map Some (arkd_sent ?g)"
    using sent channels_ok_length [OF chans] assms(3)
    by (simp add: run_inv_def consumer_inv_def list_all_length)
  then have taken: "prefix (map fst (CTaken ?k)) (map Some (arkd_sent ?g))"
    by (metis prefixI)
  have "\<exists>h. ?g = AllTxs h" if "\<not> HasSubs src"
    using unfiltered_streams [OF assms(2) that] assms(3) by (rule list_all_nthD)
  then show ?thesis
    using arkd_inv_sent [OF inv] taken
    by (meson map_mono_prefix prefix_imp_subseq prefix_order.order_trans subseq_map subseq_order.order_trans)
qed

theorem matched_in_arrival_order_witness:
  "subseq [Some sample_aa] (map Some (arkd_packets sample_ext (Filtered sample_sent)))"
  using matched_in_arrival_order [OF sample_enc_wired sample_declined_reachable, of 0]
  by (simp add: sample_declined_def)

text \<open>
  C11: the daemon stops with its streams. Once its context is cancelled, with streams being read, waited
  for or reopened and transactions anywhere on their way, it takes finitely many more steps of its
  own, and cannot stop before \<open>Run\<close> has returned the context's error and every stream's goroutine has
  closed its channel and ended, with nothing left open.
\<close>

theorem arkd_daemon_stops:
  assumes "wired_claimer w c" and "arkd_reachable L w src s" and "XCancelled (SysExec (StDaemon s))"
  shows "(\<forall>k s'. (arkd_own L w src ^^ k) s s' \<longrightarrow>
      k \<le> streamed_cost (arkd_cost L (\<lambda>pkt. tx_cost (Some pkt))) s) \<and>
    (\<forall>s'. (arkd_own L w src)\<^sup>*\<^sup>* s s' \<longrightarrow> (\<nexists>s''. arkd_own L w src s' s'') \<longrightarrow>
      XRun (SysExec (StDaemon s')) = Returned CtxErr \<and>
      list_all CClosed (XConsumers (SysExec (StDaemon s'))) \<and>
      list_all (\<lambda>g. arkd_over g \<and> arkd_clean g) (StStreams s'))"
proof (intro conjI allI impI)
  show "k \<le> streamed_cost (arkd_cost L (\<lambda>pkt. tx_cost (Some pkt))) s"
    if "(arkd_own L w src ^^ k) s s'" for k s'
    using arkd_streams.own_within_cost [OF assms that] by simp
next
  fix s'
  assume "(arkd_own L w src)\<^sup>*\<^sup>* s s'" and stuck: "\<nexists>s''. arkd_own L w src s' s''"
  then obtain k where "(arkd_own L w src ^^ k) s s'"
    by (metis rtranclp_imp_relpowp)
  from arkd_streams.own_within_cost [OF assms this] have "arkd_reachable L w src s'"
    and "XCancelled (SysExec (StDaemon s'))"
    by simp_all
  from arkd_streams.stuck_is_over [OF assms(1) this stuck]
  show "XRun (SysExec (StDaemon s')) = Returned CtxErr"
    and "list_all CClosed (XConsumers (SysExec (StDaemon s')))"
    and "list_all (\<lambda>g. arkd_over g \<and> arkd_clean g) (StStreams s')"
    by simp_all
qed

theorem arkd_daemon_stops_witness:
  "4 \<le> streamed_cost (arkd_cost sample_ext (\<lambda>pkt. tx_cost (Some pkt))) (sample_sending True) \<and>
   XRun (SysExec (StDaemon (sample_leaving Finished (Returned CtxErr)))) = Returned CtxErr"
proof -
  have "XCancelled (SysExec (StDaemon (sample_sending True)))"
    by simp
  note stops = arkd_daemon_stops [OF sample_enc_wired sample_cancelled_reachable this]
  have "\<nexists>s. sample_arkd_own (sample_leaving Finished (Returned CtxErr)) s"
    by (simp add: sample_left_stuck)
  then show ?thesis
    using stops sample_leaves relpowp_imp_rtranclp [OF sample_leaves] by blast
qed

end
