(* ===== verification/ArkdRuns.thy ===== *)
theory ArkdRuns
  imports ArkdStream
begin

text \<open>
  The two readings of \<open>arkdsource.go\<close> agree: what the functions of \<open>ArkdSource\<close> forward for the outcomes
  they are given, and how they end, is what the goroutines of \<open>ArkdStream\<close> do when those outcomes
  happen to them.
\<close>

section \<open>Runs of a goroutine\<close>

text \<open>The goroutine of a subscription with its context, whose channel has room now and then.\<close>

inductive sub_run ::
  "('priv, 'pub) ext \<Rightarrow> source \<Rightarrow> bool \<times> subscription \<Rightarrow> bool \<times> subscription \<Rightarrow> bool"
  for L :: "('priv, 'pub) ext" and s :: source where
  acts: "sub_step L s x room g a g' \<Longrightarrow> sub_run L s (x, g) (x, g')"
| waits_for: "sub_env g g' \<Longrightarrow> sub_run L s (x, g) (x, g')"
| ctx_ends: "sub_run L s (x, g) (True, g)"

inductive all_run ::
  "('priv, 'pub) ext \<Rightarrow> bool \<times> all_txs \<Rightarrow> bool \<times> all_txs \<Rightarrow> bool"
  for L :: "('priv, 'pub) ext" where
  all_acts: "all_step L x room g a g' \<Longrightarrow> all_run L (x, g) (x, g')"
| all_waits_for: "all_env g g' \<Longrightarrow> all_run L (x, g) (x, g')"
| all_ctx_ends: "all_run L (x, g) (True, g)"

text \<open>
  Where a goroutine is after an end of the function: still running, with its context not ended, or
  over.
\<close>

definition ends_as :: "bool \<Rightarrow> stream_end \<Rightarrow> bool \<Rightarrow> bool" where
  "ends_as x r over \<longleftrightarrow>
     (case r of Waiting \<Rightarrow> \<not> over \<and> \<not> x | CtxEnded \<Rightarrow> over \<and> x | Ended \<Rightarrow> over | Broke _ \<Rightarrow> over)"

text \<open>A goroutine in \<open>Recv\<close> on a stream on which everything that has arrived is read.\<close>

definition reads_on :: "subscription \<Rightarrow> bool" where
  "reads_on g \<longleftrightarrow> (\<exists>n. SubPhase g = Reading n fresh_conn \<and> n \<in> SubLive g)"

text \<open>It takes the next event.\<close>

lemma run_skip:
  assumes "reads_on g" and "sub_packet L ev = None"
  shows "\<exists>g'. (sub_run L s)\<^sup>*\<^sup>* (False, g) (False, g') \<and> reads_on g' \<and> SubSent g' = SubSent g"
proof -
  from assms(1) obtain n where n: "SubPhase g = Reading n fresh_conn" "n \<in> SubLive g"
    by (auto simp: reads_on_def)
  let ?g1 = "g\<lparr>SubPhase := Reading n (fresh_conn\<lparr>Unread := [ev]\<rparr>), SubArrived := SubArrived g @ [ev]\<rparr>"
  have "sub_env g ?g1"
    using sub_env.arrive [of g n fresh_conn ev] n by (simp add: fresh_conn_def)
  moreover have "sub_step L s False True ?g1 Quiet (?g1\<lparr>SubPhase := Reading n fresh_conn\<rparr>)"
    using sub_step.recv_skip [of ?g1 n _ ev "[]" L s False True] assms(2) by (simp add: fresh_conn_def)
  ultimately have "(sub_run L s)\<^sup>*\<^sup>* (False, g) (False, ?g1\<lparr>SubPhase := Reading n fresh_conn\<rparr>)"
    by (blast intro: sub_run.intros rtranclp.rtrancl_into_rtrancl)
  with n show ?thesis
    by (intro exI [of _ "?g1\<lparr>SubPhase := Reading n fresh_conn\<rparr>"]) (simp add: reads_on_def)
qed

lemma run_packet:
  assumes "reads_on g" and "sub_packet L ev = Some pkt"
  obtains n g' where "(sub_run L s)\<^sup>*\<^sup>* (False, g) (False, g')" "SubPhase g' = Sending n fresh_conn pkt"
    "n \<in> SubLive g'" "SubSent g' = SubSent g"
proof -
  from assms(1) obtain n where n: "SubPhase g = Reading n fresh_conn" "n \<in> SubLive g"
    by (auto simp: reads_on_def)
  let ?g1 = "g\<lparr>SubPhase := Reading n (fresh_conn\<lparr>Unread := [ev]\<rparr>), SubArrived := SubArrived g @ [ev]\<rparr>"
  have "sub_env g ?g1"
    using sub_env.arrive [of g n fresh_conn ev] n by (simp add: fresh_conn_def)
  moreover have "sub_step L s False True ?g1 Quiet (?g1\<lparr>SubPhase := Sending n fresh_conn pkt\<rparr>)"
    using sub_step.recv_packet [of ?g1 n _ ev "[]" L pkt s False True] assms(2) by (simp add: fresh_conn_def)
  ultimately have "(sub_run L s)\<^sup>*\<^sup>* (False, g) (False, ?g1\<lparr>SubPhase := Sending n fresh_conn pkt\<rparr>)"
    by (blast intro: sub_run.intros rtranclp.rtrancl_into_rtrancl)
  then show ?thesis
    by (rule that) (use n in simp_all)
qed

lemma run_send:
  assumes "reads_on g" and "sub_packet L ev = Some pkt"
  shows "\<exists>g'. (sub_run L s)\<^sup>*\<^sup>* (False, g) (False, g') \<and> reads_on g' \<and> SubSent g' = SubSent g @ [pkt]"
proof -
  obtain n g1 where g1: "(sub_run L s)\<^sup>*\<^sup>* (False, g) (False, g1)" "SubPhase g1 = Sending n fresh_conn pkt"
      "n \<in> SubLive g1" "SubSent g1 = SubSent g"
    by (rule run_packet [OF assms])
  let ?g2 = "g1\<lparr>SubPhase := Reading n fresh_conn, SubSent := SubSent g1 @ [pkt]\<rparr>"
  have "sub_run L s (False, g1) (False, ?g2)"
    by (rule sub_run.acts [OF sub_step.send_done [OF g1(2)]]) simp
  with g1 show ?thesis
    by (intro exI [of _ ?g2]) (auto simp: reads_on_def)
qed

lemma run_send_ctx:
  assumes "reads_on g" and "sub_packet L ev = Some pkt"
  shows "\<exists>g'. (sub_run L s)\<^sup>*\<^sup>* (False, g) (True, g') \<and> sub_over g' \<and> SubSent g' = SubSent g"
proof -
  obtain n g1 where g1: "(sub_run L s)\<^sup>*\<^sup>* (False, g) (False, g1)" "SubPhase g1 = Sending n fresh_conn pkt"
      "n \<in> SubLive g1" "SubSent g1 = SubSent g"
    by (rule run_packet [OF assms])
  let ?g2 = "(cancel_ctx n g1)\<lparr>SubPhase := SubEnded\<rparr>"
  have "sub_run L s (False, g1) (True, g1)"
    by (rule sub_run.ctx_ends)
  moreover have "sub_run L s (True, g1) (True, ?g2)"
    by (rule sub_run.acts [where room = True, OF sub_step.send_ctx [OF g1(2)]]) simp
  ultimately have "(sub_run L s)\<^sup>*\<^sup>* (False, g) (True, ?g2)"
    using g1(1) by (meson rtranclp.rtrancl_into_rtrancl)
  with g1(4) show ?thesis
    by (intro exI [of _ ?g2]) (simp add: sub_over_def cancel_ctx_def)
qed

text \<open>Its stream fails.\<close>

lemma run_break:
  assumes "reads_on g"
  shows "\<exists>g'. (sub_run L s)\<^sup>*\<^sup>* (False, g) (x, g') \<and> SubSent g' = SubSent g \<and>
    (if x \<or> isPermanent err then sub_over g' else SubPhase g' = Backing (ReconnectDelay s))"
proof -
  from assms obtain n where n: "SubPhase g = Reading n fresh_conn" "n \<in> SubLive g"
    by (auto simp: reads_on_def)
  let ?g1 = "g\<lparr>SubPhase := Reading n (fresh_conn\<lparr>Failure := Some err\<rparr>)\<rparr>"
  obtain a g2 where g2: "stream_broke s x n err ?g1 = (a, g2)"
    by fastforce
  have "sub_env g ?g1"
    using sub_env.break [of g n fresh_conn err] n by (simp add: fresh_conn_def)
  then have "sub_run L s (False, g) (False, ?g1)"
    by (rule sub_run.waits_for)
  moreover have "(sub_run L s)\<^sup>*\<^sup>* (False, ?g1) (x, ?g1)"
    by (cases x) (auto intro: sub_run.ctx_ends)
  moreover have "recv_fails x (SubLive ?g1) n (fresh_conn\<lparr>Failure := Some err\<rparr>) err"
    by (simp add: recv_fails_def fresh_conn_def)
  then have "sub_run L s (x, ?g1) (x, g2)"
    by (intro sub_run.acts [where room = True, OF sub_step.recv_err [OF _ _ g2]]) simp_all
  ultimately have "(sub_run L s)\<^sup>*\<^sup>* (False, g) (x, g2)"
    by (meson converse_rtranclp_into_rtranclp rtranclp.rtrancl_into_rtrancl)
  then show ?thesis
    by (intro exI [of _ g2])
      (use g2 in \<open>auto simp: stream_broke_def cancel_ctx_def sub_over_def Let_def split: if_splits\<close>)
qed

section \<open>A stream\<close>

lemma run_trans: "(sub_run L s)\<^sup>*\<^sup>* (x, g) (x', g') \<Longrightarrow> (sub_run L s)\<^sup>*\<^sup>* (x', g') (x'', g'') \<Longrightarrow>
    (sub_run L s)\<^sup>*\<^sup>* (x, g) (x'', g'')"
  by (rule rtranclp_trans)

text \<open>Where it is once \<open>readStream\<close> has returned, or still waits.\<close>

definition after_read :: "source \<Rightarrow> bool \<Rightarrow> stream_end \<Rightarrow> subscription \<Rightarrow> bool" where
  "after_read s x r g \<longleftrightarrow>
     (case r of
        Waiting \<Rightarrow> \<not> x \<and> reads_on g
      | CtxEnded \<Rightarrow> x \<and> sub_over g
      | Ended \<Rightarrow> False
      | Broke err \<Rightarrow> if isPermanent err then sub_over g
          else \<not> x \<and> SubPhase g = Backing (ReconnectDelay s))"

lemma readStream_runs:
  assumes "reads_on g" and "readStream L st = (out, r)"
  shows "\<exists>x g'. (sub_run L s)\<^sup>*\<^sup>* (False, g) (x, g') \<and> SubSent g' = SubSent g @ out \<and> after_read s x r g'"
  using assms
proof (induction L st arbitrary: g out r rule: readStream.induct)
  case (1 L)
  then show ?case
    by (intro exI [of _ False] exI [of _ g]) (simp add: after_read_def)
next
  case (2 L err ctxErr rs)
  obtain g' where "(sub_run L s)\<^sup>*\<^sup>* (False, g) (ctxErr, g')" "SubSent g' = SubSent g"
    "if ctxErr \<or> isPermanent err then sub_over g' else SubPhase g' = Backing (ReconnectDelay s)"
    using run_break [OF 2(1)] by blast
  with 2(2) show ?case
    by (intro exI [of _ ctxErr] exI [of _ g']) (auto simp: after_read_def split: if_splits)
next
  case (3 L ev sent rs)
  show ?case
  proof (cases "sub_packet L ev")
    case None
    obtain g1 where g1: "(sub_run L s)\<^sup>*\<^sup>* (False, g) (False, g1)" "reads_on g1" "SubSent g1 = SubSent g"
      using run_skip [OF 3(4) None] by blast
    have rest: "readStream L rs = (out, r)"
      using 3(5) None by (auto simp: sub_packet_def decoded_def split: if_splits sum.splits)
    have "\<exists>x g2. (sub_run L s)\<^sup>*\<^sup>* (False, g1) (x, g2) \<and> SubSent g2 = SubSent g1 @ out \<and> after_read s x r g2"
    proof (cases "ev = None \<or> ev = Some []")
      case True
      then show ?thesis by (rule 3(1) [OF _ g1(2) rest])
    next
      case False
      with None obtain e where "psbt_from_raw L (the ev) = Inl e"
        by (auto simp: sub_packet_def decoded_def split: sum.splits)
      then show ?thesis by (rule 3(2) [OF False _ g1(2) rest])
    qed
    with g1 show ?thesis
      by (metis run_trans)
  next
    case (Some pkt)
    then have ev: "\<not> (ev = None \<or> ev = Some [])" "psbt_from_raw L (the ev) = Inr pkt"
      by (auto simp: sub_packet_def decoded_def split: if_splits sum.splits)
    show ?thesis
    proof (cases sent)
      case False
      with run_send_ctx [OF 3(4) Some] 3(5) ev show ?thesis
        by (auto simp: after_read_def)
    next
      case True
      obtain out' r' where rest: "readStream L rs = (out', r')" by fastforce
      obtain g1 where g1: "(sub_run L s)\<^sup>*\<^sup>* (False, g) (False, g1)" "reads_on g1" "SubSent g1 = SubSent g @ [pkt]"
        using run_send [OF 3(4) Some] by blast
      obtain x g2 where "(sub_run L s)\<^sup>*\<^sup>* (False, g1) (x, g2)" "SubSent g2 = SubSent g1 @ out'" "after_read s x r' g2"
        using 3(3) ev True g1(2) rest by blast
      with g1 3(5) ev True rest show ?thesis
        by (auto intro: run_trans)
    qed
  qed
qed

section \<open>A reopening\<close>

definition after_reopen :: "bool \<Rightarrow> reopened \<Rightarrow> subscription \<Rightarrow> bool" where
  "after_reopen x r g \<longleftrightarrow>
     (case r of
        StillTrying \<Rightarrow> \<not> x \<and> (\<exists>d. SubPhase g = Backing d)
      | ReopenCtxEnded \<Rightarrow> x \<and> sub_over g
      | Reopened _ \<Rightarrow> \<not> x \<and> reads_on g
      | Rejected err \<Rightarrow> isPermanent err \<and> sub_over g)"

lemma run_attempt:
  assumes "SubPhase g = Backing d" and "attempt_reopen s x (\<lambda>_. answer) d (g\<lparr>SubPhase := Opening d\<rparr>) = (a, g')"
  shows "(sub_run L s)\<^sup>*\<^sup>* (False, g) (x, g')"
proof -
  let ?g1 = "g\<lparr>SubPhase := Opening d\<rparr>"
  have "sub_run L s (False, g) (False, ?g1)"
    by (rule sub_run.acts [where room = True, OF sub_step.wait_over [OF assms(1)]])
  moreover have "(sub_run L s)\<^sup>*\<^sup>* (False, ?g1) (x, ?g1)"
    by (cases x) (auto intro: sub_run.ctx_ends)
  moreover have "sub_run L s (x, ?g1) (x, g')"
    by (rule sub_run.acts [where room = True, OF sub_step.attempted [OF _ assms(2)]]) simp
  ultimately show ?thesis
    by (meson converse_rtranclp_into_rtranclp rtranclp.rtrancl_into_rtrancl)
qed

lemma reopen_runs:
  assumes "SubPhase g = Backing d"
  shows "\<exists>x g'. (sub_run L s)\<^sup>*\<^sup>* (False, g) (x, g') \<and> SubSent g' = SubSent g \<and>
    after_reopen x (snd (reopen_loop s d ats)) g'"
  using assms
proof (induction s d ats arbitrary: g rule: reopen_loop.induct)
  case (1 s delay)
  then show ?case
    by (intro exI [of _ False] exI [of _ g]) (simp add: after_reopen_def)
next
  case (2 s delay ats)
  have "sub_run L s (False, g) (True, g)"
    by (rule sub_run.ctx_ends)
  moreover have "sub_run L s (True, g) (True, g\<lparr>SubPhase := SubEnded\<rparr>)"
    by (rule sub_run.acts [where room = True, OF sub_step.wait_ctx [OF 2]]) simp
  ultimately show ?case
    by (intro exI [of _ True] exI [of _ "g\<lparr>SubPhase := SubEnded\<rparr>"])
      (simp add: after_reopen_def sub_over_def rtranclp.rtrancl_into_rtrancl)
next
  case (3 s delay st ats)
  obtain a g' where g': "attempt_reopen s False (\<lambda>_. None) delay (g\<lparr>SubPhase := Opening delay\<rparr>) = (a, g')"
    by fastforce
  with run_attempt [OF 3 g'] show ?case
    by (intro exI [of _ False] exI [of _ g'])
      (auto simp: attempt_reopen_def openSubscription_def after_reopen_def reads_on_def Let_def)
next
  case (4 s delay err ctxErr ats)
  obtain a g1 where g1: "attempt_reopen s ctxErr (\<lambda>_. Some err) delay (g\<lparr>SubPhase := Opening delay\<rparr>) = (a, g1)"
    by fastforce
  note run = run_attempt [OF 4(2) g1]
  have sent: "SubSent g1 = SubSent g"
    using g1 by (auto simp: attempt_reopen_def openSubscription_def cancel_ctx_def Let_def split: if_splits)
  show ?case
  proof (cases "ctxErr \<or> isPermanent err")
    case True
    with g1 have "after_reopen ctxErr (snd (reopen_loop s delay (OpenErr err ctxErr # ats))) g1"
      by (auto simp: attempt_reopen_def openSubscription_def cancel_ctx_def after_reopen_def sub_over_def
          Let_def split: if_splits)
    with run sent show ?thesis by blast
  next
    case False
    let ?d = "min (delay * reconnectMultiplier) (ReconnectMaxDelay s)"
    have "SubPhase g1 = Backing ?d"
      using g1 False by (auto simp: attempt_reopen_def openSubscription_def Let_def split: if_splits)
    then obtain x g2 where g2: "(sub_run L s)\<^sup>*\<^sup>* (False, g1) (x, g2)" "SubSent g2 = SubSent g1"
      "after_reopen x (snd (reopen_loop s ?d ats)) g2"
      using 4(1) False by blast
    then have "(sub_run L s)\<^sup>*\<^sup>* (False, g) (x, g2)"
      using run False by (auto intro: run_trans)
    with g2 sent False show ?thesis
      by (intro exI [of _ x] exI [of _ g2]) (simp add: case_prod_beta)
  qed
qed

section \<open>The whole subscription\<close>

definition starts_as :: "source \<Rightarrow> stream option \<Rightarrow> subscription \<Rightarrow> bool" where
  "starts_as s st g \<longleftrightarrow>
     (case st of None \<Rightarrow> SubPhase g = Backing (ReconnectDelay s) | Some _ \<Rightarrow> reads_on g)"

lemma reads_on_running: "reads_on g \<Longrightarrow> \<not> sub_over g"
  by (auto simp: reads_on_def sub_over_def)

lemma filtered_loop_runs:
  assumes "starts_as s st g" and "filtered_loop L s st script = (out, r)"
  shows "\<exists>x g'. (sub_run L s)\<^sup>*\<^sup>* (False, g) (x, g') \<and> SubSent g' = SubSent g @ out \<and> ends_as x r (sub_over g')"
  using assms
proof (induction L s st script arbitrary: g out r rule: filtered_loop.induct)
  case (1 L s)
  then show ?case
    by (intro exI [of _ False] exI [of _ g]) (simp add: starts_as_def ends_as_def sub_over_def)
next
  case (2 L s ats rest)
  then have "SubPhase g = Backing (ReconnectDelay s)"
    by (simp add: starts_as_def)
  then obtain x g1 where g1: "(sub_run L s)\<^sup>*\<^sup>* (False, g) (x, g1)" "SubSent g1 = SubSent g"
    "after_reopen x (snd (reopenSubscription s ats)) g1"
    using reopen_runs unfolding reopenSubscription_def by blast
  show ?case
  proof (cases "\<exists>st. snd (reopenSubscription s ats) = Reopened st")
    case True
    then obtain st where st: "snd (reopenSubscription s ats) = Reopened st" ..
    with g1(3) have x: "\<not> x" and "starts_as s (Some st) g1"
      by (simp_all add: after_reopen_def starts_as_def)
    from 2(1) [OF st this(2)] 2(3) st
    obtain y g2 where "(sub_run L s)\<^sup>*\<^sup>* (False, g1) (y, g2)" "SubSent g2 = SubSent g1 @ out" "ends_as y r (sub_over g2)"
      by auto
    with g1 x show ?thesis
      by (auto intro: run_trans)
  next
    case False
    with g1(3) 2(3) have "out = [] \<and> ends_as x r (sub_over g1)"
      by (cases "snd (reopenSubscription s ats)") (auto simp: after_reopen_def ends_as_def sub_over_def)
    with g1(1,2) show ?thesis
      by (intro exI [of _ x] exI [of _ g1]) simp
  qed
next
  case (3 L s st rest)
  obtain out1 r1 where read: "readStream L st = (out1, r1)" by fastforce
  have "reads_on g"
    using 3(2) by (simp add: starts_as_def)
  from readStream_runs [OF this read]
  obtain x g1 where g1: "(sub_run L s)\<^sup>*\<^sup>* (False, g) (x, g1)" "SubSent g1 = SubSent g @ out1" "after_read s x r1 g1"
    by blast
  show ?case
  proof (cases "\<exists>err. r1 = Broke err \<and> \<not> isPermanent err")
    case False
    then have "out = out1" "r = r1"
      using 3(3) read by (auto split: stream_end.splits if_splits)
    moreover have "ends_as x r1 (sub_over g1)"
      using g1(3) False reads_on_running
      by (auto simp: after_read_def ends_as_def split: stream_end.splits if_splits)
    ultimately show ?thesis
      using g1 by blast
  next
    case True
    then obtain err where err: "r1 = Broke err" "\<not> isPermanent err"
      by blast
    obtain out2 where out2: "filtered_loop L s None rest = (out2, r)" "out = out1 @ out2"
      using 3(3) read err by (auto split: prod.splits)
    have x: "\<not> x" and "starts_as s None g1"
      using g1(3) err by (simp_all add: after_read_def starts_as_def)
    from 3(1) [OF read [symmetric] err this(2) out2(1)]
    obtain y g2 where "(sub_run L s)\<^sup>*\<^sup>* (False, g1) (y, g2)" "SubSent g2 = SubSent g1 @ out2" "ends_as y r (sub_over g2)"
      by auto
    with g1 x out2(2) show ?thesis
      by (auto intro: run_trans)
  qed
qed

text \<open>The first request's answer, for both.\<close>

definition first_answer :: "(stream_error + stream) \<Rightarrow> string list \<Rightarrow> stream_error option" where
  "first_answer opened exprs = (case opened of Inl err \<Rightarrow> Some err | Inr _ \<Rightarrow> None)"

lemma start_stream_filtered:
  assumes "HasSubs s" and "flt \<noteq> []" and "subscribeFiltered L s opened script = Inr (out, r)"
  obtains st g where "start_stream s flt all_answer (first_answer opened) = Inr (Filtered g)"
    and "starts_as s st g" and "SubSent g = []" and "filtered_loop L s st script = (out, r)"
proof (cases opened)
  case (Inl err)
  with assms that [of _ None] show ?thesis
    by (auto simp: subscribeFiltered_def start_stream_def Subscribe_def openSubscription_def first_answer_def
        cancel_ctx_def starts_as_def Let_def split: if_splits)
next
  case (Inr st)
  with assms that [of _ "Some st"] show ?thesis
    by (auto simp: subscribeFiltered_def start_stream_def Subscribe_def openSubscription_def first_answer_def
        starts_as_def reads_on_def Let_def)
qed

section \<open>The unfiltered stream\<close>

lemma all_event_arrives:
  assumes "AllPhase g = AllSelect" and "AllEvents g = []" and "\<not> AllClosed g"
  shows "all_run L (False, g) (False, g\<lparr>AllEvents := [ev], AllArrived := AllArrived g @ [ev]\<rparr>)"
  using all_run.all_waits_for [OF all_env.all_arrive [of g ev]] assms by simp

lemma subscribeAll_runs:
  assumes "AllPhase g = AllSelect" and "AllEvents g = []" and "\<not> AllClosed g"
    and "subscribeAll L ins = (out, r)"
  shows "\<exists>x g'. (all_run L)\<^sup>*\<^sup>* (False, g) (x, g') \<and> AllSent g' = AllSent g @ out \<and> ends_as x r (all_over g')"
  using assms
proof (induction L ins arbitrary: g out r rule: subscribeAll.induct)
  case (1 L)
  then show ?case
    by (intro exI [of _ False] exI [of _ g]) (simp add: ends_as_def all_over_def)
next
  case (2 L ins)
  have "all_run L (False, g) (True, g)"
    by (rule all_run.all_ctx_ends)
  moreover have "all_run L (True, g) (True, all_return g)"
    by (rule all_run.all_acts [where room = True, OF all_step.select_ctx [OF 2(1)]]) simp
  ultimately show ?case
    using 2(4) by (intro exI [of _ True] exI [of _ "all_return g"])
      (auto simp: ends_as_def all_over_def all_return_def intro: rtranclp.rtrancl_into_rtrancl)
next
  case (3 L ins)
  let ?g1 = "g\<lparr>AllClosed := True\<rparr>"
  have "all_run L (False, g) (False, ?g1)"
    by (rule all_run.all_waits_for [OF all_env.all_close]) fact
  moreover have "all_run L (False, ?g1) (False, all_return ?g1)"
    by (rule all_run.all_acts [where room = True, OF all_step.events_closed]) (use 3 in simp_all)
  ultimately show ?case
    using 3(4) by (intro exI [of _ False] exI [of _ "all_return ?g1"])
      (auto simp: ends_as_def all_over_def all_return_def intro: rtranclp.rtrancl_into_rtrancl)
next
  case (4 L ev sent ins)
  let ?g1 = "g\<lparr>AllEvents := [ev], AllArrived := AllArrived g @ [ev]\<rparr>"
  have arrives: "all_run L (False, g) (False, ?g1)"
    by (rule all_event_arrives) fact+
  show ?case
  proof (cases "event_packet L ev")
    case None
    let ?g2 = "?g1\<lparr>AllEvents := []\<rparr>"
    have "all_run L (False, ?g1) (False, ?g2)"
      by (rule all_run.all_acts [where room = True, OF all_step.event_skip]) (use 4(5) None in simp_all)
    moreover
    have "\<exists>x g'. (all_run L)\<^sup>*\<^sup>* (False, ?g2) (x, g') \<and> AllSent g' = AllSent ?g2 @ out \<and> ends_as x r (all_over g')"
    proof (cases ev)
      case EventErr
      then show ?thesis
        by (intro 4(1)) (use 4(5-8) in simp_all)
    next
      case NoArkTx
      then show ?thesis
        by (intro 4(2)) (use 4(5-8) in simp_all)
    next
      case (ArkTx tx)
      with None obtain e where "psbt_from_raw L tx = Inl e"
        by (auto simp: event_packet_def decoded_def split: sum.splits)
      with ArkTx show ?thesis
        by (intro 4(3)) (use 4(5-8) in simp_all)
    qed
    then obtain x g' where g': "(all_run L)\<^sup>*\<^sup>* (False, ?g2) (x, g')" "AllSent g' = AllSent g @ out"
        "ends_as x r (all_over g')"
      by auto
    ultimately have "(all_run L)\<^sup>*\<^sup>* (False, g) (x, g')"
      using arrives by (meson converse_rtranclp_into_rtranclp)
    with g' show ?thesis by blast
  next
    case (Some pkt)
    let ?g2 = "?g1\<lparr>AllEvents := [], AllPhase := AllSending pkt\<rparr>"
    from Some obtain tx where tx: "ev = ArkTx tx" "psbt_from_raw L tx = Inr pkt"
      by (auto simp: event_packet_def decoded_def split: tx_event.splits sum.splits)
    have reads: "all_run L (False, ?g1) (False, ?g2)"
      by (rule all_run.all_acts [where room = True, OF all_step.event_packet]) (use 4(5) Some in simp_all)
    show ?thesis
    proof (cases sent)
      case False
      have "all_run L (False, ?g2) (True, ?g2)"
        by (rule all_run.all_ctx_ends)
      moreover have "all_run L (True, ?g2) (True, all_return ?g2)"
        by (rule all_run.all_acts [where room = True, OF all_step.all_send_ctx]) simp_all
      ultimately have "(all_run L)\<^sup>*\<^sup>* (False, g) (True, all_return ?g2)"
        using arrives reads by (meson converse_rtranclp_into_rtranclp r_into_rtranclp)
      with 4(8) tx False show ?thesis
        by (intro exI [of _ True] exI [of _ "all_return ?g2"])
          (auto simp: ends_as_def all_over_def all_return_def)
    next
      case True
      let ?g3 = "?g2\<lparr>AllPhase := AllSelect, AllSent := AllSent g @ [pkt]\<rparr>"
      obtain out' r' where rest: "subscribeAll L ins = (out', r')" by fastforce
      have "all_run L (False, ?g2) (False, ?g3)"
        using all_run.all_acts [where room = True, OF all_step.all_send_done [where g = ?g2 and pkt = pkt]] by simp
      moreover obtain x g' where "(all_run L)\<^sup>*\<^sup>* (False, ?g3) (x, g')" "AllSent g' = AllSent ?g3 @ out'"
          "ends_as x r' (all_over g')"
        using 4(4) [OF tx(1) tx(2), of ?g3 out' r'] True rest 4(7) by auto
      ultimately have "(all_run L)\<^sup>*\<^sup>* (False, g) (x, g')"
        using arrives reads by (meson converse_rtranclp_into_rtranclp)
      with \<open>AllSent g' = AllSent ?g3 @ out'\<close> \<open>ends_as x r' (all_over g')\<close> 4(8) tx True rest show ?thesis
        by (intro exI [of _ x] exI [of _ g']) simp
    qed
  qed
qed

section \<open>Properties\<close>

text \<open>
  C30: the goroutine a filtered subscription starts can do what the function of the code says: for every
  sequence of answers to the first request, to each reopening and to each \<open>Recv\<close>, it has a run in which
  it sends exactly the packets the function forwards, in that order, and is over exactly if the
  function ends.
\<close>

theorem filtered_loop_is_a_run:
  assumes "HasSubs s" and "flt \<noteq> []" and "subscribeFiltered L s opened script = Inr (out, r)"
  shows "\<exists>g x g'. start_stream s flt all_answer (first_answer opened) = Inr (Filtered g) \<and>
    (sub_run L s)\<^sup>*\<^sup>* (False, g) (x, g') \<and> SubSent g' = out \<and> ends_as x r (sub_over g')"
proof -
  obtain st g where g: "start_stream s flt all_answer (first_answer opened) = Inr (Filtered g)"
    "starts_as s st g" "SubSent g = []" "filtered_loop L s st script = (out, r)"
    by (rule start_stream_filtered [OF assms])
  from filtered_loop_runs [OF g(2,4)] g(1,3) show ?thesis by auto
qed

theorem filtered_loop_is_a_run_witness:
  "\<exists>g x g'. start_stream (WithSubscriptions New) ''true'' (Inr True) (first_answer (Inl (PlainError ''down''))) =
       Inr (Filtered g) \<and>
     (sub_run sample_ext (WithSubscriptions New))\<^sup>*\<^sup>* (False, g) (x, g') \<and>
     SubSent g' = [sample_pkt ''aa''] \<and> x \<and> sub_over g'"
proof -
  have "subscribeFiltered sample_ext (WithSubscriptions New) (Inl (PlainError ''down''))
      [attempts_until [] (broken_stream [Some ''aa''] (PlainError ''EOF'')), [WaitCtxDone]] =
    Inr ([sample_pkt ''aa''], CtxEnded)"
    by (simp add: subscribeFiltered_def reopenSubscription_def attempts_until_def isPermanent_def
        permanentCodes_def broken_stream_def sample_ext_decodes)
  from filtered_loop_is_a_run [OF _ _ this, of "''true''" "Inr True"] show ?thesis
    by (simp add: WithSubscriptions_def ends_as_def) blast
qed

text \<open>
  So can the goroutine of an unfiltered stream: for every sequence of events and ends it has a run in
  which it sends what the function forwards and is over exactly if the function ends.
\<close>

theorem subscribeAll_is_a_run:
  assumes "Subscribe s flt = FullStream" and "subscribeAll L ins = (out, r)"
  shows "\<exists>g x g'. start_stream s flt (Inr has_stop) answer = Inr (AllTxs g) \<and>
    (all_run L)\<^sup>*\<^sup>* (False, g) (x, g') \<and> AllSent g' = out \<and> ends_as x r (all_over g')"
proof -
  obtain g where g: "start_stream s flt (Inr has_stop) answer = Inr (AllTxs g)" "AllPhase g = AllSelect"
    "AllEvents g = []" "\<not> AllClosed g" "AllSent g = []"
    using assms(1) by (auto simp: start_stream_def)
  from subscribeAll_runs [OF g(2-4) assms(2)] g(1,5) show ?thesis by auto
qed

theorem subscribeAll_is_a_run_witness:
  "\<exists>g x g'. start_stream New ''true'' (Inr True) (\<lambda>_. None) = Inr (AllTxs g) \<and>
     (all_run sample_ext)\<^sup>*\<^sup>* (False, g) (x, g') \<and> AllSent g' = [sample_pkt ''aa''] \<and> all_over g'"
proof -
  have "Subscribe New ''true'' = FullStream"
    by (simp add: Subscribe_def New_def)
  moreover have "subscribeAll sample_ext [Event EventErr True, Event (ArkTx ''aa'') True, EventsClosed] =
      ([sample_pkt ''aa''], Ended)"
    by (simp add: sample_ext_decodes)
  ultimately show ?thesis
    using subscribeAll_is_a_run [of New "''true''" sample_ext _ _ Ended True "\<lambda>_. None"]
    by (fastforce simp: ends_as_def)
qed

end
