(* ===== verification/Backoff.thy ===== *)
theory Backoff
  imports ArkdSource "HOL-Library.Log_Nat"
begin

text \<open>
  The waits of \<open>reopenSubscription\<close>, with the jitter of \<open>jittered\<close>: a computation on \<open>float64\<close> values. A
  value of that type is a rational here, and each operation rounds its exact result to the nearest
  one with 53 significant bits, ties to even. The range of exponents is left out: what \<open>jittered\<close>
  meets stays far from both of its ends.
\<close>

section \<open>Model\<close>

text \<open>The exponent of a positive number's leading bit.\<close>

definition leading_bit :: "rat \<Rightarrow> int" where
  "leading_bit x =
     (if 1 \<le> x then int (floorlog 2 (nat \<lfloor>x\<rfloor>)) - 1
      else - int (floorlog 2 (nat \<lceil>1 / x\<rceil> - 1)))"

definition round_even :: "rat \<Rightarrow> int" where
  "round_even x =
     (let f = \<lfloor>x\<rfloor>; rest = x - of_int f
      in if rest < 1 / 2 then f else if 1 / 2 < rest then f + 1 else if even f then f else f + 1)"

definition float64 :: "rat \<Rightarrow> rat" where
  "float64 x =
     (if x = 0 then 0
      else let ulp = 2 powi (leading_bit \<bar>x\<bar> - 52) in of_int (round_even (x / ulp)) * ulp)"

definition truncate :: "rat \<Rightarrow> int" where
  "truncate x = (if x < 0 then \<lceil>x\<rceil> else \<lfloor>x\<rfloor>)"

definition reconnectJitter :: rat where "reconnectJitter = 1 / 5"

text \<open>\<open>rnd\<close> is the draw of \<open>rand.Float64\<close>.\<close>

definition jittered :: "int \<Rightarrow> rat \<Rightarrow> int" where
  "jittered d rnd =
     (let spread = float64 (float64 (of_int d) * float64 reconnectJitter)
      in truncate (float64 (float64 (float64 (of_int d) - spread) +
           float64 (float64 (rnd * 2) * spread))))"

text \<open>The waits of a reopening whose nominal delays are given, for the draws of its rounds.\<close>

definition waits :: "rat list \<Rightarrow> int list \<Rightarrow> int list" where
  "waits rnds ds = map2 jittered ds rnds"

section \<open>Rounding\<close>

lemma leading_bit_le:
  assumes "0 < x"
  shows "2 powi leading_bit x \<le> x"
proof (cases "1 \<le> x")
  case True
  let ?n = "nat \<lfloor>x\<rfloor>"
  have n: "0 < ?n" and n': "of_nat ?n \<le> x"
    using True by (simp_all add: le_floor_iff)
  then have f: "0 < floorlog 2 ?n"
    by (simp add: floorlog_def)
  have "(2 :: rat) ^ (floorlog 2 ?n - 1) = of_nat (2 ^ (floorlog 2 ?n - 1))"
    by simp
  also have "\<dots> \<le> of_nat ?n"
    using floorlog_bounds [OF n, of 2] by (subst of_nat_le_iff) simp
  also note n'
  finally have "(2 :: rat) ^ (floorlog 2 ?n - 1) \<le> x" .
  moreover have "leading_bit x = int (floorlog 2 ?n - 1)"
    using True f by (simp add: leading_bit_def)
  ultimately show ?thesis
    by (simp add: power_int_of_nat)
next
  case False
  let ?m = "nat \<lceil>1 / x\<rceil>"
  have "1 < 1 / x"
    using assms False by (simp add: field_simps)
  then have "0 < ?m - 1"
    by (simp add: less_ceiling_iff)
  then have "?m - 1 < 2 ^ floorlog 2 (?m - 1)"
    using floorlog_bounds [of "?m - 1" 2] by simp
  then have "?m \<le> 2 ^ floorlog 2 (?m - 1)"
    by linarith
  then have "(of_nat ?m :: rat) \<le> of_nat (2 ^ floorlog 2 (?m - 1))"
    by (subst of_nat_le_iff)
  moreover have "1 / x \<le> of_nat ?m"
    using \<open>1 < 1 / x\<close> by (simp add: le_of_int_ceiling)
  moreover have "of_nat (2 ^ floorlog 2 (?m - 1)) = (2 :: rat) ^ floorlog 2 (?m - 1)"
    by simp
  ultimately have "1 / x \<le> 2 ^ floorlog 2 (?m - 1)"
    by (simp only:)
  then have "1 / 2 ^ floorlog 2 (?m - 1) \<le> x"
    using assms by (simp add: field_simps)
  then show ?thesis
    using False by (simp add: leading_bit_def power_int_minus power_int_of_nat inverse_eq_divide)
qed

lemma round_even_near: "\<bar>of_int (round_even x) - x\<bar> \<le> 1 / 2"
  using floor_correct [of x] by (auto simp: round_even_def Let_def abs_le_iff)

lemma float64_near: "\<bar>float64 x - x\<bar> \<le> \<bar>x\<bar> / 2 ^ 53"
proof (cases "x = 0")
  case True
  then show ?thesis by (simp add: float64_def)
next
  case False
  define ulp :: rat where "ulp = 2 powi (leading_bit \<bar>x\<bar> - 52)"
  have pos: "0 < ulp"
    by (simp add: ulp_def)
  have "\<bar>float64 x - x\<bar> = \<bar>of_int (round_even (x / ulp)) - x / ulp\<bar> * ulp"
    using False pos by (simp add: float64_def ulp_def [symmetric] abs_mult_pos left_diff_distrib)
  also have "\<dots> \<le> 1 / 2 * ulp"
    using pos round_even_near by (intro mult_right_mono) simp_all
  also have "\<dots> = 2 powi leading_bit \<bar>x\<bar> / 2 ^ 53"
    by (simp add: ulp_def power_int_diff)
  also have "\<dots> \<le> \<bar>x\<bar> / 2 ^ 53"
    using leading_bit_le [of "\<bar>x\<bar>"] False by (intro divide_right_mono) simp_all
  finally show ?thesis .
qed

lemma float64_within: "\<bar>x\<bar> \<le> b \<Longrightarrow> \<bar>float64 x - x\<bar> \<le> b / 2 ^ 53"
  by (rule order_trans [OF float64_near divide_right_mono]) simp_all

lemma float64_add: "\<bar>x - y\<bar> \<le> d \<Longrightarrow> \<bar>x\<bar> \<le> b \<Longrightarrow> \<bar>float64 x - y\<bar> \<le> d + b / 2 ^ 53"
  using float64_within [of x b] by linarith

section \<open>The jitter of a wait\<close>

text \<open>The spread is a fifth of the delay, up to the rounding.\<close>

lemma spread_near:
  assumes "0 \<le> x" and "x \<le> 2 ^ 40"
  shows "\<bar>float64 (float64 x * float64 reconnectJitter) - x / 5\<bar> \<le> 1 / 2 ^ 11"
proof -
  define a where "a = float64 x"
  define c where "c = float64 reconnectJitter"
  have a: "\<bar>a - x\<bar> \<le> 1 / 2 ^ 13"
    using float64_within [of x "2 ^ 40"] assms by (simp add: a_def)
  have c: "\<bar>c - 1 / 5\<bar> \<le> 1 / 2 ^ 53"
    using float64_within [of "1 / 5" 1] by (simp add: c_def reconnectJitter_def)
  have "\<bar>a\<bar> \<le> 2 ^ 41"
    using a assms unfolding abs_le_iff by simp
  then have "\<bar>a * (c - 1 / 5)\<bar> \<le> 2 ^ 41 * (1 / 2 ^ 53)"
    unfolding abs_mult by (rule mult_mono) (use c in simp_all)
  moreover have "a * c - x / 5 = a * (c - 1 / 5) + (a - x) / 5"
    by (simp add: field_simps)
  then have "\<bar>a * c - x / 5\<bar> \<le> \<bar>a * (c - 1 / 5)\<bar> + \<bar>(a - x) / 5\<bar>"
    by (simp only: abs_triangle_ineq)
  ultimately have p: "\<bar>a * c - x / 5\<bar> \<le> 1 / 2 ^ 12 + 1 / 2 ^ 13"
    using a by simp
  then have "\<bar>a * c\<bar> \<le> 2 ^ 40"
    using assms unfolding abs_le_iff by simp
  from float64_add [OF p this] show ?thesis
    by (simp add: a_def c_def)
qed

lemma truncate_bounds: "x - 1 < of_int (truncate x)" "of_int (truncate x) \<le> max 0 x"
  by (auto simp: truncate_def) linarith+

lemma jittered_bounds:
  assumes "0 \<le> d" and "d \<le> 2 ^ 40" and "0 \<le> rnd" and "rnd \<le> 1"
  shows "4 * d - 10 < 5 * jittered d rnd" "5 * jittered d rnd < 6 * d + 5"
proof -
  define x where "x = rat_of_int d"
  define s where "s = float64 (float64 x * float64 reconnectJitter)"
  define q where "q = float64 (rnd * 2)"
  define t where "t = float64 (float64 (float64 x - s) + float64 (q * s))"
  have x: "0 \<le> x" "x \<le> 2 ^ 40"
    using assms(1,2) of_int_le_iff [of d "2 ^ 40", where 'a = rat] by (simp_all add: x_def)
  have s: "\<bar>s - x / 5\<bar> \<le> 1 / 2 ^ 11"
    unfolding s_def by (rule spread_near [OF x])
  have "\<bar>float64 x - x\<bar> \<le> 1 / 2 ^ 13"
    using float64_within [of x "2 ^ 40"] x by simp
  then have "\<bar>float64 x - s - 4 * x / 5\<bar> \<le> 1 / 2 ^ 11 + 1 / 2 ^ 13" "\<bar>float64 x - s\<bar> \<le> 2 ^ 41"
    using s x unfolding abs_le_iff by simp_all
  from float64_add [OF this] have m: "\<bar>float64 (float64 x - s) - 4 * x / 5\<bar> \<le> 1 / 2 ^ 10"
    by simp
  have "\<bar>s\<bar> \<le> 2 ^ 40"
    using s x unfolding abs_le_iff by simp
  then have "\<bar>(q - rnd * 2) * s\<bar> \<le> 2 / 2 ^ 53 * 2 ^ 40"
    unfolding abs_mult q_def
    by (intro mult_mono) (use float64_within [of "rnd * 2" 2] assms(3,4) in simp_all)
  moreover have "- 1 / 2 ^ 11 \<le> rnd * s \<and> rnd * s \<le> x / 5 + 1 / 2 ^ 11"
  proof (cases "0 \<le> s")
    case True
    then show ?thesis
      using mult_left_le_one_le [OF True assms(3,4)] mult_nonneg_nonneg [OF assms(3) True] s by linarith
  next
    case False
    then have "0 \<le> - s"
      by simp
    then show ?thesis
      using mult_left_le_one_le [OF _ assms(3,4), of "- s"] mult_nonneg_nonneg [OF assms(3), of "- s"] s x
      unfolding abs_le_iff mult_minus_right by simp
  qed
  moreover have "q * s = 2 * (rnd * s) + (q - rnd * 2) * s"
    by (simp add: algebra_simps)
  ultimately have q: "- 1 / 2 ^ 10 - 1 / 2 ^ 12 \<le> q * s" "q * s \<le> 2 * x / 5 + 1 / 2 ^ 10 + 1 / 2 ^ 12"
    by simp_all linarith+
  with float64_within [of "q * s" "2 ^ 41"] x
  have "\<bar>float64 (q * s) - q * s\<bar> \<le> 1 / 2 ^ 12"
    by (simp add: abs_le_iff)
  with q m x have sum: "4 * x / 5 - 1 / 2 ^ 8 \<le> float64 (float64 x - s) + float64 (q * s) - 1 / 2 ^ 11"
      "float64 (float64 x - s) + float64 (q * s) + 1 / 2 ^ 11 \<le> 6 * x / 5 + 1 / 2 ^ 8"
    unfolding abs_le_iff by simp_all
  with x float64_within [of "float64 (float64 x - s) + float64 (q * s)" "2 ^ 41"]
  have "\<bar>t - (float64 (float64 x - s) + float64 (q * s))\<bar> \<le> 1 / 2 ^ 12"
    by (simp add: t_def abs_le_iff)
  with sum have "4 * x / 5 - 1 < t" "t < 6 * x / 5 + 1"
    unfolding abs_le_iff by simp_all
  then have "4 * x - 10 < 5 * of_int (truncate t)" "5 * of_int (truncate t) < 6 * x + 5"
    using truncate_bounds [of t] x by linarith+
  then have "rat_of_int (4 * d - 10) < rat_of_int (5 * truncate t)"
      "rat_of_int (5 * truncate t) < rat_of_int (6 * d + 5)"
    by (simp_all add: x_def)
  moreover have "jittered d rnd = truncate t"
    by (simp add: jittered_def Let_def t_def s_def q_def x_def)
  ultimately show "4 * d - 10 < 5 * jittered d rnd" "5 * jittered d rnd < 6 * d + 5"
    unfolding of_int_less_iff by simp_all
qed

section \<open>Properties\<close>

text \<open>
  C36: the delays between attempts to reopen start at the initial delay and double up to the maximum,
  which they never exceed: one second, two, four, eight, then ten. Each wait is its delay with a jitter
  of at most a fifth, rounding of the floating-point computation included (up to two nanoseconds).
\<close>

theorem reopen_waits:
  assumes "reopenSubscription s ats = (ds, r)" and "i < length ds" and "length rnds = length ds"
    and "0 \<le> rnds ! i" and "rnds ! i < 1"
    and "0 \<le> ReconnectDelay s" and "ReconnectDelay s \<le> ReconnectMaxDelay s"
    and "ReconnectMaxDelay s \<le> 2 ^ 40"
  shows "let d = min (ReconnectDelay s * 2 ^ i) (ReconnectMaxDelay s)
    in ds ! i = d \<and> 4 * d - 10 < 5 * (waits rnds ds ! i) \<and> 5 * (waits rnds ds ! i) < 6 * d + 5"
proof -
  have d: "ds ! i = min (ReconnectDelay s * 2 ^ i) (ReconnectMaxDelay s)"
    by (rule backoff_doubles [OF assms(1,2,6,7)])
  moreover have "0 \<le> ds ! i" "ds ! i \<le> 2 ^ 40"
    using d assms(6-8) by (auto simp: min_def)
  moreover have "waits rnds ds ! i = jittered (ds ! i) (rnds ! i)"
    using assms(2,3) by (simp add: waits_def)
  ultimately show ?thesis
    using jittered_bounds [of "ds ! i" "rnds ! i"] assms(4,5) by (simp add: Let_def)
qed

text \<open>The fourth wait of a source as \<open>New\<close> makes it lies between 6.4 and 9.6 seconds.\<close>

theorem reopen_waits_witness:
  "\<exists>ds r. reopenSubscription New (replicate 5 (OpenErr (PlainError ''refused'') False)) = (ds, r) \<and>
     ds ! 3 = 8000000000 \<and> 6399999998 < waits [0, 1 / 2, 1 / 4, 3 / 4, 1 / 2, 0] ds ! 3 \<and>
     waits [0, 1 / 2, 1 / 4, 3 / 4, 1 / 2, 0] ds ! 3 < 9600000001"
proof -
  let ?ats = "replicate 5 (OpenErr (PlainError ''refused'') False)"
  obtain ds r where d: "reopenSubscription New ?ats = (ds, r)"
    by fastforce
  then have "length ds = 6"
    by (auto simp: reopenSubscription_def isPermanent_def permanentCodes_def eval_nat_numeral)
  with reopen_waits [OF d, of 3 "[0, 1 / 2, 1 / 4, 3 / 4, 1 / 2, 0]"] d show ?thesis
    by (simp add: New_def reconnectInitialDelay_def reconnectMaxDelay_def Let_def)
qed

end
