(* ===== verification/Provenance.thy ===== *)
theory Provenance
  imports SystemRuns
begin

text \<open>
  Where the daemon's claims come from. A run is followed together with the requests it has accepted, and
  every claim is traced back: to an accepted request, by whose own packet it is sound, or to a
  transaction the stream has delivered, by whose own packet it is.
\<close>

section \<open>Runs with their accepted requests\<close>

type_synonym accepted = "string \<times> reveal_request"

definition accepts ::
  "('priv, 'pub) ext \<Rightarrow> ('priv, 'pub) wiring \<Rightarrow> system \<Rightarrow> accepted \<Rightarrow> system \<Rightarrow> bool" where
  "accepts L w s a s' \<longleftrightarrow>
     (case a of (key, req) \<Rightarrow>
        \<exists>c packets. WReveal w = Some c \<and>
          Reveal L c (SysNow s) req (SysPackets s) = (Inr key, packets) \<and>
          s' = s\<lparr>SysPackets := packets, SysProbes := add_mset (Probing key) (SysProbes s)\<rparr>)"

text \<open>The history grows with each accepted request, and with no other step.\<close>

inductive daemon_run ::
  "('priv, 'pub) ext \<Rightarrow> ('priv, 'pub) wiring \<Rightarrow> accepted list \<Rightarrow> system \<Rightarrow> bool"
  for L :: "('priv, 'pub) ext" and w :: "('priv, 'pub) wiring" where
  start: "daemon_run L w [] (system_init L w now)"
| request: "daemon_run L w h s \<Longrightarrow> accepts L w s a s' \<Longrightarrow> daemon_run L w (h @ [a]) s'"
| other: "daemon_run L w h s \<Longrightarrow> system_step L w s s' \<Longrightarrow> \<nexists>a. accepts L w s a s' \<Longrightarrow>
    daemon_run L w h s'"

lemma accepts_step: "accepts L w s a s' \<Longrightarrow> system_step L w s s'"
  by (auto simp: accepts_def intro: env_system system_env.reveal_ok)

lemma daemon_run_reachable: "daemon_run L w h s \<Longrightarrow> system_reachable L w s"
  by (induction rule: daemon_run.induct)
    (blast intro: reachable_init reachable_step accepts_step)+

lemma reachable_daemon_run: "system_reachable L w s \<Longrightarrow> \<exists>h. daemon_run L w h s"
proof (induction rule: reachable_induct)
  case (init s)
  then show ?case by (blast intro: daemon_run.start)
next
  case (step s s')
  then show ?case
    by (cases "\<exists>a. accepts L w s a s'") (blast intro: daemon_run.request daemon_run.other)+
qed

section \<open>Claims of registered packets\<close>

text \<open>
  What a request asks to be registered; and a claim it leads to: of the script of the request's own
  address, with its taptree, and sound for its packet.
\<close>

definition request_entry :: "('priv, 'pub) ext \<Rightarrow> accepted \<Rightarrow> bytes \<Rightarrow> claim_packet \<Rightarrow> string list \<Rightarrow> bool" where
  "request_entry L a pk pkt taptree \<longleftrightarrow>
     (case a of (key, req) \<Rightarrow>
        \<exists>msg addr raw. key = hex_encode pk \<and> ReqPacket req = Some msg \<and> pkt = submitted msg \<and>
          decode_address_v0 L (ReqSwapAddress req) = Inr addr \<and> address_pk_script L addr = Inr pk \<and>
          hex_decode (ReqTaptree req) = Inr raw \<and> decode_tap_tree L raw = Inr taptree)"

definition requested_claim ::
  "('priv, 'pub) ext \<Rightarrow> ('priv, 'pub) claimer \<Rightarrow> accepted \<Rightarrow> matched_claim \<Rightarrow> bool" where
  "requested_claim L c a m \<longleftrightarrow>
     (\<exists>pkt. request_entry L a (CredPkScript (MCredentials m)) pkt (CredTaptree (MCredentials m)) \<and>
        sound_claim L c pkt m)"

text \<open>Every entry of the registry is one of the history's.\<close>

definition recorded :: "('priv, 'pub) ext \<Rightarrow> accepted list \<Rightarrow> registry \<Rightarrow> bool" where
  "recorded L h packets \<longleftrightarrow>
     (\<forall>key r. fmlookup packets key = Some r \<longrightarrow>
        (\<exists>req pk. (key, req) \<in> set h \<and> request_entry L (key, req) pk (RegPacket r) (RegTaptree r)))"

lemma Submit_entries:
  assumes "Submit L c now addr taptree pkt packets = (res, packets')" and "fmlookup packets' k = Some r"
  shows "fmlookup packets k = Some r \<or>
    (\<exists>pk. res = Inr k \<and> k = hex_encode pk \<and> address_pk_script L addr = Inr pk \<and> RegPacket r = pkt \<and>
       RegTaptree r = taptree)"
proof -
  have entries: "fmlookup packets k = Some r \<or> k = j \<and> fst (register now j pkt taptree packets) = Inr () \<and>
      RegPacket r = pkt \<and> RegTaptree r = taptree"
    if "snd (register now j pkt taptree packets) = packets'" for j
    using assms(2) that [symmetric]
    by (auto simp: register_def Let_def fmlookup_purge split: if_splits option.splits)
  from assms(1) show ?thesis
  proof (cases rule: Submit_cases)
    case rejected
    with assms(2) show ?thesis by simp
  next
    case (full pk)
    with entries [of "hex_encode pk"] show ?thesis by simp
  next
    case (accepted pk preimg)
    with entries [of "hex_encode pk"] show ?thesis by auto
  qed
qed

lemma Reveal_recorded:
  assumes "Reveal L c now req packets = (Inr key, packets')" and "recorded L h packets"
  shows "recorded L (h @ [(key, req)]) packets'"
  using assms by (fastforce simp: Reveal_Inr recorded_def request_entry_def dest: Submit_entries)

lemma Reveal_refused_entries:
  assumes "Reveal L c now req packets = (Inl e, packets')" and "fmlookup packets' k = Some r"
  shows "fmlookup packets k = Some r"
  using Reveal_Inl [of L c now req packets "fst e" "snd e" packets'] assms by (auto dest: Submit_entries)

text \<open>No other step registers anything.\<close>

lemma run_task_entries:
  "run_task L c idx virtual emu t packets = (t', packets', sent) \<Longrightarrow> fmlookup packets' k = Some r \<Longrightarrow>
     fmlookup packets k = Some r"
  using run_task_packets [of L c idx virtual emu t packets t' packets' sent]
  by (auto simp: reg.remove_entry split: if_splits)

lemma scanned_packets: "SysPackets (scanned a t s) = SysPackets s"
  by (simp add: scanned_def Let_def split: option.split task.split)

lemma other_step_entries:
  assumes "system_step L w s s'" and "\<nexists>a. accepts L w s a s'" and "fmlookup (SysPackets s') k = Some r"
  shows "fmlookup (SysPackets s) k = Some r"
  using assms(1) unfolding system_step_def
proof
  assume "system_own L w s s'"
  then show ?thesis
    by (cases rule: system_own.cases) (use assms(3) in \<open>simp_all add: run_task_entries scanned_packets\<close>)
next
  assume "system_env L w s s'"
  then show ?thesis
  proof (cases rule: system_env.cases)
    case (reveal_ok c req key packets)
    with assms(2) show ?thesis by (fastforce simp: accepts_def)
  next
    case (reveal_err c req e packets)
    with assms(3) show ?thesis by (simp add: Reveal_refused_entries)
  qed (use assms(3) in \<open>simp_all add: run_task_entries\<close>)
qed

text \<open>What the goroutines of the reveal plugin hold and have submitted.\<close>

definition claims_from ::
  "('priv, 'pub) ext \<Rightarrow> ('priv, 'pub) claimer \<Rightarrow> accepted list \<Rightarrow> matched_claim \<Rightarrow> bool" where
  "claims_from L c h m \<longleftrightarrow> (\<exists>a \<in> set h. requested_claim L c a m)"

definition task_from ::
  "('priv, 'pub) ext \<Rightarrow> ('priv, 'pub) claimer \<Rightarrow> accepted list \<Rightarrow> task \<Rightarrow> bool" where
  "task_from L c h t =
     (case t of Gating m \<Rightarrow> claims_from L c h m | Solving m \<Rightarrow> claims_from L c h m | _ \<Rightarrow> True)"

definition traced ::
  "('priv, 'pub) ext \<Rightarrow> ('priv, 'pub) claimer \<Rightarrow> accepted list \<Rightarrow> reveal_state \<Rightarrow> bool" where
  "traced L c h r \<longleftrightarrow>
     recorded L h (Packets r) \<and> (\<forall>t \<in># Tasks r. task_from L c h t) \<and>
     (\<forall>(m, b, answer) \<in> set (Sent r). claims_from L c h m)"

lemma task_from_simps [simp]:
  "task_from L c h (Probing key)" "task_from L c h (Scanning utx i)" "task_from L c h (Removing key)"
  "task_from L c h (Gating m) \<longleftrightarrow> claims_from L c h m"
  "task_from L c h (Solving m) \<longleftrightarrow> claims_from L c h m"
  by (simp_all add: task_from_def)

lemma start_match_from: "start_match tx = Some t \<Longrightarrow> task_from L c h t"
  by (auto simp: start_match_def split: option.splits)

lemma claims_from_more: "claims_from L c h m \<Longrightarrow> set h \<subseteq> set h' \<Longrightarrow> claims_from L c h' m"
  by (auto simp: claims_from_def)

lemma task_from_more: "task_from L c h t \<Longrightarrow> set h \<subseteq> set h' \<Longrightarrow> task_from L c h' t"
  by (auto simp: task_from_def claims_from_more split: task.splits)

lemma scan_output_from:
  assumes "all_bound L c packets" and "recorded L h packets" and "i < length (TxOuts utx)"
    and "scan_output L c packets utx i = Some m"
  shows "claims_from L c h m"
proof -
  let ?pk = "TxPkScript (TxOuts utx ! i)"
  from assms(3,4) obtain r preimg where r: "registered_output packets utx i r"
    and d: "packet_Decrypt L (Some (SecretKey c)) (RegPacket r) = Inr preimg"
    and m: "m = registered_claim L utx i r preimg"
    by (auto simp: scan_output_registered)
  then have entry: "fmlookup packets (hex_encode ?pk) = Some r"
    by (simp add: registered_output_def)
  then obtain req pk where req: "(hex_encode ?pk, req) \<in> set h"
    and re: "request_entry L (hex_encode ?pk, req) pk (RegPacket r) (RegTaptree r)"
    using assms(2) unfolding recorded_def by blast
  from re have "request_entry L (hex_encode ?pk, req) ?pk (RegPacket r) (RegTaptree r)"
    by (auto simp: request_entry_def)
  moreover have "sound_claim L c (RegPacket r) m"
    using all_boundD [OF assms(1) entry] r d
    by (auto simp: m bound_def sound_claim_def registered_claim_def registered_output_def)
  ultimately have "requested_claim L c (hex_encode ?pk, req) m"
    by (auto simp: requested_claim_def m registered_claim_def)
  with req show ?thesis
    by (auto simp: claims_from_def)
qed

lemma run_task_from:
  assumes "run_task L c idx virtual emu t packets = (t', packets', sent)"
    and "all_bound L c packets" and "recorded L h packets" and "task_from L c h t"
  shows "(\<forall>x \<in> set_option t'. task_from L c h x) \<and> (\<forall>(m, b, answer) \<in> set sent. claims_from L c h m)"
proof (cases t)
  case (Probing key)
  with assms(1) show ?thesis
    by (auto split: option.splits intro: start_match_from)
next
  case (Scanning utx i)
  with assms show ?thesis
    by (auto split: if_splits option.splits intro: scan_output_from)
qed (use assms in \<open>auto simp: gateSpendable_Some split: prod.splits sum.splits option.splits\<close>)

lemma reveal_step_traced:
  assumes "reveal_step L c r r'" and "all_bound L c (Packets r)" and "recorded L h (Packets r')"
    and "traced L c h r"
  shows "traced L c h r'"
  using assms(1)
proof (cases rule: reveal_step.cases)
  case (stream tx)
  with assms(4) show ?thesis
    by (auto simp: traced_def intro: start_match_from)
next
  case (run t idx virtual emu t' packets sent)
  have "(\<forall>x \<in> set_option t'. task_from L c h x) \<and> (\<forall>(m, b, answer) \<in> set sent. claims_from L c h m)"
    by (rule run_task_from [OF run(3) assms(2)]) (use run(2) assms(4) in \<open>auto simp: traced_def\<close>)
  with run(1) assms(3,4) show ?thesis
    by (auto simp: traced_def dest: in_diffD simp del: subset_mset.add_diff_assoc)
qed (use assms(3,4) in \<open>auto simp: traced_def\<close>)

lemma daemon_run_traced:
  assumes "daemon_run L w h s" and "wired_claimer w c"
  shows "traced L c h (reveal_of s)"
  using assms(1)
proof (induction rule: daemon_run.induct)
  case (start now)
  show ?case
    by (simp add: traced_def recorded_def reveal_of_def system_init_def)
next
  case (request h s a s')
  obtain key req where a: "a = (key, req)" by fastforce
  with request(2) obtain c' packets where
    r: "Reveal L c' (SysNow s) req (SysPackets s) = (Inr key, packets)"
    and s': "s' = s\<lparr>SysPackets := packets, SysProbes := add_mset (Probing key) (SysProbes s)\<rparr>"
    by (auto simp: accepts_def)
  have "recorded L (h @ [a]) packets"
    using Reveal_recorded [OF r] request(3) by (simp add: a traced_def)
  with request(3) show ?case
    by (auto simp: traced_def s' reveal_of_def intro: task_from_more claims_from_more)
next
  case (other h s s')
  note inv = system_reachable_inv [OF assms(2) daemon_run_reachable [OF other(1)]]
  have "recorded L h (SysPackets s')"
    using other(4) other_step_entries [OF other(2,3)] by (fastforce simp: traced_def recorded_def)
  with system_step_reveal [OF other(2) inv] other(4) inv show ?case
    by (auto simp: system_inv_def dest: reveal_step_traced)
qed

section \<open>Claims of streamed packets\<close>

text \<open>A claim the encrypted plugin's consumer has been handed for a transaction it took.\<close>

definition taken_claim ::
  "('priv, 'pub) ext \<Rightarrow> ('priv, 'pub) enc_plugin \<Rightarrow> (world, psbt, intent) executor \<Rightarrow> psbt \<Rightarrow>
   matched_claim \<Rightarrow> bool" where
  "taken_claim L p e tx m \<longleftrightarrow>
     (\<exists>i. runs_plugin (encrypted_plugin L p) e i \<and>
        (Some tx, Some (ClaimIntent m)) \<in> set (CTaken (XConsumers e ! i)))"

lemma consume_step_taken: "consume_step W x k k' \<Longrightarrow> set (CTaken k) \<subseteq> set (CTaken k')"
  by (erule consume_stepE) (auto simp: receive_def split: option.split)

lemma source_step_taken: "source_step k k' \<Longrightarrow> CTaken k' = CTaken k"
  by (erule source_stepE) simp_all

lemma own_step_taken_claim:
  assumes "own_step W e e'" and "taken_claim L p e tx m"
  shows "taken_claim L p e' tx m"
  using assms(1)
proof (cases rule: own_step.cases)
  case (consume i k)
  with assms(2) show ?thesis
    using step_plugin(1) [OF consume(3)] consume_step_taken [OF consume(3)]
    by (fastforce simp: taken_claim_def runs_plugin_def nth_list_update)
qed (use assms(2) in \<open>auto simp: taken_claim_def runs_plugin_def subscribe_plugin_def nth_append\<close>)

lemma env_step_taken_claim:
  assumes "env_step e e'" and "taken_claim L p e tx m"
  shows "taken_claim L p e' tx m"
  using assms(1)
proof (cases rule: env_step.cases)
  case (source i k)
  with assms(2) show ?thesis
    using step_plugin(2) [OF source(3)] source_step_taken [OF source(3)]
    by (fastforce simp: taken_claim_def runs_plugin_def nth_list_update)
qed (use assms(2) in \<open>simp add: taken_claim_def runs_plugin_def\<close>)

lemma run_taken_claim:
  "(run_step W)\<^sup>*\<^sup>* e e' \<Longrightarrow> taken_claim L p e tx m \<Longrightarrow> taken_claim L p e' tx m"
  by (induction rule: rtranclp_induct)
    (auto simp: run_step_def intro: own_step_taken_claim env_step_taken_claim)

text \<open>Solves in flight are of claims the consumer has been handed.\<close>

lemma in_flight_taken_claim:
  assumes "wired_claimer w c" and "system_reachable L w s"
    and "runs_plugin (encrypted_plugin L p) (SysExec s) i"
    and "ClaimIntent m \<in># CInFlight (XConsumers (SysExec s) ! i)"
  shows "\<exists>tx. taken_claim L p (SysExec s) tx m"
proof -
  have "i < length (XConsumers (SysExec s))"
    using assms(3) by (simp add: runs_plugin_def)
  then have "consumer_inv (bound_world L c) (XCancelled (SysExec s)) (XConsumers (SysExec s) ! i)"
    using consumer_of_plugins [OF system_reachable_exec [OF assms(1,2)]] by simp
  then have taken: "list_all (taken_ok (bound_world L c) (CPlugin (XConsumers (SysExec s) ! i)))
      (CTaken (XConsumers (SysExec s) ! i))"
    and "ClaimIntent m \<in># mset (intents_of (CTaken (XConsumers (SysExec s) ! i)))"
    using assms(4) by (simp_all add: consumer_inv_def)
  then obtain tx where tx: "(tx, Some (ClaimIntent m)) \<in> set (CTaken (XConsumers (SysExec s) ! i))"
    by (auto simp: set_intents_of)
  with taken obtain t where "tx = Some t"
    by (cases tx) (auto simp: list_all_iff taken_ok_def)
  with tx assms(3) show ?thesis
    by (auto simp: taken_claim_def)
qed

text \<open>Claims handed over are sound for the packet of their transaction.\<close>

definition streamed_claim ::
  "('priv, 'pub) ext \<Rightarrow> ('priv, 'pub) enc_plugin \<Rightarrow> (world, psbt, intent) executor \<Rightarrow> matched_claim \<Rightarrow>
   bool" where
  "streamed_claim L p e m \<longleftrightarrow>
     (\<exists>tx pkt. taken_claim L p e tx m \<and> MSourceTx m = UnsignedTx tx \<and> carries_packet L tx pkt \<and>
        \<not> SealedToAnother pkt (EncPubKey p) \<and> sound_claim L (EncClaimer p) pkt m)"

lemma taken_claim_streamed:
  assumes "wired_claimer w c" and "system_reachable L w s" and "taken_claim L p (SysExec s) tx m"
  shows "streamed_claim L p (SysExec s) m"
proof -
  from assms(3) obtain i where i: "i < length (XConsumers (SysExec s))"
      "CPlugin (XConsumers (SysExec s) ! i) = encrypted_plugin L p"
    and taken: "(Some tx, Some (ClaimIntent m)) \<in> set (CTaken (XConsumers (SysExec s) ! i))"
    by (auto simp: taken_claim_def runs_plugin_def)
  have "consumer_inv (bound_world L c) (XCancelled (SysExec s)) (XConsumers (SysExec s) ! i)"
    using consumer_of_plugins [OF system_reachable_exec [OF assms(1,2)] i(1)] by simp
  then have "taken_ok (bound_world L c) (encrypted_plugin L p) (Some tx, Some (ClaimIntent m))"
    using taken i(2) by (auto simp: consumer_inv_def list_all_iff)
  then obtain idx where "enc_Match L p idx (Some tx) = Some m"
    by (auto simp: taken_ok_def safeMatch_plugins dest!: sym [of "Some (ClaimIntent m)"])
  from enc_Match_sound [OF this] assms(3) show ?thesis
    by (auto simp: streamed_claim_def)
qed

lemma encrypted_sent_taken:
  assumes "wired_claimer w c" and "system_reachable L w s"
  shows "\<forall>(m, b, answer) \<in> set (SysEncSent s). \<exists>p tx. WEncrypted w = Some p \<and> taken_claim L p (SysExec s) tx m"
  using assms(2)
proof (induction rule: reachable_induct)
  case (init s)
  then show ?case by (auto simp: system_init_def)
next
  case (step s s')
  have keep: "taken_claim L p (SysExec s') tx m" if "taken_claim L p (SysExec s) tx m" for p tx m
    using run_taken_claim [OF system_step_exec [OF step(2) system_reachable_inv [OF assms(1) step(1)]]] that .
  have new: "\<exists>p tx. WEncrypted w = Some p \<and> taken_claim L p (SysExec s) tx m"
    if "(m, b, answer) \<in> set (SysEncSent s')" "(m, b, answer) \<notin> set (SysEncSent s)" for m b answer
  proof -
    have "system_own L w s s'"
      using step(2) that by (auto simp: system_step_def elim!: system_env.cases)
    then show ?thesis
    proof (cases rule: system_own.cases)
      case (enc_solve p i intent emu)
      with that have "intent = ClaimIntent m"
        by (auto simp: sent_by_def sent_of_def split: intent.splits option.splits)
      with enc_solve in_flight_taken_claim [OF assms(1) step(1)] show ?thesis
        by blast
    next
      case (scan c' a idx virtual emu t packets sent)
      with that show ?thesis
        by (simp add: scanned_def Let_def split: option.splits task.splits)
    qed (use that in simp_all)
  qed
  have "\<exists>p tx. WEncrypted w = Some p \<and> taken_claim L p (SysExec s) tx m"
    if "(m, b, answer) \<in> set (SysEncSent s')" for m b answer
    using step(3) new [OF that] by (cases "(m, b, answer) \<in> set (SysEncSent s)") blast+
  with keep show ?case by blast
qed

section \<open>Properties\<close>

text \<open>
  C3: every bundle the daemon has submitted is that of a sound claim for a packet the daemon was given,
  whatever is streamed, requested and answered, and however its goroutines interleave. Follow a
  run together with the requests it has accepted. What the reveal plugin and the probes have submitted
  was built for a claim of the address of one of these requests, with that request's taptree, and
  sound for that request's packet; what the encrypted plugin has submitted, for a claim of an output
  of a transaction its consumer has taken from the stream, sound for the packet that
  transaction carries, which is not sealed to another covclaimd. Sound means: this packet opens under the
  daemon's key to the claim's preimage, the output reaches its minimum, and its taptree pays the
  output and holds the claim closure of its script. Every run of the daemon can be so followed.
\<close>

theorem daemon_submits_only_sound_claims:
  assumes "wired_claimer w c" and "system_reachable L w s"
  shows "(\<exists>h. daemon_run L w h s) \<and>
    (\<forall>h m b answer. daemon_run L w h s \<longrightarrow>
       ((m, b, answer) \<in> set (SysSent s) \<longrightarrow>
          claim_bundle L c m = Inr b \<and> (\<exists>a \<in> set h. requested_claim L c a m)) \<and>
       ((m, b, answer) \<in> set (SysEncSent s) \<longrightarrow>
          claim_bundle L c m = Inr b \<and>
          (\<exists>p. WEncrypted w = Some p \<and> EncClaimer p = c \<and> streamed_claim L p (SysExec s) m)))"
proof (intro conjI allI impI)
  show "\<exists>h. daemon_run L w h s"
    by (rule reachable_daemon_run [OF assms(2)])
next
  fix h m b answer
  assume "(m, b, answer) \<in> set (SysSent s)"
  then show "claim_bundle L c m = Inr b"
    using reveal_reachable_inv [OF system_reachable_reveal [OF assms]]
    by (auto simp: reveal_inv_def sent_ok_def)
next
  fix h m b answer
  assume "daemon_run L w h s" and "(m, b, answer) \<in> set (SysSent s)"
  then show "\<exists>a \<in> set h. requested_claim L c a m"
    using daemon_run_traced [OF _ assms(1)] by (fastforce simp: traced_def claims_from_def)
next
  fix h m b answer
  assume "(m, b, answer) \<in> set (SysEncSent s)"
  then show "claim_bundle L c m = Inr b"
    using encrypted_sent_ok [OF assms(2,1)] by (auto simp: sent_ok_def)
next
  fix h m b answer
  assume "(m, b, answer) \<in> set (SysEncSent s)"
  then obtain p tx where "WEncrypted w = Some p" "taken_claim L p (SysExec s) tx m"
    using encrypted_sent_taken [OF assms] by fastforce
  then show "\<exists>p. WEncrypted w = Some p \<and> EncClaimer p = c \<and> streamed_claim L p (SysExec s) m"
    using taken_claim_streamed [OF assms] assms(1) by (auto simp: wired_claimer_def)
qed

theorem daemon_submits_only_sound_claims_witness:
  "\<exists>h key req. daemon_run toy sample_reveal_wiring h sample_claimed \<and> (key, req) \<in> set h \<and>
     requested_claim toy sample_claimer (key, req) sample_match \<and> key = hex_encode sample_pkscript"
proof -
  note sound = daemon_submits_only_sound_claims [OF sample_reveal_wired(1) sample_claimed_reachable]
  then obtain h where h: "daemon_run toy sample_reveal_wiring h sample_claimed"
    by blast
  moreover have "(sample_match, sample_bundle, Inr ()) \<in> set (SysSent sample_claimed)"
    by (simp add: sample_claimed_def solve_done_def starting_def)
  ultimately obtain a where "a \<in> set h" and a: "requested_claim toy sample_claimer a sample_match"
    using sound by blast
  moreover have "fst a = hex_encode sample_pkscript"
    using a by (auto simp: requested_claim_def request_entry_def sample_match_def sample_creds_def)
  ultimately show ?thesis
    using h by (metis prod.collapse)
qed

end
