(* ===== verification/Lockup.thy ===== *)
theory Lockup
  imports Maker Plugin
begin

text \<open>
  From the maker to the claim: an output a maker locks with \<open>CovenantClaimClosure\<close> and announces with a
  packet of \<open>BuildPacket\<close> for the daemon's key is matched by the daemon's encrypted plugin once the
  indexer has a spendable VTXO at its script, for the maker's preimage and receiver.
\<close>

section \<open>The maker's output\<close>

text \<open>
  A taptree that pays a script and holds the closure the maker has built for the preimage and the
  receiver; an output of the funding transaction that carries one paying its own script.
\<close>

definition maker_tree ::
  "('priv, 'pub) ext \<Rightarrow> ('priv, 'pub) claimer \<Rightarrow> string list \<Rightarrow> bytes \<Rightarrow> bytes \<Rightarrow> bytes \<Rightarrow> bool" where
  "maker_tree L c scripts pk preimage receiver \<longleftrightarrow>
     (\<exists>vs closure. taptree_pays L scripts vs pk \<and> closure \<in> set vs \<and>
        CovenantClaimClosure L (hash160 L preimage) receiver (Some (SignerPubKey c))
          (Some (EmulatorPubKey c)) = Inr closure)"

definition maker_output ::
  "('priv, 'pub) ext \<Rightarrow> ('priv, 'pub) claimer \<Rightarrow> psbt \<Rightarrow> msgtx \<Rightarrow> nat \<Rightarrow> bytes \<Rightarrow> bytes \<Rightarrow> bool" where
  "maker_output L c tx utx i preimage receiver \<longleftrightarrow>
     UnsignedTx tx = Some utx \<and> i < length (TxOuts utx) \<and> i < length (POutputs tx) \<and>
     TaprootTapTree (POutputs tx ! i) \<noteq> [] \<and>
     (\<exists>scripts. decode_tap_tree L (TaprootTapTree (POutputs tx ! i)) = Inr scripts \<and>
        maker_tree L c scripts (TxPkScript (TxOuts utx ! i)) preimage receiver)"

text \<open>The daemon finds a closure of that tree for the packet's script.\<close>

lemma maker_tree_found:
  assumes "maker_tree L c scripts pk preimage receiver" and "EnforcePayTo L receiver = Inr script"
  obtains vs closure where "taptree_pays L scripts vs pk"
    "findClaimClosure L vs (SignerPubKey c) (emulatorTweakedKey L script (EmulatorPubKey c)) preimage
      = Inr closure"
proof -
  from assms(1) obtain vs built where pays: "taptree_pays L scripts vs pk" and mem: "built \<in> set vs"
    and b: "CovenantClaimClosure L (hash160 L preimage) receiver (Some (SignerPubKey c))
      (Some (EmulatorPubKey c)) = Inr built"
    by (auto simp: maker_tree_def)
  from CovenantClaimClosure_claims [OF b assms(2)] mem pays that show thesis
    by (auto simp: findClaimClosure_Inr dest: find_Some_ex)
qed

text \<open>The packet the maker has built, as the daemon finds it.\<close>

definition maker_packet ::
  "('priv, 'pub) ext \<Rightarrow> 'priv \<Rightarrow> extension \<Rightarrow> bytes \<Rightarrow> bytes \<Rightarrow> claim_packet \<Rightarrow> bool" where
  "maker_packet L sk ext preimage receiver p \<longleftrightarrow>
     FindClaim L ext = Inr (Some p) \<and> packet_Decrypt L (Some sk) p = Inr preimage \<and>
     EnforcePayTo L receiver = Inr (ArkadeScript p) \<and> MinAmount p = None \<and>
     (\<forall>pub. SealedToAnother p pub \<longleftrightarrow> pub \<noteq> serialize_compressed L (pub_key L sk))"

text \<open>
  An output the daemon can claim for the preimage and the receiver, as far as its script goes: it
  carries a taptree that pays its own script and has the claim closure in it.
\<close>

definition locked_output ::
  "('priv, 'pub) ext \<Rightarrow> ('priv, 'pub) claimer \<Rightarrow> psbt \<Rightarrow> msgtx \<Rightarrow> nat \<Rightarrow> bytes \<Rightarrow> bytes \<Rightarrow> bool" where
  "locked_output L c tx utx i preimage receiver \<longleftrightarrow>
     UnsignedTx tx = Some utx \<and> i < length (TxOuts utx) \<and> i < length (POutputs tx) \<and>
     TaprootTapTree (POutputs tx ! i) \<noteq> [] \<and>
     (\<exists>scripts vs script closure. decode_tap_tree L (TaprootTapTree (POutputs tx ! i)) = Inr scripts \<and>
        taptree_pays L scripts vs (TxPkScript (TxOuts utx ! i)) \<and> EnforcePayTo L receiver = Inr script \<and>
        findClaimClosure L vs (SignerPubKey c) (emulatorTweakedKey L script (EmulatorPubKey c)) preimage
          = Inr closure)"

lemma maker_output_locked:
  assumes "maker_output L c tx utx i preimage receiver" and "EnforcePayTo L receiver = Inr script"
  shows "locked_output L c tx utx i preimage receiver"
proof -
  from assms(1) obtain scripts where
    d: "decode_tap_tree L (TaprootTapTree (POutputs tx ! i)) = Inr scripts"
    and tree: "maker_tree L c scripts (TxPkScript (TxOuts utx ! i)) preimage receiver"
    by (auto simp: maker_output_def)
  show ?thesis
    using assms(1) d maker_tree_found [OF tree assms(2)] assms(2)
    unfolding maker_output_def locked_output_def by metis
qed

lemma locked_output_claimable:
  assumes "maker_packet L sk ext preimage receiver p" and "UnsignedTx tx = Some utx"
  shows "locked_output L c tx utx i preimage receiver \<longleftrightarrow> (\<exists>m. claimable_output L c tx p preimage i m)"
proof -
  have "EnforcePayTo L receiver = Inr (ArkadeScript p)" and "\<not> Underfunds p v" for v
    using assms(1) by (simp_all add: maker_packet_def Underfunds_def)
  with assms(2) show ?thesis
    by (auto simp: locked_output_def claimable_output_def)
qed

lemma first_claimable:
  assumes "\<exists>m. claimable_output L c tx p preimage i m"
  obtains j m where "j \<le> i" "claimable_output L c tx p preimage j m"
    "\<forall>l<j. \<nexists>m'. claimable_output L c tx p preimage l m'"
proof -
  let ?P = "\<lambda>j. \<exists>m. claimable_output L c tx p preimage j m"
  have "?P (LEAST j. ?P j)" and "(LEAST j. ?P j) \<le> i" and "\<forall>l<(LEAST j. ?P j). \<not> ?P l"
    using assms LeastI [of ?P i] Least_le [of ?P i] not_less_Least [of _ ?P] by blast+
  then show thesis
    using that by blast
qed

lemma lockup_matched:
  assumes "locked_output L (EncClaimer p) tx utx i preimage receiver"
    and "new_extension_from_tx L utx = Inr ext"
    and "maker_packet L (SecretKey (EncClaimer p)) ext preimage receiver pkt"
    and "EncPubKey p = serialize_compressed L (pub_key L (SecretKey (EncClaimer p)))"
    and "\<And>j. j \<le> i \<Longrightarrow> locked_output L (EncClaimer p) tx utx j preimage receiver \<Longrightarrow>
      \<exists>v vs. idx [hex_encode (TxPkScript (TxOuts utx ! j))] True = Inr (v # vs)"
  shows "\<exists>m j. enc_Match L p idx (Some tx) = Some m \<and> j \<le> i \<and>
    claimable_output L (EncClaimer p) tx pkt preimage j m"
proof -
  have u: "UnsignedTx tx = Some utx"
    using assms(1) by (simp add: locked_output_def)
  note locked = locked_output_claimable [OF assms(3) u]
  have acc: "accepted_packet L p ext pkt preimage"
    using assms(3,4) by (simp add: accepted_packet_def maker_packet_def)
  from first_claimable [OF assms(1) [unfolded locked]] obtain j m where
    j: "j \<le> i" "claimable_output L (EncClaimer p) tx pkt preimage j m"
    and first: "\<forall>l<j. \<nexists>m'. claimable_output L (EncClaimer p) tx pkt preimage l m'" .
  have "CredPkScript (MCredentials m) = TxPkScript (TxOuts utx ! j)"
    using j(2) u by (auto simp: claimable_output_def)
  with assms(5) [of j] j locked have "\<exists>v vs. idx [hex_encode (CredPkScript (MCredentials m))] True = Inr (v # vs)"
    by auto
  moreover have "enc_decode L p tx ext = Some m"
    using acc j(2) first unfolding enc_decode_Some by blast
  ultimately have "enc_Match L p idx (Some tx) = Some m"
    using u assms(2) unfolding enc_Match_Some by blast
  with j show ?thesis by blast
qed

lemma BuildPacket_found:
  assumes "ecies_laws L" and "script_laws L" and "extension_laws L"
    and "BuildPacket L newPrivateKey randNonce preimage (Some (pub_key L sk)) receiver = Inr pkt"
    and "find (\<lambda>p. packet_type p = PacketType) ext = Some pkt"
  shows "\<exists>p. maker_packet L sk ext preimage receiver p"
  using BuildPacket_opens [OF assms] by (auto simp: maker_packet_def)

section \<open>Sample data for the witnesses\<close>

text \<open>The sample output, announced by the packet \<open>BuildPacket\<close> makes.\<close>

definition sample_maker_body :: bytes where
  "sample_maker_body =
     (case BuildPacket toy (Inr 3) (Inr [1]) sample_preimage (Some (pub_key toy 5)) sample_receiver of
        Inr (UnknownPacket _ body) \<Rightarrow> body | _ \<Rightarrow> [])"

definition sample_maker_utx :: msgtx where
  "sample_maker_utx = \<lparr>TxOuts = [\<lparr>TxValue = 0, TxPkScript = 0x6a # sample_maker_body\<rparr>,
     \<lparr>TxValue = 50000, TxPkScript = sample_pkscript\<rparr>], MsgRest = [8]\<rparr>"

definition sample_maker_tx :: psbt where
  "sample_maker_tx = sample_tx\<lparr>UnsignedTx := Some sample_maker_utx\<rparr>"

lemma sample_BuildPacket:
  "BuildPacket toy (Inr 3) (Inr [1]) sample_preimage (Some (pub_key toy 5)) sample_receiver =
     Inr (UnknownPacket PacketType sample_maker_body)"
proof -
  obtain pkt where b: "BuildPacket toy (Inr 3) (Inr [1]) sample_preimage (Some (pub_key toy 5)) sample_receiver
      = Inr pkt"
    using BuildPacket_sample [of sample_preimage] by (auto simp: sample_preimage_def)
  then obtain body where "pkt = UnknownPacket PacketType body"
    by (auto simp: BuildPacket_Inr)
  with b show ?thesis
    by (simp add: sample_maker_body_def)
qed

lemma sample_covenant:
  "CovenantClaimClosure toy (hash160 toy sample_preimage) sample_receiver (Some 2) (Some 3) =
     Inr sample_closure"
  by (simp add: CovenantClaimClosure_def EnforcePayTo_sample sample_preimageCondition sample_tweak
      sample_closure_def)

lemma sample_maker_output:
  "maker_output toy sample_claimer sample_maker_tx sample_maker_utx 1 sample_preimage sample_receiver"
proof -
  have "decode_tap_tree toy ([2, 250] @ sample_condition) = Inr sample_taptree"
    by (simp add: toy_def sample_taptree_def toy_leaves_one)
  then show ?thesis
    using sample_taptree_pays sample_covenant unfolding maker_output_def maker_tree_def
    by (fastforce simp: sample_maker_tx_def sample_maker_utx_def sample_tx_def sample_utx_def
        sample_claimer_def)
qed

section \<open>Properties\<close>

text \<open>
  C6: what a maker locks is claimed for the maker's receiver. Let a transaction carry the packet
  \<open>BuildPacket\<close> has sealed to the daemon's key, and an output \<open>i\<close> whose taptree holds the closure
  \<open>CovenantClaimClosure\<close> has built. When the indexer reports a spendable VTXO at the script of that
  output, and of the outputs before it that are locked alike, if there are any, the daemon's
  encrypted plugin matches the transaction; nothing is asked of the other outputs, the one with the
  extension among them. The claim is of output \<open>i\<close> or of one before it that is locked alike, with its
  full value, the maker's preimage and the script that pays the maker's receiver, and only a library
  can still refuse to build it.
\<close>

theorem maker_lockup_is_claimed:
  assumes "ecies_laws L" and "script_laws L" and "extension_laws L"
    and "NewPlugin L cfg = Inr p"
    and "BuildPacket L newPrivateKey randNonce preimage (Some (pub_key L (SecretKey (EncClaimer p)))) receiver =
      Inr pkt"
    and "new_extension_from_tx L utx = Inr ext"
    and "find (\<lambda>x. packet_type x = PacketType) ext = Some pkt"
    and "maker_output L (EncClaimer p) tx utx i preimage receiver"
    and "\<And>j. j \<le> i \<Longrightarrow> locked_output L (EncClaimer p) tx utx j preimage receiver \<Longrightarrow>
      \<exists>v vs. idx [hex_encode (TxPkScript (TxOuts utx ! j))] True = Inr (v # vs)"
  shows "\<exists>m j. enc_Match L p idx (Some tx) = Some m \<and> j \<le> i \<and>
    locked_output L (EncClaimer p) tx utx j preimage receiver \<and>
    MOutpoint m = \<lparr>OutHash = tx_hash L utx, OutIndex = word_of_nat j\<rparr> \<and>
    MAmount m = TxValue (TxOuts utx ! j) \<and> CredPreimage (MCredentials m) = preimage \<and>
    ValidateArkadeScript L (CredArkadeScript (MCredentials m)) = Inr receiver \<and>
    (\<forall>e. claim_bundle L (EncClaimer p) m = Inl e \<longrightarrow> library_error e \<or> (\<exists>x. e = B64EncodeError x))"
proof -
  have key: "EncPubKey p = serialize_compressed L (pub_key L (SecretKey (EncClaimer p)))"
    using assms(4) by (auto simp: NewPlugin_def res_simps)
  obtain q where q: "maker_packet L (SecretKey (EncClaimer p)) ext preimage receiver q"
    using BuildPacket_found [OF assms(1-3,5,7)] by blast
  then have e: "EnforcePayTo L receiver = Inr (ArkadeScript q)"
    by (simp add: maker_packet_def)
  have utx: "UnsignedTx tx = Some utx"
    using assms(8) by (simp add: maker_output_def)
  obtain m j where m: "enc_Match L p idx (Some tx) = Some m" "j \<le> i"
    and out: "claimable_output L (EncClaimer p) tx q preimage j m"
    using lockup_matched [where idx = idx, OF maker_output_locked [OF assms(8) e] assms(6) q key assms(9)]
    by blast
  have "locked_output L (EncClaimer p) tx utx j preimage receiver"
    using locked_output_claimable [OF q utx] out by blast
  moreover have "ValidateArkadeScript L (ArkadeScript q) = Inr receiver"
    by (rule ValidateArkadeScript_complete [OF assms(2) e])
  moreover have "\<forall>e. claim_bundle L (EncClaimer p) m = Inl e \<longrightarrow>
      library_error e \<or> (\<exists>x. e = B64EncodeError x)"
    using enc_Match_sound [OF m(1)] claim_bundle_error by blast
  ultimately show ?thesis
    using m out utx by (intro exI [of _ m] exI [of _ j]) (auto simp: claimable_output_def)
qed

text \<open>
  The witness's transaction has the extension as its first output, and its indexer knows of no VTXO but
  at the script of the second.
\<close>

theorem maker_lockup_is_claimed_witness:
  "\<exists>m. enc_Match toy sample_plugin
      (\<lambda>scripts _. if scripts = [hex_encode sample_pkscript] then Inr [\<lparr>VtxoTxid = ''t''\<rparr>] else Inr [])
      (Some sample_maker_tx) = Some m \<and>
    MOutpoint m = \<lparr>OutHash = [8], OutIndex = 1\<rparr> \<and> CredPreimage (MCredentials m) = sample_preimage \<and>
    ValidateArkadeScript toy (CredArkadeScript (MCredentials m)) = Inr sample_receiver"
proof -
  let ?idx = "\<lambda>scripts _. if scripts = [hex_encode sample_pkscript] then Inr [\<lparr>VtxoTxid = ''t''\<rparr>] else Inr []"
  have p: "NewPlugin toy \<lparr>CfgIndexer = Some 0, CfgEmulator = Some 1, CfgSecretKey = Some 5,
      CfgEmulatorPubKey = Some 3, CfgSignerPubKey = Some 2, CfgCheckpointTapscript = [1],
      CfgLog = None\<rparr> = Inr sample_plugin"
    by (simp add: NewPlugin_def newClaimer_def validateConfig_def sample_plugin_def sample_claimer_def)
      (simp add: toy_def)
  have b: "BuildPacket toy (Inr 3) (Inr [1]) sample_preimage
      (Some (pub_key toy (SecretKey (EncClaimer sample_plugin)))) sample_receiver =
      Inr (UnknownPacket PacketType sample_maker_body)"
    using sample_BuildPacket by (simp add: sample_claimer_def)
  have e: "new_extension_from_tx toy sample_maker_utx = Inr [UnknownPacket PacketType sample_maker_body]"
    by (simp add: toy_def toy_extension_def sample_maker_utx_def PacketType_def)
  have f: "find (\<lambda>x. packet_type x = PacketType) [UnknownPacket PacketType sample_maker_body] =
      Some (UnknownPacket PacketType sample_maker_body)"
    by simp
  have o: "maker_output toy (EncClaimer sample_plugin) sample_maker_tx sample_maker_utx 1 sample_preimage
      sample_receiver"
    using sample_maker_output by simp
  have only: "j = 1" if "j \<le> 1" "locked_output toy (EncClaimer sample_plugin) sample_maker_tx sample_maker_utx j
      sample_preimage sample_receiver" for j
    using that by (cases j) (simp_all add: locked_output_def sample_maker_tx_def sample_tx_def)
  have "\<exists>v vs. ?idx [hex_encode (TxPkScript (TxOuts sample_maker_utx ! 1))] True = Inr (v # vs)"
    by (simp add: sample_maker_utx_def)
  with only have s: "\<exists>v vs. ?idx [hex_encode (TxPkScript (TxOuts sample_maker_utx ! j))] True = Inr (v # vs)"
    if "j \<le> 1" "locked_output toy (EncClaimer sample_plugin) sample_maker_tx sample_maker_utx j
      sample_preimage sample_receiver" for j
    using that by metis
  have "tx_hash toy sample_maker_utx = [8]"
    by (simp add: toy_def sample_maker_utx_def)
  moreover obtain m j where j: "j \<le> 1"
      "locked_output toy (EncClaimer sample_plugin) sample_maker_tx sample_maker_utx j sample_preimage
        sample_receiver"
    and m: "enc_Match toy sample_plugin ?idx (Some sample_maker_tx) = Some m"
      "MOutpoint m = \<lparr>OutHash = tx_hash toy sample_maker_utx, OutIndex = word_of_nat j\<rparr>"
      "CredPreimage (MCredentials m) = sample_preimage"
      "ValidateArkadeScript toy (CredArkadeScript (MCredentials m)) = Inr sample_receiver"
    using maker_lockup_is_claimed [where idx = ?idx, OF toy_laws p b e f o s] by blast
  moreover have "j = 1"
    by (rule only [OF j])
  ultimately show ?thesis
    by auto
qed

end
