(* ===== verification/RevealLockup.thy ===== *)
theory RevealLockup
  imports Lockup Api
begin

text \<open>
  From the maker's request to the claim: a maker who posts the encrypted preimage of a covenant to the
  reveal route is answered 200, and while the entry is registered a transaction whose first output
  paying a registered script enough is the address's is matched by the reveal plugin, for the maker's
  preimage and receiver.
\<close>

section \<open>The maker's registration\<close>

text \<open>
  What the maker posts: the packet sealed to the daemon's key, in base64, and the taptree in hex; and
  the request the route makes of it.
\<close>

definition maker_body ::
  "string \<Rightarrow> bytes \<Rightarrow> bytes \<Rightarrow> u64 option \<Rightarrow> bytes \<Rightarrow> reveal_body" where
  "maker_body addr ct script amount tree =
     \<lparr>BodySwapAddress = addr, BodyCiphertext = b64_text ct, BodyArkadeScript = b64_text script,
      BodyMinAmount = amount, BodyTaptree = hex_encode tree\<rparr>"

definition maker_request ::
  "string \<Rightarrow> bytes \<Rightarrow> bytes \<Rightarrow> u64 option \<Rightarrow> bytes \<Rightarrow> reveal_request" where
  "maker_request addr ct script amount tree =
     \<lparr>ReqSwapAddress = addr, ReqPacket = Some \<lparr>MsgCiphertext = ct, MsgArkadeScript = script,
      MsgMinAmount = amount\<rparr>, ReqTaptree = hex_encode tree\<rparr>"

definition amount_bytes :: "u64 option \<Rightarrow> bytes" where
  "amount_bytes amount = (case amount of None \<Rightarrow> [] | Some a \<Rightarrow> append_uint64 a)"

text \<open>The maker's packet has been sealed for the daemon, with the minimum as additional data.\<close>

definition maker_sealed ::
  "('priv, 'pub) ext \<Rightarrow> 'priv \<Rightarrow> bytes \<Rightarrow> bytes \<Rightarrow> u64 option \<Rightarrow> bytes \<Rightarrow> bytes \<Rightarrow> bool" where
  "maker_sealed L sk preimage receiver amount ct script \<longleftrightarrow>
     length preimage = 32 \<and> amount \<noteq> Some 0 \<and> EnforcePayTo L receiver = Inr script \<and>
     (\<exists>newPrivateKey randNonce. EncryptWithAAD L newPrivateKey randNonce (Some (pub_key L sk)) preimage
        (amount_bytes amount) = Inr ct)"

text \<open>Output \<open>i\<close> of the transaction pays \<open>pk\<close> the minimum.\<close>

definition funds :: "psbt \<Rightarrow> msgtx \<Rightarrow> nat \<Rightarrow> bytes \<Rightarrow> u64 option \<Rightarrow> bool" where
  "funds tx utx i pk amount \<longleftrightarrow>
     UnsignedTx tx = Some utx \<and> i < length (TxOuts utx) \<and> TxPkScript (TxOuts utx ! i) = pk \<and>
     (\<forall>a. amount = Some a \<longrightarrow> uint a \<le> sint (TxValue (TxOuts utx ! i)))"

abbreviation maker_registers :: "bytes \<Rightarrow> bytes \<Rightarrow> u64 option \<Rightarrow> claim_packet" where
  "maker_registers ct script amount \<equiv>
     \<lparr>Ciphertext = ct, ArkadeScript = script, CovclaimdPubKey = [], MinAmount = amount\<rparr>"

lemma maker_sealed_opens:
  assumes "ecies_laws L" and "script_laws L" and "maker_sealed L sk preimage receiver amount ct script"
  shows "packet_Decrypt L (Some sk) (maker_registers ct script amount) = Inr preimage"
    and "ValidateArkadeScript L script = Inr receiver" and "ct \<noteq> []" and "script \<noteq> []"
proof -
  obtain npk nonce where l: "length preimage = 32"
    and enc: "EncryptWithAAD L npk nonce (Some (pub_key L sk)) preimage (amount_bytes amount) = Inr ct"
    and e: "EnforcePayTo L receiver = Inr script"
    using assms(3) by (auto simp: maker_sealed_def)
  show v: "ValidateArkadeScript L script = Inr receiver"
    by (rule ValidateArkadeScript_complete [OF assms(2) e])
  then show "script \<noteq> []"
    by (auto simp: ValidateArkadeScript_def parseReceiverFromArkadeScript_def)
  show "packet_Decrypt L (Some sk) (maker_registers ct script amount) = Inr preimage"
    using EncryptWithAAD_opens(1) [OF assms(1) enc] v l
    by (simp add: packet_Decrypt_Inr minAmountBytes_def amount_bytes_def)
  show "ct \<noteq> []"
    using EncryptWithAAD_opens(2) [OF assms(1) enc] by auto
qed

text \<open>The daemon accepts it.\<close>

definition acceptable ::
  "('priv, 'pub) ext \<Rightarrow> int \<Rightarrow> registry \<Rightarrow> string \<Rightarrow> bytes \<Rightarrow> string list \<Rightarrow> bytes \<Rightarrow> bool" where
  "acceptable L now packets addr tree taptree pk \<longleftrightarrow>
     (\<exists>a. decode_address_v0 L addr = Inr a \<and> address_pk_script L a = Inr pk) \<and>
     decode_tap_tree L tree = Inr taptree \<and> taptree \<noteq> [] \<and>
     fcard (fmdom (purge now packets)) < maxRegistrations"

lemma maker_request_accepted:
  assumes "ecies_laws L" and "script_laws L"
    and sealed: "maker_sealed L (SecretKey c) preimage receiver amount ct script"
    and acc: "acceptable L now packets addr tree taptree pk"
    and built: "maker_tree L c taptree pk preimage receiver"
  obtains packets' where
    "Reveal L c now (maker_request addr ct script amount tree) packets = (Inr (hex_encode pk), packets')"
    "fmlookup packets' (hex_encode pk) = Some \<lparr>RegPacket = maker_registers ct script amount,
      RegTaptree = taptree, RegExpireAt = now + registrationTTL\<rparr>"
proof -
  note opens = maker_sealed_opens [OF assms(1,2) sealed]
  have e: "EnforcePayTo L receiver = Inr script" and amount: "amount \<noteq> Some 0"
    using sealed by (auto simp: maker_sealed_def)
  from acc obtain a where addr: "decode_address_v0 L addr = Inr a" "address_pk_script L a = Inr pk"
    and tree: "decode_tap_tree L tree = Inr taptree" "taptree \<noteq> []"
    and room: "fcard (fmdom (purge now packets)) < maxRegistrations"
    by (auto simp: acceptable_def)
  have "validateAddress L c taptree pk script preimage = Inr ()"
    by (rule maker_tree_found [OF built e]) (auto simp: validateAddress_Inr)
  moreover obtain packets' where
    r: "register now (hex_encode pk) (maker_registers ct script amount) taptree packets = (Inr (), packets')"
    using room by (auto simp: register_def Let_def)
  ultimately have "Submit L c now a taptree (maker_registers ct script amount) packets =
      (Inr (hex_encode pk), packets')"
    using addr opens(1) by (simp add: Submit_def)
  then have "Reveal L c now (maker_request addr ct script amount tree) packets =
      (Inr (hex_encode pk), packets')"
    using opens(3,4) amount addr tree by (simp add: maker_request_def Reveal_def)
  with that show thesis
    using register_done [of now "hex_encode pk" "maker_registers ct script amount" taptree packets] r
    by auto
qed

lemma post_maker_body:
  "post_reveal L c now (Inr (maker_body addr ct script amount tree)) packets =
     (case Reveal L c now (maker_request addr ct script amount tree) packets of
        (Inl (st, _), packets') \<Rightarrow> (httpGRPCError (Some st), packets')
      | (Inr _, packets') \<Rightarrow> (200, packets'))"
  by (simp add: post_reveal_def maker_body_def maker_request_def)

lemma funds_registered:
  assumes "funds tx utx i pk amount" and "fmlookup packets (hex_encode pk) = Some r"
    and "MinAmount (RegPacket r) = amount"
  shows "registered_output packets utx i r"
proof -
  have "\<not> Underfunds (RegPacket r) (TxValue (TxOuts utx ! i))"
    using assms(1,3) by (auto simp: funds_def Underfunds_sint)
  with assms show ?thesis
    by (simp add: funds_def registered_output_def)
qed

lemma funded_registration_matched:
  assumes "all_bound L c packets" and "funds tx utx i pk amount"
    and "\<forall>j<i. \<nexists>r. registered_output packets utx j r"
    and r: "fmlookup packets (hex_encode pk) = Some r" "MinAmount (RegPacket r) = amount"
    and opens: "packet_Decrypt L (Some (SecretKey c)) (RegPacket r) = Inr preimage"
    and "idx [hex_encode pk] True = Inr (v # vs)"
  shows "reveal_Match L c (\<lambda>_. packets) idx (Some tx) = Some (registered_claim L utx i r preimage)"
proof -
  have "registered_match L c packets tx utx i r preimage (registered_claim L utx i r preimage)"
    using assms(2,3) funds_registered [OF assms(2) r] opens
    by (simp add: registered_match_def funds_def)
  then have "matchRegistered L c (\<lambda>_. packets) (Some tx) = Some (registered_claim L utx i r preimage)"
    using matchRegistered_bound [OF assms(1)] by blast
  then show ?thesis
    using assms(2,7) by (simp add: reveal_Match_Some funds_def)
qed

section \<open>Sample data for the witnesses\<close>

lemma sample_sealed:
  "maker_sealed toy (SecretKey sample_claimer) sample_preimage sample_receiver (Some 50000)
     sample_blob sample_script"
proof -
  have key: "(5 :: u8) = pub_key toy 5"
    by (simp add: toy_def)
  obtain blob where e: "EncryptWithAAD toy (Inr 3) (Inr [1]) (Some 5) sample_preimage (append_uint64 50000) =
      Inr blob"
    by (rule EncryptWithAAD_succeeds)
  then have "EncryptWithAAD toy (Inr 3) (Inr [1]) (Some (pub_key toy 5)) sample_preimage
      (amount_bytes (Some 50000)) = Inr sample_blob"
    using key by (simp add: sample_blob_def amount_bytes_def)
  then show ?thesis
    using EnforcePayTo_sample by (auto simp: maker_sealed_def sample_preimage_def)
qed

lemma sample_acceptable:
  "acceptable toy 0 fmempty (bytes_string sample_pkscript) sample_tree_bytes sample_taptree
     sample_pkscript"
  by (simp add: acceptable_def purge_def fcard_fempty maxRegistrations_def)
    (simp add: toy_def sample_taptree_def sample_tree_bytes_def toy_leaves_one)

lemma sample_maker_tree:
  "maker_tree toy sample_claimer sample_taptree sample_pkscript sample_preimage sample_receiver"
  using sample_taptree_pays sample_covenant by (fastforce simp: maker_tree_def)

lemma sample_maker_Reveal:
  "Reveal toy sample_claimer 0
     (maker_request (bytes_string sample_pkscript) sample_blob sample_script (Some 50000) sample_tree_bytes)
     fmempty = (Inr (hex_encode sample_pkscript), sample_open)"
  using sample_Reveal by (simp add: maker_request_def sample_request_def sample_msg_def)

lemma sample_open_bound: "all_bound toy sample_claimer sample_open"
  by (rule Submit_all_bound [OF sample_anonymous_Submit all_bound_empty])

lemma sample_funds: "funds sample_tx sample_utx 1 sample_pkscript (Some 50000)"
  by (simp add: funds_def sample_tx_def sample_utx_def)

lemma sample_first_registered: "\<forall>j<1. \<nexists>r. registered_output sample_open sample_utx j r"
proof -
  have "fmlookup sample_open (hex_encode (0x6a # sample_body)) = None"
    using sample_extension_script by (simp add: sample_open_def del: hex_encode_Cons)
  then show ?thesis
    by (simp add: registered_output_def sample_utx_def del: hex_encode_Cons)
qed

section \<open>Properties\<close>

text \<open>
  C7: a maker's registration is claimed for the maker's receiver. Posting to the reveal route the preimage
  sealed to the daemon's key with its minimum, the covenant script, and a taptree of the address that
  holds the covenant's closure is answered 200 while the registry has room. From then on, in every
  registry that still has the entry and whose entries are bound, a transaction with an output that
  pays the address the minimum, and with no output before it that pays a registered script enough,
  is matched once the indexer has a spendable VTXO at the address: the claim has the output's value,
  the maker's preimage and the script that pays the maker's receiver, and only a library can still
  refuse to build it. The condition on the outputs before is the code's: of the outputs that pay
  registered scripts enough it looks at the first only.
\<close>

theorem maker_registration_is_claimed:
  assumes "ecies_laws L" and "script_laws L"
    and "maker_sealed L (SecretKey c) preimage receiver amount ct script"
    and "acceptable L now packets addr tree taptree pk"
    and "maker_tree L c taptree pk preimage receiver"
  shows "\<exists>packets'. post_reveal L c now (Inr (maker_body addr ct script amount tree)) packets =
      (200, packets') \<and>
    (\<forall>later tx utx i idx v vs.
       all_bound L c later \<and> fmlookup later (hex_encode pk) = fmlookup packets' (hex_encode pk) \<and>
       funds tx utx i pk amount \<and> (\<forall>j<i. \<nexists>r. registered_output later utx j r) \<and>
       idx [hex_encode pk] True = Inr (v # vs) \<longrightarrow>
       (\<exists>m. reveal_Match L c (\<lambda>_. later) idx (Some tx) = Some m \<and>
          MOutpoint m = \<lparr>OutHash = tx_hash L utx, OutIndex = word_of_nat i\<rparr> \<and>
          MAmount m = TxValue (TxOuts utx ! i) \<and> CredPreimage (MCredentials m) = preimage \<and>
          ValidateArkadeScript L (CredArkadeScript (MCredentials m)) = Inr receiver \<and>
          (\<forall>e. claim_bundle L c m = Inl e \<longrightarrow> library_error e \<or> (\<exists>x. e = B64EncodeError x))))"
proof -
  note opens = maker_sealed_opens [OF assms(1-3)]
  obtain packets' where
    "Reveal L c now (maker_request addr ct script amount tree) packets = (Inr (hex_encode pk), packets')"
    and entry: "fmlookup packets' (hex_encode pk) = Some \<lparr>RegPacket = maker_registers ct script amount,
      RegTaptree = taptree, RegExpireAt = now + registrationTTL\<rparr>" (is "_ = Some ?r")
    by (rule maker_request_accepted [OF assms])
  then have post: "post_reveal L c now (Inr (maker_body addr ct script amount tree)) packets = (200, packets')"
    by (simp add: post_maker_body)
  have "\<exists>m. reveal_Match L c (\<lambda>_. later) idx (Some tx) = Some m \<and>
      MOutpoint m = \<lparr>OutHash = tx_hash L utx, OutIndex = word_of_nat i\<rparr> \<and>
      MAmount m = TxValue (TxOuts utx ! i) \<and> CredPreimage (MCredentials m) = preimage \<and>
      ValidateArkadeScript L (CredArkadeScript (MCredentials m)) = Inr receiver \<and>
      (\<forall>e. claim_bundle L c m = Inl e \<longrightarrow> library_error e \<or> (\<exists>x. e = B64EncodeError x))"
    if "all_bound L c later" "fmlookup later (hex_encode pk) = fmlookup packets' (hex_encode pk)"
      "funds tx utx i pk amount" "\<forall>j<i. \<nexists>r. registered_output later utx j r"
      "idx [hex_encode pk] True = Inr (v # vs)" for later tx utx i idx v vs
  proof -
    have m: "reveal_Match L c (\<lambda>_. later) idx (Some tx) = Some (registered_claim L utx i ?r preimage)"
      by (rule funded_registration_matched) (use that entry opens(1) in simp_all)
    from reveal_Match_sound [OF m that(1)] obtain pkt where
      "sound_claim L c pkt (registered_claim L utx i ?r preimage)" ..
    from m opens(2) claim_bundle_error [OF this] show ?thesis
      by (intro exI [of _ "registered_claim L utx i ?r preimage"]) (simp add: registered_claim_def)
  qed
  with post show ?thesis
    by blast
qed

theorem maker_registration_is_claimed_witness:
  "\<exists>packets' m. post_reveal toy sample_claimer 0
      (Inr (maker_body (bytes_string sample_pkscript) sample_blob sample_script (Some 50000) sample_tree_bytes))
      fmempty = (200, packets') \<and>
    reveal_Match toy sample_claimer (\<lambda>_. sample_open) (\<lambda>_ _. Inr [\<lparr>VtxoTxid = ''t''\<rparr>]) (Some sample_tx) =
      Some m \<and> MAmount m = 50000 \<and> CredPreimage (MCredentials m) = sample_preimage"
proof -
  have post: "post_reveal toy sample_claimer 0
      (Inr (maker_body (bytes_string sample_pkscript) sample_blob sample_script (Some 50000) sample_tree_bytes))
      fmempty = (200, sample_open)"
    using sample_maker_Reveal by (simp add: post_maker_body)
  have "\<exists>m. reveal_Match toy sample_claimer (\<lambda>_. sample_open) (\<lambda>_ _. Inr [\<lparr>VtxoTxid = ''t''\<rparr>])
      (Some sample_tx) = Some m \<and> MAmount m = TxValue (TxOuts sample_utx ! 1) \<and>
      CredPreimage (MCredentials m) = sample_preimage"
    using maker_registration_is_claimed [OF toy_laws(1,2) sample_sealed sample_acceptable
        sample_maker_tree] post sample_open_bound sample_funds
      sample_first_registered by fastforce
  with post show ?thesis
    by (auto simp: sample_utx_def)
qed

end
