(* ===== verification/Ownership.thy ===== *)
theory Ownership
  imports SystemRuns RevealLockup
begin

text \<open>
  Whose claims the daemon makes. An address commits to the taptree a maker has built; whoever else has
  the daemon register a packet for it, or spend it to another receiver, exhibits a second preimage of
  the hash lock, a key of the tree that is the tweaked key of a second script, or a second tree for the
  address.
\<close>

section \<open>The maker's address\<close>

text \<open>
  An address with the closures of the tree it commits to: the covenant for the preimage and the receiver
  is one of them, and every condition multisig of the covenant's two keys is under the covenant's hash
  lock. The other closures are free: the trees makers fund have a second condition multisig under the
  same lock, with the receiver's key in place of the emulator's. \<open>script\<close> is the receiver's arkade script.
\<close>

definition covenant_address ::
  "('priv, 'pub) ext \<Rightarrow> ('priv, 'pub) claimer \<Rightarrow> bytes \<Rightarrow> 'pub closure list \<Rightarrow> bytes \<Rightarrow> bytes \<Rightarrow>
   bytes \<Rightarrow> bool" where
  "covenant_address L c pk vs preimage receiver script \<longleftrightarrow>
     (\<exists>taptree. taptree_pays L taptree vs pk) \<and> EnforcePayTo L receiver = Inr script \<and>
     (\<exists>covenant \<in> set vs. CovenantClaimClosure L (hash160 L preimage) receiver (Some (SignerPubKey c))
        (Some (EmulatorPubKey c)) = Inr covenant) \<and>
     (\<forall>keys condition. ConditionMultisigClosure keys condition \<in> set vs \<and>
        hasExactlyTwoKeys L keys (SignerPubKey c) (emulatorTweakedKey L script (EmulatorPubKey c)) \<longrightarrow>
        preimageCondition L (hash160 L preimage) = Inr condition)"

text \<open>
  What the daemon uses for the address is the maker's; if it is not, it exhibits one of three collisions:
  a second preimage of the lock; a second script, whose tweaked key makes with the signer's the two keys
  of a closure of the maker's tree; a second tree that derives the address's script.
\<close>

definition makers_own ::
  "('priv, 'pub) ext \<Rightarrow> ('priv, 'pub) claimer \<Rightarrow> bytes \<Rightarrow> 'pub closure list \<Rightarrow> bytes \<Rightarrow> bytes \<Rightarrow>
   bytes \<Rightarrow> bytes \<Rightarrow> string list \<Rightarrow> bool" where
  "makers_own L c pk vs preimage receiver x s taptree \<longleftrightarrow>
     x = preimage \<and> ValidateArkadeScript L s = Inr receiver \<or>
     x \<noteq> preimage \<and> preimageCondition L (hash160 L x) = preimageCondition L (hash160 L preimage) \<or>
     EnforcePayTo L receiver \<noteq> Inr s \<and>
       (\<exists>keys condition. ConditionMultisigClosure keys condition \<in> set vs \<and>
          hasExactlyTwoKeys L keys (SignerPubKey c) (emulatorTweakedKey L s (EmulatorPubKey c))) \<or>
     (\<exists>vs'. taptree_pays L taptree vs' pk \<and> set vs' \<noteq> set vs)"

lemma makers_own_found:
  assumes "script_laws L" and "covenant_address L c pk vs preimage receiver script"
    and "taptree_pays L taptree vs' pk"
    and "findClaimClosure L vs' (SignerPubKey c) (emulatorTweakedKey L s (EmulatorPubKey c)) x = Inr closure"
  shows "makers_own L c pk vs preimage receiver x s taptree"
proof (cases "set vs' = set vs")
  case False
  with assms(3) show ?thesis
    by (auto simp: makers_own_def)
next
  case True
  from assms(4) obtain condition where cond: "preimageCondition L (hash160 L x) = Inr condition"
    and "closure \<in> set vs'"
    and "claim_closure L condition (SignerPubKey c) (emulatorTweakedKey L s (EmulatorPubKey c)) closure"
    by (auto simp: findClaimClosure_Inr find_Some_iff)
  with True obtain keys where mem: "ConditionMultisigClosure keys condition \<in> set vs"
    and two: "hasExactlyTwoKeys L keys (SignerPubKey c) (emulatorTweakedKey L s (EmulatorPubKey c))"
    by (cases closure) auto
  show ?thesis
  proof (cases "EnforcePayTo L receiver = Inr s")
    case True
    with assms(2) mem two have "preimageCondition L (hash160 L preimage) = Inr condition"
      by (auto simp: covenant_address_def)
    then show ?thesis
      using cond ValidateArkadeScript_complete [OF assms(1) True] by (auto simp: makers_own_def)
  next
    case False
    with mem two show ?thesis
      by (auto simp: makers_own_def)
  qed
qed

text \<open>Entries bound to their key and sound claims are the maker's.\<close>

lemma bound_makers_own:
  assumes "script_laws L" and "covenant_address L c pk vs preimage receiver script"
    and "bound L c (hex_encode pk) r"
  shows "\<exists>x. packet_Decrypt L (Some (SecretKey c)) (RegPacket r) = Inr x \<and>
    makers_own L c pk vs preimage receiver x (ArkadeScript (RegPacket r)) (RegTaptree r)"
  using assms(3) makers_own_found [OF assms(1,2)] by (fastforce simp: bound_def hex_encode_inject)

lemma sound_makers_own:
  assumes "script_laws L" and "covenant_address L c (CredPkScript (MCredentials m)) vs preimage receiver script"
    and "sound_claim L c pkt m"
  shows "makers_own L c (CredPkScript (MCredentials m)) vs preimage receiver (CredPreimage (MCredentials m))
    (CredArkadeScript (MCredentials m)) (CredTaptree (MCredentials m))"
  using assms(3) makers_own_found [OF assms(1,2)] by (auto simp: sound_claim_def)

section \<open>Properties\<close>

lemma sample_covenant_address:
  "covenant_address toy sample_claimer sample_pkscript [sample_closure] sample_preimage sample_receiver
     sample_script"
  using sample_taptree_pays sample_covenant EnforcePayTo_sample sample_preimageCondition
  by (auto simp: covenant_address_def sample_closure_def)

text \<open>
  A tree of the shape makers fund: beside the covenant, a claim of receiver (key 9) and signer under the
  same hash lock. It is registered by a request.
\<close>

definition two_closures :: "u8 closure list" where
  "two_closures = [ConditionMultisigClosure [9, 2] sample_condition, sample_closure]"

definition two_leaves :: "string list" where
  "two_leaves = [bytes_string ([9, 2] @ sample_condition), bytes_string ([2, 250] @ sample_condition)]"

definition two_tree_bytes :: bytes where
  "two_tree_bytes = 0 # ([9, 2] @ sample_condition) @ ([2, 250] @ sample_condition)"

definition two_pkscript :: bytes where
  "two_pkscript = [0x51, 0x20, sum_list (map toy_closure_key two_closures)] @ replicate 31 0"

lemma two_taptree_pays: "taptree_pays toy two_leaves two_closures two_pkscript"
proof -
  have "vtxo_script_decode toy two_leaves = Inr two_closures"
    by (simp add: toy_def two_leaves_def two_closures_def sample_closure_def toy_closures_leaf
        del: toy_closures.simps(2))
  then show ?thesis
    by (simp add: taptree_pays_def) (simp add: toy_def two_pkscript_def)
qed

lemma two_covenant_address:
  "covenant_address toy sample_claimer two_pkscript two_closures sample_preimage sample_receiver sample_script"
  using two_taptree_pays sample_covenant EnforcePayTo_sample sample_preimageCondition
  by (auto simp: covenant_address_def two_closures_def sample_closure_def)

definition two_registered :: system where
  "two_registered = (let (_, packets) = Reveal toy sample_claimer 0
       (maker_request (bytes_string two_pkscript) sample_blob sample_script (Some 50000) two_tree_bytes) fmempty
     in (system_init toy sample_reveal_wiring 0)
       \<lparr>SysPackets := packets, SysProbes := {#Probing (hex_encode two_pkscript)#}\<rparr>)"

lemma two_registered_reachable:
  "sample_daemon two_registered \<and>
   (\<exists>r. fmlookup (SysPackets two_registered) (hex_encode two_pkscript) = Some r \<and> RegTaptree r = two_leaves)"
proof -
  let ?req = "maker_request (bytes_string two_pkscript) sample_blob sample_script (Some 50000) two_tree_bytes"
  have "toy_leaves two_tree_bytes = two_leaves"
    unfolding two_tree_bytes_def two_leaves_def by (rule toy_leaves_two) simp
  then have "acceptable toy 0 fmempty (bytes_string two_pkscript) two_tree_bytes two_leaves two_pkscript"
    by (simp add: acceptable_def purge_def fcard_fempty maxRegistrations_def)
      (simp add: toy_def two_leaves_def)
  moreover have "maker_tree toy sample_claimer two_leaves two_pkscript sample_preimage sample_receiver"
    using two_taptree_pays sample_covenant by (fastforce simp: maker_tree_def two_closures_def)
  ultimately obtain packets where
    r: "Reveal toy sample_claimer 0 ?req fmempty = (Inr (hex_encode two_pkscript), packets)"
    and entry: "fmlookup packets (hex_encode two_pkscript) = Some \<lparr>RegPacket =
      maker_registers sample_blob sample_script (Some 50000), RegTaptree = two_leaves,
      RegExpireAt = 0 + registrationTTL\<rparr>"
    by (rule maker_request_accepted [OF toy_laws(1,2) sample_sealed])
  let ?init = "system_init toy sample_reveal_wiring 0"
  have s: "two_registered = ?init\<lparr>SysPackets := packets, SysProbes := {#Probing (hex_encode two_pkscript)#}\<rparr>"
    by (simp add: two_registered_def r)
  have "system_step toy sample_reveal_wiring ?init two_registered"
    unfolding s
    using env_system [OF system_env.reveal_ok [of sample_reveal_wiring sample_claimer toy ?init ?req
        "hex_encode two_pkscript" packets]] r by (simp add: system_init_def)
  moreover have "sample_daemon ?init"
    by (rule reachable_init) blast
  ultimately have "sample_daemon two_registered"
    by (rule reachable_step [rotated])
  moreover have "fmlookup (SysPackets two_registered) (hex_encode two_pkscript) = Some \<lparr>RegPacket =
      maker_registers sample_blob sample_script (Some 50000), RegTaptree = two_leaves,
      RegExpireAt = 0 + registrationTTL\<rparr>"
    unfolding s using entry by simp
  ultimately show ?thesis
    by fastforce
qed

text \<open>
  C4: an address is its maker's. Let an address commit to a tree that holds the covenant for a preimage
  and a receiver, and in which no closure of the covenant's two keys is under another lock; whatever else
  the tree holds, as the second claim closure of the trees makers fund. In every state the daemon can
  reach, whoever sends it requests and packets, a packet registered for the address opens to that
  preimage and its script pays that receiver, and so does every claim of the address it has submitted,
  through either plugin or a probe; or what it has accepted is a collision: a second preimage of the
  hash lock, a second script whose tweaked key is, with the signer's, that of a closure of the tree, or
  a second tree of the address.
\<close>

theorem maker_address_is_the_makers:
  assumes "script_laws L" and "wired_claimer w c" and "system_reachable L w s"
    and "covenant_address L c pk vs preimage receiver script"
  shows "(\<forall>r. fmlookup (SysPackets s) (hex_encode pk) = Some r \<longrightarrow>
      (\<exists>x. packet_Decrypt L (Some (SecretKey c)) (RegPacket r) = Inr x \<and>
         makers_own L c pk vs preimage receiver x (ArkadeScript (RegPacket r)) (RegTaptree r))) \<and>
    (\<forall>m b answer. (m, b, answer) \<in> set (SysSent s @ SysEncSent s) \<and> CredPkScript (MCredentials m) = pk \<longrightarrow>
       makers_own L c pk vs preimage receiver (CredPreimage (MCredentials m))
         (CredArkadeScript (MCredentials m)) (CredTaptree (MCredentials m)))"
proof (intro conjI allI impI)
  fix r
  assume "fmlookup (SysPackets s) (hex_encode pk) = Some r"
  then have "bound L c (hex_encode pk) r"
    using system_reachable_inv [OF assms(2,3)] by (auto simp: system_inv_def dest: all_boundD)
  then show "\<exists>x. packet_Decrypt L (Some (SecretKey c)) (RegPacket r) = Inr x \<and>
      makers_own L c pk vs preimage receiver x (ArkadeScript (RegPacket r)) (RegTaptree r)"
    by (rule bound_makers_own [OF assms(1,4)])
next
  fix m b answer
  assume m: "(m, b, answer) \<in> set (SysSent s @ SysEncSent s) \<and> CredPkScript (MCredentials m) = pk"
  then obtain pkt where "sound_claim L c pkt m"
    using encrypted_sent_ok [OF assms(3,2)]
      reveal_reachable_inv [OF system_reachable_reveal [OF assms(2,3)]]
    by (auto simp: reveal_inv_def sent_ok_def)
  with m show "makers_own L c pk vs preimage receiver (CredPreimage (MCredentials m))
      (CredArkadeScript (MCredentials m)) (CredTaptree (MCredentials m))"
    using sound_makers_own [OF assms(1), of c m vs preimage receiver script] assms(4) by blast
qed

text \<open>Applied to the registration of the tree of two closures, and to a submitted claim.\<close>

theorem maker_address_is_the_makers_witness:
  "(\<exists>r x. fmlookup (SysPackets two_registered) (hex_encode two_pkscript) = Some r \<and>
      packet_Decrypt toy (Some 5) (RegPacket r) = Inr x \<and>
      makers_own toy sample_claimer two_pkscript two_closures sample_preimage sample_receiver x
        (ArkadeScript (RegPacket r)) two_leaves) \<and>
   makers_own toy sample_claimer sample_pkscript [sample_closure] sample_preimage sample_receiver
     (CredPreimage sample_creds) (CredArkadeScript sample_creds) (CredTaptree sample_creds)"
proof
  obtain r where "fmlookup (SysPackets two_registered) (hex_encode two_pkscript) = Some r"
      "RegTaptree r = two_leaves"
    using two_registered_reachable by blast
  then show "\<exists>r x. fmlookup (SysPackets two_registered) (hex_encode two_pkscript) = Some r \<and>
      packet_Decrypt toy (Some 5) (RegPacket r) = Inr x \<and>
      makers_own toy sample_claimer two_pkscript two_closures sample_preimage sample_receiver x
        (ArkadeScript (RegPacket r)) two_leaves"
    using maker_address_is_the_makers [OF toy_laws(2) sample_reveal_wired(1)
        two_registered_reachable [THEN conjunct1] two_covenant_address] by fastforce
next
  have "(sample_match, sample_bundle, Inr ()) \<in> set (SysSent sample_deleting @ SysEncSent sample_deleting)"
    "CredPkScript (MCredentials sample_match) = sample_pkscript" "MCredentials sample_match = sample_creds"
    by (simp_all add: sample_deleting_def sample_match_def sample_creds_def)
  then show "makers_own toy sample_claimer sample_pkscript [sample_closure] sample_preimage sample_receiver
     (CredPreimage sample_creds) (CredArkadeScript sample_creds) (CredTaptree sample_creds)"
    using maker_address_is_the_makers [OF toy_laws(2) sample_reveal_wired(1) sample_deleting_reachable
        sample_covenant_address] by fastforce
qed

end
