(* ===== verification/ProbeRuns.thy ===== *)
theory ProbeRuns
  imports SystemRuns RevealLockup
begin

text \<open>
  The probe in the running daemon: the goroutine an accepted registration starts fetches the transaction
  of the first VTXO at the address and claims from it, with no transaction arriving on the stream.
\<close>

section \<open>The steps of the probes\<close>

text \<open>The probes of the daemon as a reveal system of their own, and the daemon they leave.\<close>

definition probes_of :: "system \<Rightarrow> reveal_state" where
  "probes_of s = \<lparr>Packets = SysPackets s, Now = SysNow s, Tasks = SysProbes s, Sent = SysSent s\<rparr>"

definition with_probes :: "reveal_state \<Rightarrow> system \<Rightarrow> system" where
  "with_probes r s = s\<lparr>SysPackets := Packets r, SysProbes := Tasks r, SysSent := Sent r\<rparr>"

lemma probes_simps [simp]:
  "Packets (probes_of s) = SysPackets s" "Tasks (probes_of s) = SysProbes s"
  "Sent (probes_of s) = SysSent s" "with_probes (probes_of s) s = s"
  "SysPackets (with_probes r s) = Packets r" "SysProbes (with_probes r s) = Tasks r"
  "SysSent (with_probes r s) = Sent r" "SysExec (with_probes r s) = SysExec s"
  "with_probes r' (with_probes r s) = with_probes r' s"
  by (simp_all add: probes_of_def with_probes_def)

lemma probe_step:
  assumes "WReveal w = Some c" and "task_step L c r r'"
  shows "system_env L w (with_probes r s) (with_probes r' s)"
  using assms(2)
proof (cases rule: task_step.cases)
  case (task t idx virtual emu t' packets sent)
  then show ?thesis
    using system_env.probe [OF assms(1), of t "with_probes r s" L idx virtual emu t' packets sent]
    by (cases s) (simp add: with_probes_def)
qed

lemma probe_steps:
  assumes "WReveal w = Some c" and "(task_step L c)\<^sup>*\<^sup>* (probes_of s) r"
  shows "(system_env L w)\<^sup>*\<^sup>* s (with_probes r s)"
  using assms(2)
proof (induction rule: rtranclp_induct)
  case base
  show ?case by simp
next
  case (step r r')
  with probe_step [OF assms(1) step(2), of s] show ?case
    by (meson rtranclp.rtrancl_into_rtrancl)
qed

text \<open>
  A probe that finds its funding transaction matched submits the bundle; an accepted one ends the
  registration.
\<close>

lemma probe_claims:
  assumes "WReveal w = Some c" and "SysProbes s = add_mset (Probing key) ts"
    and "probe_tx L idx virtual key = Some tx"
    and "reveal_Match L c (\<lambda>_. SysPackets s) idx (Some tx) = Some m" and "claim_bundle L c m = Inr b"
    and "hex_encode (CredPkScript (MCredentials m)) = key"
  shows "\<exists>s'. (system_env L w)\<^sup>*\<^sup>* s s' \<and> SysSent s' = SysSent s @ [(m, b, emu b)] \<and>
    SysPackets s' = (if emu b = Inr () then unregister key (SysPackets s) else SysPackets s) \<and>
    SysProbes s' = ts \<and> SysExec s' = SysExec s"
proof -
  let ?packets = "if emu b = Inr () then unregister key (SysPackets s) else SysPackets s"
  have "reveal_Solve L c emu (ClaimIntent m) (SysPackets s) = (Some b, ?packets)"
    using assms(5,6) by (auto simp: reveal_Solve_def claim_def map_err_def split: sum.split)
  then have "(task_step L c)\<^sup>*\<^sup>* (probes_of s)
      ((probes_of s)\<lparr>Packets := ?packets, Tasks := ts, Sent := SysSent s @ sent_of emu m (Some b)\<rparr>)"
    (is "(task_step L c)\<^sup>*\<^sup>* _ ?r")
    using probe_claim_run [of "probes_of s" key ts L idx virtual tx c idx m emu] assms by simp
  from probe_steps [OF assms(1) this] show ?thesis
    by (intro exI [of _ "with_probes ?r s"]) (simp add: sent_of_def)
qed

text \<open>The claim of output \<open>i\<close> a maker's registration leads to.\<close>

definition maker_claim ::
  "('priv, 'pub) ext \<Rightarrow> msgtx \<Rightarrow> nat \<Rightarrow> bytes \<Rightarrow> bytes \<Rightarrow> string list \<Rightarrow> matched_claim" where
  "maker_claim L utx i preimage script taptree =
     \<lparr>MOutpoint = \<lparr>OutHash = tx_hash L utx, OutIndex = word_of_nat i\<rparr>,
      MAmount = TxValue (TxOuts utx ! i), MSourceTx = Some utx,
      MCredentials =
        \<lparr>CredPreimage = preimage, CredArkadeScript = script, CredTaptree = taptree,
         CredPkScript = TxPkScript (TxOuts utx ! i)\<rparr>\<rparr>"

lemma registered_maker_claim:
  assumes "ArkadeScript (RegPacket r) = script" and "RegTaptree r = taptree"
  shows "registered_claim L utx i r preimage = maker_claim L utx i preimage script taptree"
  using assms by (simp add: registered_claim_def maker_claim_def)

section \<open>Sample data for the witness\<close>

definition sample_funding :: msgtx where
  "sample_funding = \<lparr>TxOuts = [\<lparr>TxValue = 50000, TxPkScript = sample_pkscript\<rparr>], MsgRest = []\<rparr>"

lemma sample_fetched:
  "psbt_from_raw toy (bytes_string sample_pkscript) =
     Inr \<lparr>UnsignedTx = Some sample_funding, POutputs = [], PsbtRest = []\<rparr>"
  by (simp add: toy_def toy_psbt_def sample_funding_def)
    (simp add: sample_pkscript_def bytes_string_def)

lemma sample_funded:
  "funds \<lparr>UnsignedTx = Some sample_funding, POutputs = [], PsbtRest = []\<rparr> sample_funding 0
     sample_pkscript (Some 50000)"
  by (simp add: funds_def sample_funding_def)

section \<open>Properties\<close>

text \<open>
  C16: what the probe of a new registration claims. In any state of the daemon, stopped or not, posting a
  maker's registration is answered 200 while there is room. Let the transaction of the first VTXO the
  indexer reports at the address be fetchable, and let the first of its outputs that pays a registered
  script enough be one that pays the address the minimum: the probe looks at no other VTXO, and
  at no output after that one. Then the bundle of the claim that has this output's value, the maker's
  preimage and the script that pays the maker's receiver can only fail to be built in a library; and
  once it is built, the request and the probe can run, with no step of the executor, until it is
  submitted, and if the emulator accepts it the registration is gone.
\<close>

theorem funded_registration_is_claimed:
  assumes "ecies_laws L" and "script_laws L"
    and "wired_claimer w c" and "WReveal w = Some c" and "system_reachable L w s"
    and "maker_sealed L (SecretKey c) preimage receiver amount ct script"
    and "acceptable L (SysNow s) (SysPackets s) addr tree taptree pk"
    and "maker_tree L c taptree pk preimage receiver"
    and "(idx :: indexer) [hex_encode pk] True = Inr (v # vs)"
    and "(virtual :: virtual_txs) [VtxoTxid v] = Inr (raw # raws)" and "psbt_from_raw L raw = Inr tx"
  shows "ValidateArkadeScript L script = Inr receiver \<and>
    (\<exists>packets.
       post_reveal L c (SysNow s) (Inr (maker_body addr ct script amount tree)) (SysPackets s) =
         (200, packets) \<and>
       (\<forall>utx i. funds tx utx i pk amount \<and> (\<forall>j<i. \<nexists>r. registered_output packets utx j r) \<longrightarrow>
          (case claim_bundle L c (maker_claim L utx i preimage script taptree) of
             Inl e \<Rightarrow> library_error e \<or> (\<exists>x. e = B64EncodeError x)
           | Inr b \<Rightarrow>
               \<exists>s'. (system_env L w)\<^sup>*\<^sup>* s s' \<and>
                 SysSent s' = SysSent s @
                   [(maker_claim L utx i preimage script taptree, b, (emu :: emulator) b)] \<and>
                 SysPackets s' = (if emu b = Inr () then unregister (hex_encode pk) packets else packets) \<and>
                 SysProbes s' = SysProbes s \<and> SysExec s' = SysExec s)))"
proof -
  let ?key = "hex_encode pk" and ?m = "\<lambda>utx i. maker_claim L utx i preimage script taptree"
  note opens = maker_sealed_opens [OF assms(1,2,6)]
  obtain packets where
    reveal: "Reveal L c (SysNow s) (maker_request addr ct script amount tree) (SysPackets s) =
      (Inr ?key, packets)"
    and entry: "fmlookup packets ?key = Some \<lparr>RegPacket = maker_registers ct script amount,
      RegTaptree = taptree, RegExpireAt = SysNow s + registrationTTL\<rparr>" (is "_ = Some ?r")
    by (rule maker_request_accepted [OF assms(1,2,6-8)])
  let ?s = "s\<lparr>SysPackets := packets, SysProbes := add_mset (Probing ?key) (SysProbes s)\<rparr>"
  have begin_probe: "system_env L w s ?s"
    by (rule system_env.reveal_ok [OF assms(4) reveal])
  then have bound: "all_bound L c packets"
    using system_reachable_inv [OF assms(3) reachable_step [OF assms(5) env_system]]
    by (fastforce simp: system_inv_def)
  have matched: "reveal_Match L c (\<lambda>_. packets) idx (Some tx) = Some (?m utx i)"
    if "funds tx utx i pk amount" "\<forall>j<i. \<nexists>r. registered_output packets utx j r" for utx i
  proof -
    have "reveal_Match L c (\<lambda>_. packets) idx (Some tx) = Some (registered_claim L utx i ?r preimage)"
      by (rule funded_registration_matched [OF bound that entry]) (use assms(9) opens(1) in simp_all)
    then show ?thesis
      by (simp add: registered_maker_claim)
  qed
  have built: "library_error e \<or> (\<exists>x. e = B64EncodeError x)"
    if "funds tx utx i pk amount" "\<forall>j<i. \<nexists>r. registered_output packets utx j r"
      "claim_bundle L c (?m utx i) = Inl e" for utx i e
    using reveal_Match_sound [OF matched [OF that(1,2)] bound] claim_bundle_error that(3) by blast
  have submitted: "\<exists>s'. (system_env L w)\<^sup>*\<^sup>* s s' \<and> SysSent s' = SysSent s @ [(?m utx i, b, emu b)] \<and>
      SysPackets s' = (if emu b = Inr () then unregister ?key packets else packets) \<and>
      SysProbes s' = SysProbes s \<and> SysExec s' = SysExec s"
    if "funds tx utx i pk amount" "\<forall>j<i. \<nexists>r. registered_output packets utx j r"
      "claim_bundle L c (?m utx i) = Inr b" for utx i b
  proof -
    note matched [OF that(1,2)]
    moreover have "hex_encode (CredPkScript (MCredentials (?m utx i))) = ?key"
      using that(1) by (simp add: funds_def maker_claim_def)
    moreover have "probe_tx L idx virtual ?key = Some tx"
      using assms(9-11) by (simp add: probe_tx_def)
    moreover note probe_claims [OF assms(4), of ?s ?key "SysProbes s" L idx virtual tx "?m utx i" b emu]
      that(3)
    ultimately obtain s' where "(system_env L w)\<^sup>*\<^sup>* ?s s'"
      "SysSent s' = SysSent s @ [(?m utx i, b, emu b)]"
      "SysPackets s' = (if emu b = Inr () then unregister ?key packets else packets)"
      "SysProbes s' = SysProbes s" "SysExec s' = SysExec s"
      by auto
    with begin_probe show ?thesis
      by (blast intro: converse_rtranclp_into_rtranclp)
  qed
  have "case claim_bundle L c (?m utx i) of Inl e \<Rightarrow> library_error e \<or> (\<exists>x. e = B64EncodeError x)
    | Inr b \<Rightarrow> \<exists>s'. (system_env L w)\<^sup>*\<^sup>* s s' \<and> SysSent s' = SysSent s @ [(?m utx i, b, emu b)] \<and>
        SysPackets s' = (if emu b = Inr () then unregister ?key packets else packets) \<and>
        SysProbes s' = SysProbes s \<and> SysExec s' = SysExec s"
    if "funds tx utx i pk amount" "\<forall>j<i. \<nexists>r. registered_output packets utx j r" for utx i
    by (rule sum.split [THEN iffD2]) (intro conjI allI impI built [OF that] submitted [OF that])
  moreover have "post_reveal L c (SysNow s) (Inr (maker_body addr ct script amount tree)) (SysPackets s) =
      (200, packets)"
    using reveal by (simp add: post_maker_body)
  ultimately show ?thesis
    using opens(2) by blast
qed

theorem funded_registration_is_claimed_witness:
  "\<exists>b s'. claim_bundle toy sample_claimer
       (maker_claim toy sample_funding 0 sample_preimage sample_script sample_taptree) = Inr b \<and>
     (system_env toy sample_reveal_wiring)\<^sup>*\<^sup>* (system_init toy sample_reveal_wiring 0) s' \<and>
     SysSent s' = [(maker_claim toy sample_funding 0 sample_preimage sample_script sample_taptree, b, Inr ())] \<and>
     fmlookup (SysPackets s') (hex_encode sample_pkscript) = None"
proof -
  let ?m = "maker_claim toy sample_funding 0 sample_preimage sample_script sample_taptree" and
    ?s = "system_init toy sample_reveal_wiring 0"
  define idx :: indexer where "idx = (\<lambda>_ _. Inr [\<lparr>VtxoTxid = ''t''\<rparr>])"
  define virtual :: virtual_txs where "virtual = (\<lambda>_. Inr [bytes_string sample_pkscript])"
  have "MCredentials ?m = sample_creds" "MSourceTx ?m = Some sample_funding"
    by (simp_all add: maker_claim_def sample_creds_def sample_funding_def)
  then obtain b where b: "claim_bundle toy sample_claimer ?m = Inr b"
    using sample_creds_bundle by blast
  have s: "sample_daemon ?s"
    by (rule reachable_init) blast
  have acc: "acceptable toy (SysNow ?s) (SysPackets ?s) (bytes_string sample_pkscript) sample_tree_bytes
      sample_taptree sample_pkscript"
    using sample_acceptable by (simp add: system_init_def)
  have idx: "idx [hex_encode sample_pkscript] True = Inr (\<lparr>VtxoTxid = ''t''\<rparr> # [])"
    and virtual: "virtual [VtxoTxid \<lparr>VtxoTxid = ''t''\<rparr>] =
      Inr (bytes_string sample_pkscript # [])"
    by (simp_all add: idx_def virtual_def)
  let ?tx = "\<lparr>UnsignedTx = Some sample_funding, POutputs = [], PsbtRest = []\<rparr>"
  have init: "SysNow ?s = 0" "SysPackets ?s = fmempty" "SysSent ?s = []"
    by (simp_all add: system_init_def)
  obtain packets where
    post: "post_reveal toy sample_claimer 0 (Inr (maker_body (bytes_string sample_pkscript) sample_blob
      sample_script (Some 50000) sample_tree_bytes)) fmempty = (200, packets)"
    and claims: "\<And>utx i. funds ?tx utx i sample_pkscript (Some 50000) \<and>
        (\<forall>j<i. \<nexists>r. registered_output packets utx j r) \<longrightarrow>
      (case claim_bundle toy sample_claimer (maker_claim toy utx i sample_preimage sample_script
        sample_taptree) of Inl e \<Rightarrow> library_error e \<or> (\<exists>x. e = B64EncodeError x)
      | Inr b \<Rightarrow> \<exists>s'. (system_env toy sample_reveal_wiring)\<^sup>*\<^sup>* ?s s' \<and>
          SysSent s' = [] @ [(maker_claim toy utx i sample_preimage sample_script sample_taptree, b, Inr ())] \<and>
          SysPackets s' = (if (Inr () :: string + unit) = Inr () then unregister (hex_encode sample_pkscript) packets
            else packets) \<and>
          SysProbes s' = SysProbes ?s \<and> SysExec s' = SysExec ?s)"
    using funded_registration_is_claimed [where idx = idx and virtual = virtual and emu = "\<lambda>_. Inr ()",
        OF toy_laws(1,2) sample_reveal_wired s sample_sealed acc sample_maker_tree idx virtual
          sample_fetched, unfolded init]
    by blast
  have "packets = sample_open"
    using post sample_maker_Reveal by (simp add: post_maker_body)
  with claims [of sample_funding 0] sample_funded b obtain s' where
    "(system_env toy sample_reveal_wiring)\<^sup>*\<^sup>* ?s s'" "SysSent s' = [(?m, b, Inr ())]"
    "SysPackets s' = unregister (hex_encode sample_pkscript) sample_open"
    by auto
  with b show ?thesis
    by (intro exI [of _ b] exI [of _ s']) (simp add: unregister_def)
qed

end
