(* ===== verification/Spec2Isabelle.thy ===== *)
theory Spec2Isabelle
  imports StreamRuns ArkdRuns Backoff Provenance Ownership ProbeRuns
begin

text \<open>
  A model of covclaimd, the daemon that claims preimage-gated Ark VTXOs the moment their funding
  transaction appears, and the theorems that make it correct.

  \<^bold>\<open>The program.\<close> A maker locks an amount in a taptree with a claim closure: a condition multisig of
  the Ark signer's key and the emulator's key tweaked by an arkade script, under the hash lock of a
  preimage. The arkade script enforces that a claim pays the maker's receiver. The preimage, encrypted
  to the daemon's key, travels with that script and an optional minimum amount in a claim packet:
  in the extension of the funding transaction (the encrypted plugin), or through the reveal service
  (the reveal plugin, which keeps it in a registry). For a matching output the daemon builds the
  claim, with the preimage as condition witness, and submits it to the emulator. An executor runs
  the plugins against arkd's transaction stream.

  \<^bold>\<open>Theories and code.\<close> Each theory opens with what it holds.
  \<^item> \<open>Prelude\<close>: results, widths and byte order, hex, decimal, the first hit of a search. \<open>Transition\<close>:
    reachable states of a step relation, its invariants, simulations.
  \<^item> \<open>Externals\<close>, \<open>Instance\<close>: code that is not the repository's (btcec, HKDF and AES-GCM, txscript, the
    arkade and ark-lib packages, the PSBT library) is one parameter record \<open>ext\<close>, with the laws the
    program relies on as named predicates; \<open>toy\<close> is a concrete instance with its laws proved, on
    which every theorem with a hypothesis is applied.
  \<^item> \<open>Ecies\<close>: \<open>pkg/preimage/crypto.go\<close>. \<open>Contract\<close>: \<open>contract.go\<close>. \<open>Packet\<close>: \<open>packet.go\<close>. \<open>Maker\<close>: \<open>maker.go\<close>.
    \<open>Claim\<close>: \<open>claim.go\<close>. \<open>Claimer\<close>: \<open>claimer.go\<close>. \<open>Plugin\<close>: \<open>plugin.go\<close>.
    \<open>Lockup\<close>, \<open>RevealLockup\<close>: the maker's side and the daemon's together, for the encrypted plugin and
    for the reveal service.
  \<^item> \<open>Registry\<close>, \<open>Reveal\<close>, \<open>RevealSystem\<close>: \<open>reveal_plugin.go\<close>, first the registration map, then the
    operations as functions of it, then all of them interleaved at the granularity of the mutex.
  \<^item> \<open>Executor\<close>: \<open>pkg/executor/executor.go\<close>, a step relation of \<open>Run\<close>, the \<open>consume\<close> loops and the solves.
    \<open>PluginContract\<close>: its \<open>Plugin\<close> interface as a locale, interpreted on both plugins.
  \<^item> \<open>ArkdSource\<close>, \<open>Backoff\<close>, \<open>ArkdStream\<close>, \<open>ArkdRuns\<close>: \<open>pkg/executor/arkdsource/arkdsource.go\<close>, as functions of
    what the code waits for, with the float64 computation of the jitter; then as a labelled step
    relation of its goroutines, with the contexts and streams they hold; then that the two agree.
  \<^item> \<open>Config\<close>: \<open>internal/config/config.go\<close>. \<open>Base64\<close>, \<open>Api\<close>: \<open>internal/interface/grpc\<close>. \<open>Daemon\<close>:
    \<open>cmd/covclaimd/main.go\<close>.
  \<^item> \<open>System\<close>, \<open>SystemRuns\<close>, \<open>SystemStop\<close>: the running daemon. \<open>system_own\<close> joins the executor's steps with
    the plugins' calls: \<open>Match\<close> of the reveal plugin is taken output by output against the registry of
    that moment, \<open>Solve\<close> as the emulator's answer and then the deletion; \<open>system_env\<close> has the streams, the
    cancellation, the \<open>Reveal\<close> requests and the probes they start. Two simulations project a run onto
    one of the executor and onto one of the reveal system. \<open>Provenance\<close>, \<open>Ownership\<close>, \<open>ProbeRuns\<close>: which
    packet each claim is made for, whose claims they are, and what a probe does in a run.
  \<^item> \<open>StreamSystem\<close>, \<open>StreamRuns\<close>: the running daemon on arkd's streams. Each consumer reads the channel of
    a goroutine of \<open>ArkdStream\<close>; leaving the goroutines out gives a run of \<open>System\<close>.

  Go errors are values of a datatype in the left summand, one constructor for each place that
  returns one; a nil pointer is \<open>None\<close>; \<open>uint16\<close>, \<open>uint64\<close> and \<open>int64\<close> values are words of their width;
  times and durations are integers in nanoseconds. Random draws, clock readings and the answers of
  arkd, the indexer and the emulator are arguments of the definitions or free in the steps.

  \<^bold>\<open>Interfaces.\<close> Each is a locale, interpreted on the code's model where that is defined: \<open>codec\<close> (hex,
  byte orders, base64, claim packets), \<open>claim_store\<close> (the registration map), \<open>plugin_contract\<close> (both
  plugins), \<open>forwarder\<close> (both streams), \<open>invariant_system\<close> (the executor, its stopping, the reveal
  system, the stages of the daemon's work) and \<open>simulation\<close>, which extends it (the daemon onto its
  two parts); \<open>stream_contract\<close>, what the executor's \<open>Source\<close> interface asks of a stream's goroutine
  (arkd's), under which the daemon with its streams is a \<open>simulation\<close> of the one without, and
  \<open>daemon_streams\<close>, which extends it by the daemon's cost of a transaction.

  \<^bold>\<open>What is shown.\<close> The lemmas of each theory characterise its operations on every branch; the numbered
  theorems are the properties.
  \<^item> Matching and claiming: when each plugin matches (\<open>encrypted_match_iff\<close>, \<open>reveal_match_iff\<close>; both
    ask for some spendable VTXO at the output's script, not for that output's), that a
    match is sound for the packet of its own transaction, and a claim that \<open>BuildClaim\<close> will not refuse
    (\<open>encrypted_match_is_sound\<close>), which closure is chosen and what is built from it
    (\<open>find_claim_closure_spec\<close>, \<open>build_claim_pays_receiver\<close>), and that what a maker builds is found, opened
    and claimed for the maker's receiver, on both paths (\<open>maker_lockup_is_claimed\<close>,
    \<open>maker_registration_is_claimed\<close>): the outputs that have to be spendable, and that of several
    outputs paying registered scripts only the first is claimed, are in the statements.
  \<^item> The daemon as a whole: it refines its parts; every bundle it has submitted is that of a claim sound
    for the packet of a request it has accepted or of a transaction it has taken from the stream; what
    it registers and claims for an address of a covenant has the maker's preimage and receiver, or exhibits
    a collision; the probe claims from the first VTXO at an address, when that VTXO's transaction
    can be fetched and pays enough; a registration is lost only by expiry or an accepted claim; a
    registered output can be claimed from delivery to deletion; a cancelled daemon stops within a cost
    of its state; and once \<open>Run\<close> has returned only probes are left. \<open>run\<close> closes what it opens on every
    way out.
  \<^item> Packets: round trip with its exact bound, a reference decoder, the accepted language, order of the
    TLVs, that a decoded packet is well formed, and that changing the minimum amount of a packet that
    still opens exhibits a forgery of the cipher. Scripts: validation accepts exactly what the builder
    builds. Encryption: round trip.
  \<^item> The registry and the reveal system: the contract of \<open>register\<close>, that entries are bound to their
    address, the capacity, and that \<open>Match\<close>, \<open>Solve\<close> and the probe are refined by the
    interleaved steps.
  \<^item> The executor: every transaction is matched in order, every match solved once, nothing in flight
    when \<open>Run\<close> returns, and \<open>Run\<close> returns: a measure bounds the executor's own steps, and it is not
    stuck before.
  \<^item> The stream source: transient failures never end a subscription, permanent ones alone do, a silent
    stream is reopened, and the backoff doubles up to its maximum, each wait within a fifth of it.
    With its goroutines the daemon refines the one whose streams are arbitrary, no goroutine meets
    a closed channel or leaks a context, plugins see packets in the order of their arrival, and a
    cancelled daemon stops together with its streams. Configuration, server and reveal
    service: what is accepted, what is served, and the status of every answer.

  \<^bold>\<open>Bounds.\<close> No definition runs on fuel: loops over lists are structural, and \<open>deserialize_loop\<close> and
  \<open>filtered_loop\<close> have a measure. Goroutines are step relations; what may run forever, the streams, is
  an environment that may stop or go on.

  \<^bold>\<open>Not modelled.\<close> The generated protobuf code; accepting connections and JSON,
  which the libraries do; logging, the reports of recovered panics apart, and its timings; the
  contexts of single calls, which only make them fail; the clock of the watchdog in
  \<open>ArkdStream\<close>, where it may fire at any time; the ends of the exponent range of
  float64 in \<open>Backoff\<close>; nil entries inside third-party structures. The libraries named
  above are parameters, and nothing is claimed about what they compute beyond the laws.
\<close>

end
